(* ===== verification/Gadget_Prelude.thy ===== *)
theory Gadget_Prelude
  imports Main "HOL-Library.Word" "HOL-Library.AList"
begin

text \<open>
  Shared vocabulary of the development: the machine integers of the Rust sources as words,
  \<open>Result\<close> as a sum type with the \<open>?\<close> operator as a bind, saturating arithmetic,
  \<open>str::strip_prefix\<close>, decimal printing, and the model of the standard library's
  \<open>HashMap\<close> as an association list with distinct keys.

  A \<open>HashMap\<close> iterates in an unspecified order. The list fixes one order; every statement
  of the development that iterates over a map holds for every list that represents it.
  Overflowing \<open>+\<close> and \<open>*\<close> wrap, as in the release profile the workspace ships.
\<close>

section \<open>Machine types\<close>

type_synonym u8 = "8 word"
type_synonym u16 = "16 word"
type_synonym u32 = "32 word"
type_synonym u64 = "64 word"
type_synonym u256 = "256 word"
type_synonym bytes = "u8 list"

text \<open>\<open>std::time::Instant\<close> (signed, as its Unix representation is) and \<open>Duration\<close> in
  nanoseconds.\<close>

type_synonym instant = int
type_synonym duration = nat

named_theorems hm_simps \<open>facts on the hash map model\<close>
named_theorems res_simps \<open>facts on Result values\<close>

section \<open>Results\<close>

definition res_bind :: "'e + 'a \<Rightarrow> ('a \<Rightarrow> 'e + 'b) \<Rightarrow> 'e + 'b" where
  "res_bind r f = (case r of Inl e \<Rightarrow> Inl e | Inr a \<Rightarrow> f a)"

definition res_map_err :: "('e \<Rightarrow> 'f) \<Rightarrow> 'e + 'a \<Rightarrow> 'f + 'a" where
  "res_map_err g r = (case r of Inl e \<Rightarrow> Inl (g e) | Inr a \<Rightarrow> Inr a)"

definition ok_or :: "'e \<Rightarrow> 'a option \<Rightarrow> 'e + 'a" where
  "ok_or e x = (case x of None \<Rightarrow> Inl e | Some a \<Rightarrow> Inr a)"

fun res_collect :: "('a \<Rightarrow> 'e + 'b) \<Rightarrow> 'a list \<Rightarrow> 'e + 'b list" where
  "res_collect f [] = Inr []"
| "res_collect f (x # xs) =
     (case f x of
        Inl e \<Rightarrow> Inl e
      | Inr y \<Rightarrow> (case res_collect f xs of Inl e \<Rightarrow> Inl e | Inr ys \<Rightarrow> Inr (y # ys)))"

lemma res_bind_simps [simp, res_simps]:
  "res_bind (Inl e) f = Inl e" "res_bind (Inr a) f = f a"
  by (simp_all add: res_bind_def)

lemma res_bind_Inr_iff [res_simps]:
  "res_bind r f = Inr b \<longleftrightarrow> (\<exists>a. r = Inr a \<and> f a = Inr b)"
  by (cases r) auto

lemma res_map_err_simps [simp, res_simps]:
  "res_map_err g (Inl e) = Inl (g e)" "res_map_err g (Inr a) = Inr a"
  by (simp_all add: res_map_err_def)

lemma res_map_err_Inr_iff [res_simps]: "res_map_err g r = Inr a \<longleftrightarrow> r = Inr a"
  by (cases r) auto

lemma ok_or_simps [simp, res_simps]: "ok_or e None = Inl e" "ok_or e (Some a) = Inr a"
  by (simp_all add: ok_or_def)

lemma ok_or_Inr_iff [res_simps]: "ok_or e x = Inr a \<longleftrightarrow> x = Some a"
  by (cases x) auto

lemma res_collect_Inr_iff:
  "res_collect f xs = Inr ys \<longleftrightarrow> list_all2 (\<lambda>x y. f x = Inr y) xs ys"
proof (induction xs arbitrary: ys)
  case Nil
  then show ?case by auto
next
  case (Cons x xs)
  show ?case
  proof (cases ys)
    case Nil
    then show ?thesis by (auto split: sum.splits)
  next
    case (Cons y ys')
    with Cons.IH [of ys'] show ?thesis
      by (auto split: sum.splits)
  qed
qed

lemma res_collect_map:
  assumes "\<And>x. x \<in> set xs \<Longrightarrow> f x = Inr (g x)"
  shows "res_collect f xs = Inr (map g xs)"
  using assms by (induction xs) auto

lemma res_collect_Inr_map:
  assumes "res_collect f xs = Inr ys" and "\<And>x y. x \<in> set xs \<Longrightarrow> f x = Inr y \<Longrightarrow> h y = k x"
  shows "map h ys = map k xs"
  using assms
proof (induction xs arbitrary: ys)
  case Nil
  then show ?case by simp
next
  case (Cons x xs)
  then show ?case by (auto split: sum.splits)
qed

section \<open>Options\<close>

lemma rel_option_trans:
  assumes R: "\<And>x y z. R x y \<Longrightarrow> R y z \<Longrightarrow> R x z" and "rel_option R a b" and "rel_option R b c"
  shows "rel_option R a c"
proof (cases b)
  case None
  with assms(2,3) show ?thesis by simp
next
  case (Some y)
  with assms(2,3) obtain x z where "a = Some x" "c = Some z" "R x y" "R y z"
    by (auto simp: option_rel_Some1 option_rel_Some2)
  then show ?thesis using R [of x y z] by simp
qed

lemma sorted_le_last: "sorted xs \<Longrightarrow> x \<in> set xs \<Longrightarrow> x \<le> last xs"
  by (induction xs) auto

section \<open>Saturating arithmetic on \<open>u64\<close>\<close>

definition u64_max :: u64 where
  "u64_max = - 1"

definition sat_add :: "u64 \<Rightarrow> u64 \<Rightarrow> u64" where
  "sat_add a b = (if unat a + unat b < 2 ^ 64 then a + b else u64_max)"

definition sat_sub :: "u64 \<Rightarrow> u64 \<Rightarrow> u64" where
  "sat_sub a b = (if b \<le> a then a - b else 0)"

definition sat_mul :: "u64 \<Rightarrow> u64 \<Rightarrow> u64" where
  "sat_mul a b = (if unat a * unat b < 2 ^ 64 then a * b else u64_max)"

lemma unat_u64_max: "unat u64_max = 2 ^ 64 - 1"
  by (simp add: u64_max_def unsigned_minus_1_eq_mask mask_eq_exp_minus_1)

lemma unat_less_64 [simp]: "unat (a :: u64) < 2 ^ 64"
  using unsigned_less [of a] by simp

lemma unat_sat_add: "unat (sat_add a b) = min (2 ^ 64 - 1) (unat a + unat b)"
  by (auto simp: sat_add_def unat_u64_max unat_word_ariths)

lemma unat_sat_sub: "unat (sat_sub a b) = unat a - unat b"
  by (auto simp: sat_sub_def unat_sub word_le_nat_alt)

lemma unat_sat_mul: "unat (sat_mul a b) = min (2 ^ 64 - 1) (unat a * unat b)"
  by (auto simp: sat_mul_def unat_u64_max unat_word_ariths)

text \<open>The wrapping sum of a list of \<open>u64\<close> is the true sum when that fits.\<close>

lemma unat_sum_list:
  "unat (sum_list (xs :: u64 list)) = (\<Sum>x\<leftarrow>xs. unat x) mod 2 ^ 64"
  by (induction xs) (simp_all add: unat_word_ariths mod_simps)

lemma unat_sum_list_exact:
  "(\<Sum>x\<leftarrow>xs. unat x) < 2 ^ 64 \<Longrightarrow> unat (sum_list (xs :: u64 list)) = (\<Sum>x\<leftarrow>xs. unat x)"
  by (simp add: unat_sum_list)

section \<open>Strings\<close>

text \<open>\<open>str::strip_prefix\<close>.\<close>

definition strip_prefix :: "string \<Rightarrow> string \<Rightarrow> string option" where
  "strip_prefix p s = (if take (length p) s = p then Some (drop (length p) s) else None)"

text \<open>\<open>s.strip_prefix(p).unwrap_or(s)\<close>.\<close>

definition strip_or_self :: "string \<Rightarrow> string \<Rightarrow> string" where
  "strip_or_self p s = (case strip_prefix p s of None \<Rightarrow> s | Some r \<Rightarrow> r)"

lemma strip_or_self_append [simp]: "strip_or_self p (p @ s) = s"
  by (simp add: strip_or_self_def strip_prefix_def)

text \<open>Decimal printing of an unsigned integer (the \<open>Display\<close> of \<open>u64\<close>).\<close>

definition digit_char :: "nat \<Rightarrow> char" where
  "digit_char d = char_of (48 + d)"

fun show_nat :: "nat \<Rightarrow> string" where
  "show_nat n = (if n < 10 then [digit_char n] else show_nat (n div 10) @ [digit_char (n mod 10)])"

declare show_nat.simps [simp del]

definition show_u64 :: "u64 \<Rightarrow> string" where
  "show_u64 w = show_nat (unat w)"

lemma digit_char_range: "d < 10 \<Longrightarrow> of_char (digit_char d) = 48 + d"
  by (simp add: digit_char_def take_bit_nat_eq_self)

lemma digit_char_inj: "d < 10 \<Longrightarrow> e < 10 \<Longrightarrow> digit_char d = digit_char e \<Longrightarrow> d = e"
  by (metis add_left_cancel digit_char_range)

lemma show_nat_nonempty [simp]: "show_nat n \<noteq> []"
  by (subst show_nat.simps) simp

lemma show_nat_digits: "c \<in> set (show_nat n) \<Longrightarrow> \<exists>d<10. c = digit_char d"
proof (induction n rule: show_nat.induct)
  case (1 n)
  show ?case
  proof (cases "n < 10")
    case True
    with "1.prems" show ?thesis by (auto simp: show_nat.simps [of n])
  next
    case False
    with "1.prems" have "c \<in> set (show_nat (n div 10)) \<or> c = digit_char (n mod 10)"
      by (auto simp: show_nat.simps [of n])
    with False "1.IH" show ?thesis
      by (auto intro: exI [of _ "n mod 10"])
  qed
qed

lemma show_nat_inj: "show_nat m = show_nat n \<Longrightarrow> m = n"
proof (induction m arbitrary: n rule: show_nat.induct)
  case (1 m)
  show ?case
  proof (cases "m < 10 \<longleftrightarrow> n < 10")
    case True
    then show ?thesis
    proof (cases "m < 10")
      case m: True
      with True "1.prems" show ?thesis
        by (auto simp: show_nat.simps [of m] show_nat.simps [of n] dest: digit_char_inj)
    next
      case m: False
      with True "1.prems" have "show_nat (m div 10) = show_nat (n div 10)"
        and "digit_char (m mod 10) = digit_char (n mod 10)"
        by (auto simp: show_nat.simps [of m] show_nat.simps [of n])
      then have "m div 10 = n div 10" and "m mod 10 = n mod 10"
        using "1.IH" [OF m, of "n div 10"] digit_char_inj [of "m mod 10" "n mod 10"] by simp_all
      then show ?thesis by (metis div_mult_mod_eq)
    qed
  next
    case False
    then have "length (show_nat m) \<noteq> length (show_nat n)"
      by (auto simp: show_nat.simps [of m] show_nat.simps [of n])
    with "1.prems" show ?thesis by simp
  qed
qed

lemma show_u64_inj: "show_u64 a = show_u64 b \<Longrightarrow> a = b"
  unfolding show_u64_def by (rule word_unat_eq_iff [THEN iffD2]) (rule show_nat_inj)

lemma show_u64_no_colon: "CHR '':'' \<notin> set (show_u64 a)"
proof
  assume "CHR '':'' \<in> set (show_u64 a)"
  then obtain d where d: "d < 10" "CHR '':'' = digit_char d"
    unfolding show_u64_def by (blast dest: show_nat_digits)
  then have "of_char CHR '':'' = (48 + d :: nat)"
    by (metis digit_char_range)
  moreover have "of_char CHR '':'' = (58 :: nat)"
    by simp
  ultimately show False
    using d by linarith
qed

text \<open>Two colon-separated fields whose first has no colon split uniquely.\<close>

lemma split_at_char:
  assumes "c \<notin> set xs" and "c \<notin> set ys" and "xs @ c # us = ys @ c # vs"
  shows "xs = ys \<and> us = vs"
  using assms
proof (induction xs arbitrary: ys)
  case Nil
  then show ?case by (cases ys) auto
next
  case (Cons x xs)
  then show ?case by (cases ys) auto
qed

end
