(* ===== verification/Hash_Map.thy ===== *)
theory Hash_Map
  imports Gadget_Prelude
begin

text \<open>
  The standard library's \<open>HashMap\<close>: an association list with distinct keys, updated in place
  and extended at its end. \<open>hash_map\<close> is the contract its clients use (lookup after each
  operation, the size as the number of keys); the clients' counting lemmas are proved once in
  the locale and interpreted on the list operations as \<open>hm\<close>.
\<close>

type_synonym ('k, 'v) hmap = "('k \<times> 'v) list"

section \<open>Operations\<close>

definition hm_wf :: "('k, 'v) hmap \<Rightarrow> bool" where
  "hm_wf m \<longleftrightarrow> distinct (map fst m)"

abbreviation hm_get :: "('k, 'v) hmap \<Rightarrow> 'k \<Rightarrow> 'v option" where
  "hm_get \<equiv> map_of"

abbreviation hm_keys :: "('k, 'v) hmap \<Rightarrow> 'k list" where
  "hm_keys m \<equiv> map fst m"

abbreviation hm_values :: "('k, 'v) hmap \<Rightarrow> 'v list" where
  "hm_values m \<equiv> map snd m"

abbreviation hm_len :: "('k, 'v) hmap \<Rightarrow> nat" where
  "hm_len m \<equiv> length m"

definition hm_insert :: "'k \<Rightarrow> 'v \<Rightarrow> ('k, 'v) hmap \<Rightarrow> ('k, 'v) hmap" where
  "hm_insert k v m = AList.update k v m"

definition hm_remove :: "'k \<Rightarrow> ('k, 'v) hmap \<Rightarrow> ('k, 'v) hmap" where
  "hm_remove k m = AList.delete k m"

definition hm_retain :: "('k \<Rightarrow> 'v \<Rightarrow> bool) \<Rightarrow> ('k, 'v) hmap \<Rightarrow> ('k, 'v) hmap" where
  "hm_retain p m = filter (\<lambda>(k, v). p k v) m"

text \<open>\<open>iter().collect::<HashMap<_, _>>()\<close>: a later pair overwrites an earlier one.\<close>

fun hm_extend :: "('k, 'v) hmap \<Rightarrow> ('k \<times> 'v) list \<Rightarrow> ('k, 'v) hmap" where
  "hm_extend m [] = m"
| "hm_extend m ((k, v) # kvs) = hm_extend (hm_insert k v m) kvs"

definition hm_collect :: "('k \<times> 'v) list \<Rightarrow> ('k, 'v) hmap" where
  "hm_collect kvs = hm_extend [] kvs"

text \<open>\<open>PartialEq for HashMap\<close>: equal sizes and every entry of one found in the other.\<close>

definition hm_eq :: "('k, 'v) hmap \<Rightarrow> ('k, 'v) hmap \<Rightarrow> bool" where
  "hm_eq m m' \<longleftrightarrow> hm_len m = hm_len m' \<and> list_all (\<lambda>(k, v). hm_get m' k = Some v) m"

section \<open>Lookup and well-formedness\<close>

lemma hm_get_insert [simp, hm_simps]:
  "hm_get (hm_insert k v m) = (hm_get m)(k \<mapsto> v)"
  by (simp add: hm_insert_def update_conv')

lemma hm_get_remove [simp, hm_simps]: "hm_get (hm_remove k m) = (hm_get m)(k := None)"
  by (simp add: hm_remove_def delete_conv')

lemma hm_wf_Nil [simp, hm_simps]: "hm_wf []"
  by (simp add: hm_wf_def)

lemma hm_wf_insert [simp, hm_simps]: "hm_wf m \<Longrightarrow> hm_wf (hm_insert k v m)"
  by (simp add: hm_wf_def hm_insert_def distinct_update)

lemma hm_wf_remove [simp, hm_simps]: "hm_wf m \<Longrightarrow> hm_wf (hm_remove k m)"
  by (simp add: hm_wf_def hm_remove_def distinct_delete)

lemma hm_wf_filter [simp, hm_simps]: "hm_wf m \<Longrightarrow> hm_wf (filter p m)"
  by (simp add: hm_wf_def distinct_map_filter)

lemma hm_wf_retain [simp, hm_simps]: "hm_wf m \<Longrightarrow> hm_wf (hm_retain p m)"
  by (simp add: hm_retain_def)

lemma hm_get_filter:
  assumes "hm_wf m"
  shows "hm_get (filter (\<lambda>(k, v). p k v) m) k =
    (case hm_get m k of None \<Rightarrow> None | Some v \<Rightarrow> if p k v then Some v else None)"
  using assms
proof (induction m)
  case Nil
  then show ?case by simp
next
  case (Cons kv m)
  obtain k' v' where kv: "kv = (k', v')" by (cases kv)
  with Cons.prems have notin: "hm_get m k' = None" and "hm_wf m"
    by (auto simp: hm_wf_def map_of_eq_None_iff)
  with Cons.IH kv show ?case by (auto split: option.splits)
qed

lemma hm_get_retain [hm_simps]:
  "hm_wf m \<Longrightarrow> hm_get (hm_retain p m) k =
    (case hm_get m k of None \<Rightarrow> None | Some v \<Rightarrow> if p k v then Some v else None)"
  by (simp add: hm_retain_def hm_get_filter)

lemma hm_in_set_iff: "hm_wf m \<Longrightarrow> (k, v) \<in> set m \<longleftrightarrow> hm_get m k = Some v"
  by (simp add: hm_wf_def)

lemma hm_keys_iff: "k \<in> set (hm_keys m) \<longleftrightarrow> hm_get m k \<noteq> None"
  by (simp add: map_of_eq_None_iff)

lemma set_hm_insert:
  "hm_wf m \<Longrightarrow> (k', v') \<in> set (hm_insert k v m) \<longleftrightarrow>
     (if k' = k then v' = v else (k', v') \<in> set m)"
  by (auto simp: hm_in_set_iff)

lemma set_hm_remove:
  "hm_wf m \<Longrightarrow> (k', v') \<in> set (hm_remove k m) \<longleftrightarrow> k' \<noteq> k \<and> (k', v') \<in> set m"
  by (simp add: hm_in_set_iff)

lemma set_hm_retain: "(k, v) \<in> set (hm_retain p m) \<longleftrightarrow> (k, v) \<in> set m \<and> p k v"
  by (simp add: hm_retain_def)

lemma fst_set_hm_insert [simp, hm_simps]: "fst ` set (hm_insert k v m) = insert k (fst ` set m)"
  by (simp add: hm_insert_def dom_update)

lemma fst_set_hm_remove [simp, hm_simps]: "fst ` set (hm_remove k m) = fst ` set m - {k}"
  by (auto simp: hm_remove_def AList.delete_eq image_iff)

lemma hm_len_card: "hm_wf m \<Longrightarrow> hm_len m = card (dom (hm_get m))"
  using distinct_card [of "hm_keys m"] by (simp add: hm_wf_def dom_map_of_conv_image_fst)

lemma hm_insert_new: "hm_get m k = None \<Longrightarrow> hm_insert k v m = m @ [(k, v)]"
  by (induction m) (auto simp: hm_insert_def split: if_splits)

lemma hm_keys_insert:
  "hm_keys (hm_insert k v m) = (if hm_get m k = None then hm_keys m @ [k] else hm_keys m)"
  by (auto simp: hm_insert_def update_keys map_of_eq_None_iff)

lemma hm_wf_extend [simp, hm_simps]: "hm_wf m \<Longrightarrow> hm_wf (hm_extend m kvs)"
  by (induction m kvs rule: hm_extend.induct) simp_all

lemma hm_wf_collect [simp, hm_simps]: "hm_wf (hm_collect kvs)"
  by (simp add: hm_collect_def)

lemma hm_get_extend: "hm_get (hm_extend m kvs) = hm_get m ++ map_of (rev kvs)"
  by (induction m kvs rule: hm_extend.induct) (auto simp: map_add_def fun_eq_iff split: option.splits)

lemma hm_extend_wf: "hm_wf (m @ kvs) \<Longrightarrow> hm_extend m kvs = m @ kvs"
proof (induction m kvs rule: hm_extend.induct)
  case (2 m k v kvs)
  then have "hm_get m k = None"
    by (auto simp: hm_wf_def map_of_eq_None_iff)
  with 2 show ?case by (simp add: hm_insert_new)
qed simp

lemma hm_collect_wf: "hm_wf kvs \<Longrightarrow> hm_collect kvs = kvs"
  by (simp add: hm_collect_def hm_extend_wf)

text \<open>Rust's map equality is equality of the finite maps.\<close>

lemma hm_eq_iff:
  assumes "hm_wf m" and "hm_wf m'"
  shows "hm_eq m m' \<longleftrightarrow> hm_get m = hm_get m'"
proof
  assume eq: "hm_eq m m'"
  then have sub: "hm_get m \<subseteq>\<^sub>m hm_get m'"
    by (fastforce simp: hm_eq_def map_le_def list_all_iff dest: map_of_SomeD)
  then have "dom (hm_get m) \<subseteq> dom (hm_get m')"
    by (rule map_le_implies_dom_le)
  moreover have "card (dom (hm_get m)) = card (dom (hm_get m'))"
    using eq assms by (simp add: hm_eq_def hm_len_card)
  ultimately have "dom (hm_get m) = dom (hm_get m')"
    by (meson card_subset_eq finite_dom_map_of)
  with sub have "hm_get m' \<subseteq>\<^sub>m hm_get m"
    by (simp add: map_le_def)
  with sub show "hm_get m = hm_get m'"
    by (rule map_le_antisym)
next
  assume eq: "hm_get m = hm_get m'"
  then have "hm_len m = hm_len m'"
    using assms by (simp add: hm_len_card)
  moreover have "list_all (\<lambda>(k, v). hm_get m' k = Some v) m"
    using assms eq [symmetric] by (auto simp: list_all_iff hm_in_set_iff)
  ultimately show "hm_eq m m'" by (simp add: hm_eq_def)
qed

text \<open>A sum over the entries depends on the finite map only.\<close>

lemma hm_sum_keys:
  "hm_wf m \<Longrightarrow> (\<Sum>k\<leftarrow>hm_keys m. f k) = (\<Sum>k\<in>dom (hm_get m). f k)"
  using sum_list_distinct_conv_sum_set [of "hm_keys m" f]
  by (simp add: hm_wf_def dom_map_of_conv_image_fst)

lemma hm_sum_values:
  "hm_wf m \<Longrightarrow> (\<Sum>v\<leftarrow>hm_values m. f v) = (\<Sum>k\<in>dom (hm_get m). f (the (hm_get m k)))"
proof -
  assume wf: "hm_wf m"
  have "map (f \<circ> snd) m = map ((\<lambda>k. f (the (hm_get m k))) \<circ> fst) m"
    using wf by (intro map_cong) (auto simp: hm_wf_def)
  then have "(\<Sum>v\<leftarrow>hm_values m. f v) = (\<Sum>k\<leftarrow>hm_keys m. f (the (hm_get m k)))"
    by (simp only: map_map)
  also have "\<dots> = (\<Sum>k\<in>dom (hm_get m). f (the (hm_get m k)))"
    using wf by (rule hm_sum_keys)
  finally show ?thesis .
qed

section \<open>The contract of a finite map\<close>

locale hash_map =
  fixes empty :: 'm
    and get :: "'m \<Rightarrow> 'k \<Rightarrow> 'v option"
    and insert :: "'k \<Rightarrow> 'v \<Rightarrow> 'm \<Rightarrow> 'm"
    and remove :: "'k \<Rightarrow> 'm \<Rightarrow> 'm"
    and retain :: "('k \<Rightarrow> 'v \<Rightarrow> bool) \<Rightarrow> 'm \<Rightarrow> 'm"
    and len :: "'m \<Rightarrow> nat"
    and wf :: "'m \<Rightarrow> bool"
  assumes wf_empty: "wf empty"
    and wf_insert: "wf m \<Longrightarrow> wf (insert k v m)"
    and wf_remove: "wf m \<Longrightarrow> wf (remove k m)"
    and wf_retain: "wf m \<Longrightarrow> wf (retain p m)"
    and get_empty: "get empty = Map.empty"
    and get_insert: "wf m \<Longrightarrow> get (insert k v m) = (get m)(k \<mapsto> v)"
    and get_remove: "wf m \<Longrightarrow> get (remove k m) = (get m)(k := None)"
    and get_retain: "wf m \<Longrightarrow> get (retain p m) k =
      (case get m k of None \<Rightarrow> None | Some v \<Rightarrow> if p k v then Some v else None)"
    and finite_get: "wf m \<Longrightarrow> finite (dom (get m))"
    and len_get: "wf m \<Longrightarrow> len m = card (dom (get m))"
begin

lemma len_insert: "wf m \<Longrightarrow> len (insert k v m) = (if get m k = None then Suc (len m) else len m)"
  by (auto simp: len_get wf_insert get_insert finite_get card_insert_if)

lemma len_remove: "wf m \<Longrightarrow> len (remove k m) = (if get m k = None then len m else len m - 1)"
  by (auto simp: len_get wf_remove get_remove finite_get card_Diff_singleton_if)

lemma dom_retain: "wf m \<Longrightarrow> dom (get (retain p m)) = {k. \<exists>v. get m k = Some v \<and> p k v}"
  by (auto simp: get_retain split: option.splits if_splits)

lemma len_retain_le: "wf m \<Longrightarrow> len (retain p m) \<le> len m"
  by (auto simp: len_get wf_retain dom_retain finite_get intro!: card_mono)

text \<open>What \<open>len() - len()\<close> around a \<open>retain\<close> counts: the entries the predicate drops.\<close>

lemma retain_removed:
  assumes "wf m"
  shows "len m - len (retain p m) = card {k. \<exists>v. get m k = Some v \<and> \<not> p k v}"
proof -
  let ?keep = "{k. \<exists>v. get m k = Some v \<and> p k v}"
  let ?drop = "{k. \<exists>v. get m k = Some v \<and> \<not> p k v}"
  have sub: "?keep \<subseteq> dom (get m)" and split: "dom (get m) - ?keep = ?drop"
    by (auto simp: dom_def)
  have "card (dom (get m) - ?keep) = card (dom (get m)) - card ?keep"
    using assms sub by (meson card_Diff_subset finite_get finite_subset)
  with split assms show ?thesis
    by (simp add: len_get wf_retain dom_retain)
qed

lemma retain_all: "wf m \<Longrightarrow> (\<And>k v. get m k = Some v \<Longrightarrow> p k v) \<Longrightarrow> get (retain p m) = get m"
  by (rule ext) (simp add: get_retain split: option.splits)

end

interpretation hm: hash_map "[]" hm_get hm_insert hm_remove hm_retain hm_len hm_wf
  by unfold_locales (simp_all add: hm_get_retain hm_len_card finite_dom_map_of)

end
