(* ===== verification/Agg_State.thy ===== *)
theory Agg_State
  imports Hash_Map
begin

unbundle bit_operations_syntax

text \<open>
  The in-memory aggregation state, \<open>crates/tangle-aggregation-svc/src/state.rs\<close>: one
  \<open>task_state\<close> per job call, collecting at most one BLS signature per operator index, and
  the manager \<open>agg_state\<close> that maps task ids to tasks. Signatures and public keys are the
  type parameters \<open>'s\<close> and \<open>'p\<close>. Every \<open>Instant::now()\<close> the code reads is an argument;
  a handler that reads the clock twice takes two. The \<open>&'static str\<close> errors are strings.
\<close>

section \<open>Data\<close>

datatype task_id = TaskId (task_service_id: u64) (task_call_id: u64)

datatype threshold_type = Count u32 | StakeWeighted u32

datatype signature_scheme = ArkworksSha256 | TangleKeccak256

record ('s, 'p) task_state =
  ts_service_id :: u64
  ts_call_id :: u64
  ts_output :: bytes
  ts_message :: bytes
  ts_signature_scheme :: signature_scheme
  ts_operator_count :: u32
  ts_threshold_type :: threshold_type
  ts_signer_bitmap :: u256
  ts_signatures :: "(u32, 's) hmap"
  ts_public_keys :: "(u32, 'p) hmap"
  ts_operator_stakes :: "(u32, u64) hmap"
  ts_total_stake :: u64
  ts_submitted :: bool
  ts_submitted_at :: "instant option"
  ts_created_at :: instant
  ts_expires_at :: "instant option"

record task_config =
  tc_threshold_type :: threshold_type
  tc_operator_stakes :: "(u32, u64) hmap option"
  tc_ttl :: "duration option"

definition task_config_default :: task_config where
  "task_config_default =
     \<lparr>tc_threshold_type = Count 1, tc_operator_stakes = None, tc_ttl = None\<rparr>"

type_synonym ('s, 'p) agg_state = "(task_id, ('s, 'p) task_state) hmap"

record task_status =
  st_signatures_collected :: nat
  st_threshold_required :: nat
  st_threshold_type :: threshold_type
  st_threshold_met :: bool
  st_signer_bitmap :: u256
  st_signed_stake_bps :: u32
  st_submitted :: bool
  st_is_expired :: bool
  st_time_remaining_secs :: "nat option"

record ('s, 'p) task_for_aggregation =
  ta_service_id :: u64
  ta_call_id :: u64
  ta_output :: bytes
  ta_signer_bitmap :: u256
  ta_non_signer_indices :: "u32 list"
  ta_signatures :: "'s list"
  ta_public_keys :: "'p list"

record task_counts =
  n_total :: nat
  n_pending :: nat
  n_ready :: nat
  n_submitted :: nat
  n_expired :: nat

section \<open>One task\<close>

text \<open>The operator indices \<open>0..operator_count\<close>.\<close>

definition operator_range :: "u32 \<Rightarrow> u32 list" where
  "operator_range n = map of_nat [0..<unat n]"

definition with_message_config ::
  "instant \<Rightarrow> u64 \<Rightarrow> u64 \<Rightarrow> bytes \<Rightarrow> bytes \<Rightarrow> signature_scheme \<Rightarrow> u32 \<Rightarrow> threshold_type \<Rightarrow>
   (u32, u64) hmap option \<Rightarrow> duration option \<Rightarrow> ('s, 'p) task_state" where
  "with_message_config now sid cid output msg scheme n_ops threshold operator_stakes ttl =
     (let expires_at = map_option (\<lambda>d. now + int d) ttl;
          (stakes, total_stake) =
            (case operator_stakes of
               Some stakes \<Rightarrow> (stakes, sum_list (hm_values stakes))
             | None \<Rightarrow> (map (\<lambda>i. (i, 1)) (operator_range n_ops), ucast n_ops))
      in \<lparr>ts_service_id = sid, ts_call_id = cid, ts_output = output, ts_message = msg,
          ts_signature_scheme = scheme, ts_operator_count = n_ops,
          ts_threshold_type = threshold, ts_signer_bitmap = 0, ts_signatures = [],
          ts_public_keys = [], ts_operator_stakes = stakes, ts_total_stake = total_stake,
          ts_submitted = False, ts_submitted_at = None, ts_created_at = now,
          ts_expires_at = expires_at\<rparr>)"

definition with_config ::
  "instant \<Rightarrow> u64 \<Rightarrow> u64 \<Rightarrow> bytes \<Rightarrow> u32 \<Rightarrow> threshold_type \<Rightarrow> (u32, u64) hmap option \<Rightarrow>
   duration option \<Rightarrow> ('s, 'p) task_state" where
  "with_config now sid cid output n_ops threshold operator_stakes ttl =
     with_message_config now sid cid output output ArkworksSha256 n_ops threshold
       operator_stakes ttl"

definition task_new ::
  "instant \<Rightarrow> u64 \<Rightarrow> u64 \<Rightarrow> bytes \<Rightarrow> u32 \<Rightarrow> u32 \<Rightarrow> ('s, 'p) task_state" where
  "task_new now sid cid output n_ops threshold =
     with_config now sid cid output n_ops (Count threshold) None None"

definition is_expired :: "instant \<Rightarrow> ('s, 'p) task_state \<Rightarrow> bool" where
  "is_expired now t = (case ts_expires_at t of None \<Rightarrow> False | Some e \<Rightarrow> now > e)"

definition time_remaining :: "instant \<Rightarrow> ('s, 'p) task_state \<Rightarrow> duration option" where
  "time_remaining now t =
     (case ts_expires_at t of
        None \<Rightarrow> None
      | Some e \<Rightarrow> if now < e then Some (nat (e - now)) else None)"

definition has_signed :: "u32 \<Rightarrow> ('s, 'p) task_state \<Rightarrow> bool" where
  "has_signed i t \<longleftrightarrow> drop_bit (unat i) (ts_signer_bitmap t) AND 1 = 1"

definition add_signature ::
  "instant \<Rightarrow> u32 \<Rightarrow> 's \<Rightarrow> 'p \<Rightarrow> ('s, 'p) task_state \<Rightarrow> string + ('s, 'p) task_state" where
  "add_signature now i sig pk t =
     (if i \<ge> ts_operator_count t then Inl ''Operator index out of bounds''
      else if has_signed i t then Inl ''Operator already signed''
      else if is_expired now t then Inl ''Task has expired''
      else Inr (t\<lparr>ts_signer_bitmap := ts_signer_bitmap t OR push_bit (unat i) 1,
                  ts_signatures := hm_insert i sig (ts_signatures t),
                  ts_public_keys := hm_insert i pk (ts_public_keys t)\<rparr>))"

definition signature_count :: "('s, 'p) task_state \<Rightarrow> nat" where
  "signature_count t = hm_len (ts_signatures t)"

definition signed_stake :: "('s, 'p) task_state \<Rightarrow> u64" where
  "signed_stake t =
     (\<Sum>i\<leftarrow>hm_keys (ts_signatures t).
        case hm_get (ts_operator_stakes t) i of None \<Rightarrow> 0 | Some s \<Rightarrow> s)"

definition signed_stake_bps :: "('s, 'p) task_state \<Rightarrow> u32" where
  "signed_stake_bps t =
     (if ts_total_stake t = 0 then 0
      else ucast ((signed_stake t * 10000) div ts_total_stake t))"

definition threshold_met :: "('s, 'p) task_state \<Rightarrow> bool" where
  "threshold_met t =
     (case ts_threshold_type t of
        Count n \<Rightarrow> signature_count t \<ge> unat n
      | StakeWeighted bps \<Rightarrow> signed_stake_bps t \<ge> bps)"

definition threshold_value :: "('s, 'p) task_state \<Rightarrow> nat" where
  "threshold_value t =
     (case ts_threshold_type t of Count n \<Rightarrow> unat n | StakeWeighted bps \<Rightarrow> unat bps)"

definition get_non_signers :: "('s, 'p) task_state \<Rightarrow> u32 list" where
  "get_non_signers t = filter (\<lambda>i. \<not> has_signed i t) (operator_range (ts_operator_count t))"

definition get_signers :: "('s, 'p) task_state \<Rightarrow> u32 list" where
  "get_signers t = sort (hm_keys (ts_signatures t))"

fun collect_signatures ::
  "(u32, 's) hmap \<Rightarrow> (u32, 'p) hmap \<Rightarrow> u32 list \<Rightarrow> 's list \<times> 'p list" where
  "collect_signatures sigs pks [] = ([], [])"
| "collect_signatures sigs pks (i # is) =
     (let (ss, ps) = collect_signatures sigs pks is in
      case (hm_get sigs i, hm_get pks i) of
        (Some s, Some p) \<Rightarrow> (s # ss, p # ps)
      | _ \<Rightarrow> (ss, ps))"

definition get_signatures_for_aggregation :: "('s, 'p) task_state \<Rightarrow> 's list \<times> 'p list" where
  "get_signatures_for_aggregation t =
     collect_signatures (ts_signatures t) (ts_public_keys t) (get_signers t)"

section \<open>The task map\<close>

definition init_task_with_message_config ::
  "instant \<Rightarrow> u64 \<Rightarrow> u64 \<Rightarrow> bytes \<Rightarrow> bytes \<Rightarrow> signature_scheme \<Rightarrow> u32 \<Rightarrow> task_config \<Rightarrow>
   ('s, 'p) agg_state \<Rightarrow> (string + unit) \<times> ('s, 'p) agg_state" where
  "init_task_with_message_config now sid cid output msg scheme n_ops config tasks =
     (let tid = TaskId sid cid;
          state = with_message_config now sid cid output msg scheme n_ops
                    (tc_threshold_type config) (tc_operator_stakes config) (tc_ttl config)
      in case hm_get tasks tid of
           Some existing \<Rightarrow>
             (let same_context =
                    ts_output existing = ts_output state
                    \<and> ts_message existing = ts_message state
                    \<and> ts_signature_scheme existing = ts_signature_scheme state
                    \<and> ts_operator_count existing = ts_operator_count state
                    \<and> ts_threshold_type existing = ts_threshold_type state
                    \<and> hm_eq (ts_operator_stakes existing) (ts_operator_stakes state)
              in (if same_context then Inr ()
                  else Inl ''Task initialization conflicts with existing context'', tasks))
         | None \<Rightarrow> (Inr (), hm_insert tid state tasks))"

definition init_task_with_config ::
  "instant \<Rightarrow> u64 \<Rightarrow> u64 \<Rightarrow> bytes \<Rightarrow> u32 \<Rightarrow> task_config \<Rightarrow>
   ('s, 'p) agg_state \<Rightarrow> (string + unit) \<times> ('s, 'p) agg_state" where
  "init_task_with_config now sid cid output n_ops config tasks =
     init_task_with_message_config now sid cid output output ArkworksSha256 n_ops config tasks"

definition init_task ::
  "instant \<Rightarrow> u64 \<Rightarrow> u64 \<Rightarrow> bytes \<Rightarrow> u32 \<Rightarrow> u32 \<Rightarrow>
   ('s, 'p) agg_state \<Rightarrow> (string + unit) \<times> ('s, 'p) agg_state" where
  "init_task now sid cid output n_ops threshold tasks =
     init_task_with_config now sid cid output n_ops
       (task_config_default\<lparr>tc_threshold_type := Count threshold\<rparr>) tasks"

definition get_task_output :: "u64 \<Rightarrow> u64 \<Rightarrow> ('s, 'p) agg_state \<Rightarrow> bytes option" where
  "get_task_output sid cid tasks = map_option ts_output (hm_get tasks (TaskId sid cid))"

definition get_task_signature_context ::
  "u64 \<Rightarrow> u64 \<Rightarrow> ('s, 'p) agg_state \<Rightarrow> (bytes \<times> signature_scheme) option" where
  "get_task_signature_context sid cid tasks =
     map_option (\<lambda>t. (ts_message t, ts_signature_scheme t)) (hm_get tasks (TaskId sid cid))"

text \<open>Two clock readings: the check of the manager and the one inside \<open>add_signature\<close>.\<close>

definition submit_signature ::
  "instant \<Rightarrow> instant \<Rightarrow> u64 \<Rightarrow> u64 \<Rightarrow> u32 \<Rightarrow> 's \<Rightarrow> 'p \<Rightarrow>
   ('s, 'p) agg_state \<Rightarrow> (string + nat \<times> bool) \<times> ('s, 'p) agg_state" where
  "submit_signature now now' sid cid i sig pk tasks =
     (let tid = TaskId sid cid in
      case hm_get tasks tid of
        None \<Rightarrow> (Inl ''Task not found'', tasks)
      | Some t \<Rightarrow>
          (if ts_submitted t then (Inl ''Task already submitted to chain'', tasks)
           else if is_expired now t then (Inl ''Task has expired'', tasks)
           else case add_signature now' i sig pk t of
                  Inl e \<Rightarrow> (Inl e, tasks)
                | Inr t' \<Rightarrow> (Inr (signature_count t', threshold_met t'), hm_insert tid t' tasks)))"

definition get_status :: "instant \<Rightarrow> u64 \<Rightarrow> u64 \<Rightarrow> ('s, 'p) agg_state \<Rightarrow> task_status option" where
  "get_status now sid cid tasks =
     map_option (\<lambda>t.
       \<lparr>st_signatures_collected = signature_count t,
        st_threshold_required = threshold_value t,
        st_threshold_type = ts_threshold_type t,
        st_threshold_met = threshold_met t,
        st_signer_bitmap = ts_signer_bitmap t,
        st_signed_stake_bps = signed_stake_bps t,
        st_submitted = ts_submitted t,
        st_is_expired = is_expired now t,
        st_time_remaining_secs = map_option (\<lambda>d. d div 10 ^ 9) (time_remaining now t)\<rparr>)
       (hm_get tasks (TaskId sid cid))"

definition get_for_aggregation ::
  "instant \<Rightarrow> u64 \<Rightarrow> u64 \<Rightarrow> ('s, 'p) agg_state \<Rightarrow> ('s, 'p) task_for_aggregation option" where
  "get_for_aggregation now sid cid tasks =
     (case hm_get tasks (TaskId sid cid) of
        None \<Rightarrow> None
      | Some t \<Rightarrow>
          (if \<not> threshold_met t \<or> ts_submitted t \<or> is_expired now t then None
           else let (signatures, public_keys) = get_signatures_for_aggregation t
                in Some \<lparr>ta_service_id = ts_service_id t, ta_call_id = ts_call_id t,
                         ta_output = ts_output t, ta_signer_bitmap = ts_signer_bitmap t,
                         ta_non_signer_indices = get_non_signers t,
                         ta_signatures = signatures, ta_public_keys = public_keys\<rparr>))"

definition mark_submitted ::
  "instant \<Rightarrow> u64 \<Rightarrow> u64 \<Rightarrow> ('s, 'p) agg_state \<Rightarrow> (string + unit) \<times> ('s, 'p) agg_state" where
  "mark_submitted now sid cid tasks =
     (let tid = TaskId sid cid in
      case hm_get tasks tid of
        None \<Rightarrow> (Inl ''Task not found'', tasks)
      | Some t \<Rightarrow>
          (Inr (), hm_insert tid (t\<lparr>ts_submitted := True, ts_submitted_at := Some now\<rparr>) tasks))"

definition remove_task ::
  "u64 \<Rightarrow> u64 \<Rightarrow> ('s, 'p) agg_state \<Rightarrow> bool \<times> ('s, 'p) agg_state" where
  "remove_task sid cid tasks =
     (let tid = TaskId sid cid in (hm_get tasks tid \<noteq> None, hm_remove tid tasks))"

text \<open>\<open>Instant::elapsed\<close> saturates at zero.\<close>

definition elapsed :: "instant \<Rightarrow> instant \<Rightarrow> duration" where
  "elapsed now i = nat (now - i)"

definition retain_counting ::
  "(('s, 'p) task_state \<Rightarrow> bool) \<Rightarrow> ('s, 'p) agg_state \<Rightarrow> nat \<times> ('s, 'p) agg_state" where
  "retain_counting keep tasks =
     (let tasks' = hm_retain (\<lambda>_ t. keep t) tasks in (hm_len tasks - hm_len tasks', tasks'))"

definition cleanup_expired :: "instant \<Rightarrow> ('s, 'p) agg_state \<Rightarrow> nat \<times> ('s, 'p) agg_state" where
  "cleanup_expired now tasks = retain_counting (\<lambda>t. \<not> is_expired now t) tasks"

definition recently_submitted :: "instant \<Rightarrow> duration \<Rightarrow> ('s, 'p) task_state \<Rightarrow> bool" where
  "recently_submitted now retention t =
     (case ts_submitted_at t of None \<Rightarrow> False | Some at \<Rightarrow> elapsed now at < retention)"

definition cleanup_submitted_after ::
  "instant \<Rightarrow> duration \<Rightarrow> ('s, 'p) agg_state \<Rightarrow> nat \<times> ('s, 'p) agg_state" where
  "cleanup_submitted_after now retention tasks =
     retain_counting (\<lambda>t. \<not> ts_submitted t \<or> recently_submitted now retention t) tasks"

definition cleanup_submitted :: "instant \<Rightarrow> ('s, 'p) agg_state \<Rightarrow> nat \<times> ('s, 'p) agg_state" where
  "cleanup_submitted now tasks = cleanup_submitted_after now 0 tasks"

definition cleanup_with_submitted_retention ::
  "instant \<Rightarrow> duration \<Rightarrow> ('s, 'p) agg_state \<Rightarrow> nat \<times> ('s, 'p) agg_state" where
  "cleanup_with_submitted_retention now retention tasks =
     retain_counting
       (\<lambda>t. if ts_submitted t then recently_submitted now retention t else \<not> is_expired now t)
       tasks"

definition cleanup :: "instant \<Rightarrow> ('s, 'p) agg_state \<Rightarrow> nat \<times> ('s, 'p) agg_state" where
  "cleanup now tasks = cleanup_with_submitted_retention now 0 tasks"

definition task_count :: "('s, 'p) agg_state \<Rightarrow> nat" where
  "task_count tasks = hm_len tasks"

definition count_task :: "instant \<Rightarrow> ('s, 'p) task_state \<Rightarrow> task_counts \<Rightarrow> task_counts" where
  "count_task now t c =
     (let c = c\<lparr>n_total := n_total c + 1\<rparr> in
      if is_expired now t then c\<lparr>n_expired := n_expired c + 1\<rparr>
      else if ts_submitted t then c\<lparr>n_submitted := n_submitted c + 1\<rparr>
      else if threshold_met t then c\<lparr>n_ready := n_ready c + 1\<rparr>
      else c\<lparr>n_pending := n_pending c + 1\<rparr>)"

definition get_task_counts :: "instant \<Rightarrow> ('s, 'p) agg_state \<Rightarrow> task_counts" where
  "get_task_counts now tasks =
     fold (count_task now) (hm_values tasks)
       \<lparr>n_total = 0, n_pending = 0, n_ready = 0, n_submitted = 0, n_expired = 0\<rparr>"

section \<open>Operator indices and the signer bitmap\<close>

lemma has_signed_bit: "has_signed i t \<longleftrightarrow> bit (ts_signer_bitmap t) (unat i)"
  by (simp add: has_signed_def and_one_eq bit_iff_odd_drop_bit odd_iff_mod_2_eq_one)

lemma unat_of_nat_u32: "k < unat (n :: u32) \<Longrightarrow> unat (of_nat k :: u32) = k"
proof -
  assume k: "k < unat n"
  have "unat n < 2 ^ LENGTH(32)" by (rule unsigned_less)
  with k show ?thesis by (simp add: unat_of_nat)
qed

lemma set_operator_range [simp]: "set (operator_range n) = {i. i < n}"
proof -
  have "i \<in> of_nat ` {0..<unat n}" if "i < n" for i
    using that by (intro image_eqI [of _ _ "unat i"]) (auto simp: word_less_nat_alt)
  then show ?thesis
    by (auto simp: operator_range_def word_less_nat_alt unat_of_nat_u32)
qed

lemma sorted_operator_range: "sorted_wrt (<) (operator_range n)"
proof -
  have "of_nat j < (of_nat k :: u32)" if "j < k" "k < unat n" for j k
    using that unat_of_nat_u32 [of j n] unat_of_nat_u32 [of k n]
    by (simp add: word_less_nat_alt)
  then show ?thesis
    unfolding operator_range_def sorted_wrt_map
    by (intro sorted_wrt_mono_rel [OF _ sorted_wrt_upt]) simp
qed

lemma distinct_operator_range [simp]: "distinct (operator_range n)"
  using sorted_operator_range [of n] by (simp add: strict_sorted_iff)

lemma length_operator_range [simp]: "length (operator_range n) = unat n"
  by (simp add: operator_range_def)

section \<open>The invariant of a task\<close>

definition task_inv :: "('s, 'p) task_state \<Rightarrow> bool" where
  "task_inv t \<longleftrightarrow>
     hm_wf (ts_signatures t)
     \<and> hm_keys (ts_public_keys t) = hm_keys (ts_signatures t)
     \<and> (\<forall>i \<in> set (hm_keys (ts_signatures t)). i < ts_operator_count t)
     \<and> hm_wf (ts_operator_stakes t)
     \<and> ts_total_stake t = sum_list (hm_values (ts_operator_stakes t))
     \<and> (\<forall>k < 256. bit (ts_signer_bitmap t) k
                 \<longleftrightarrow> k \<in> unat ` set (hm_keys (ts_signatures t)))"

definition agg_inv :: "('s, 'p) agg_state \<Rightarrow> bool" where
  "agg_inv tasks \<longleftrightarrow>
     hm_wf tasks
     \<and> (\<forall>tid t. hm_get tasks tid = Some t \<longrightarrow>
          task_inv t \<and> tid = TaskId (ts_service_id t) (ts_call_id t))"

lemma task_invD:
  assumes "task_inv t"
  shows "hm_wf (ts_signatures t)" "hm_wf (ts_public_keys t)"
    "hm_keys (ts_public_keys t) = hm_keys (ts_signatures t)"
    "\<And>i. i \<in> set (hm_keys (ts_signatures t)) \<Longrightarrow> i < ts_operator_count t"
    "hm_wf (ts_operator_stakes t)"
    "ts_total_stake t = sum_list (hm_values (ts_operator_stakes t))"
    "\<And>i. unat i < 256 \<Longrightarrow> has_signed i t \<longleftrightarrow> i \<in> set (hm_keys (ts_signatures t))"
  using assms by (auto simp: task_inv_def hm_wf_def has_signed_bit inj_image_mem_iff
      inj_def word_unat_eq_iff)

lemma agg_invD:
  assumes "agg_inv tasks" and "hm_get tasks tid = Some t"
  shows "task_inv t" "tid = TaskId (ts_service_id t) (ts_call_id t)"
  using assms by (auto simp: agg_inv_def)

lemma agg_inv_wf: "agg_inv tasks \<Longrightarrow> hm_wf tasks"
  by (simp add: agg_inv_def)

text \<open>Only these fields matter to the invariant.\<close>

lemma task_inv_times [simp]:
  "task_inv (t\<lparr>ts_submitted := b, ts_submitted_at := s\<rparr>) = task_inv t"
  "task_inv (t\<lparr>ts_submitted := b, ts_submitted_at := s, ts_created_at := c,
      ts_expires_at := e\<rparr>) = task_inv t"
  by (simp_all add: task_inv_def)

lemma sum_list_ones: "(\<Sum>i\<leftarrow>xs. (1 :: u64)) = of_nat (length xs)"
  by (induction xs) simp_all

lemma with_message_config_inv:
  assumes "\<And>st. stakes = Some st \<Longrightarrow> hm_wf st"
  shows "task_inv (with_message_config now sid cid out msg sch n th stakes ttl)"
proof (cases stakes)
  case None
  have "(ucast n :: u64) = of_nat (unat n)"
    by simp
  then show ?thesis
    using None by (simp add: task_inv_def with_message_config_def Let_def hm_wf_def comp_def
        sum_list_ones)
next
  case (Some st)
  with assms show ?thesis
    by (simp add: task_inv_def with_message_config_def Let_def)
qed

lemma with_message_config_sel [simp]:
  "ts_service_id (with_message_config now sid cid out msg sch n th stakes ttl) = sid"
  "ts_call_id (with_message_config now sid cid out msg sch n th stakes ttl) = cid"
  "ts_output (with_message_config now sid cid out msg sch n th stakes ttl) = out"
  "ts_message (with_message_config now sid cid out msg sch n th stakes ttl) = msg"
  "ts_signature_scheme (with_message_config now sid cid out msg sch n th stakes ttl) = sch"
  "ts_operator_count (with_message_config now sid cid out msg sch n th stakes ttl) = n"
  "ts_threshold_type (with_message_config now sid cid out msg sch n th stakes ttl) = th"
  "ts_signer_bitmap (with_message_config now sid cid out msg sch n th stakes ttl) = 0"
  "ts_signatures (with_message_config now sid cid out msg sch n th stakes ttl) = []"
  "ts_public_keys (with_message_config now sid cid out msg sch n th stakes ttl) = []"
  "ts_submitted (with_message_config now sid cid out msg sch n th stakes ttl) = False"
  "ts_expires_at (with_message_config now sid cid out msg sch n th stakes ttl) =
     map_option (\<lambda>d. now + int d) ttl"
  by (simp_all add: with_message_config_def Let_def split: prod.splits option.splits)

lemma with_message_config_stakes [simp]:
  "ts_operator_stakes (with_message_config now sid cid out msg sch n th (Some st) ttl) = st"
  "ts_total_stake (with_message_config now sid cid out msg sch n th (Some st) ttl) =
     sum_list (hm_values st)"
  by (simp_all add: with_message_config_def)

section \<open>Adding a signature\<close>

text \<open>The effect of an accepted signature.\<close>

definition put_signature :: "u32 \<Rightarrow> 's \<Rightarrow> 'p \<Rightarrow> ('s, 'p) task_state \<Rightarrow> ('s, 'p) task_state" where
  "put_signature i sig pk t =
     t\<lparr>ts_signer_bitmap := ts_signer_bitmap t OR push_bit (unat i) 1,
       ts_signatures := hm_insert i sig (ts_signatures t),
       ts_public_keys := hm_insert i pk (ts_public_keys t)\<rparr>"

lemma put_signature_sel [simp]:
  "ts_service_id (put_signature i sig pk t) = ts_service_id t"
  "ts_call_id (put_signature i sig pk t) = ts_call_id t"
  "ts_output (put_signature i sig pk t) = ts_output t"
  "ts_message (put_signature i sig pk t) = ts_message t"
  "ts_signature_scheme (put_signature i sig pk t) = ts_signature_scheme t"
  "ts_operator_count (put_signature i sig pk t) = ts_operator_count t"
  "ts_threshold_type (put_signature i sig pk t) = ts_threshold_type t"
  "ts_signatures (put_signature i sig pk t) = hm_insert i sig (ts_signatures t)"
  "ts_public_keys (put_signature i sig pk t) = hm_insert i pk (ts_public_keys t)"
  "ts_operator_stakes (put_signature i sig pk t) = ts_operator_stakes t"
  "ts_total_stake (put_signature i sig pk t) = ts_total_stake t"
  "ts_submitted (put_signature i sig pk t) = ts_submitted t"
  "ts_expires_at (put_signature i sig pk t) = ts_expires_at t"
  "is_expired now (put_signature i sig pk t) = is_expired now t"
  by (simp_all add: put_signature_def is_expired_def)

lemma add_signature_Inr_iff:
  "add_signature now i sig pk t = Inr t' \<longleftrightarrow>
     i < ts_operator_count t \<and> \<not> has_signed i t \<and> \<not> is_expired now t
     \<and> t' = put_signature i sig pk t"
  by (auto simp: add_signature_def put_signature_def)

lemma bit_push_one: "k < 256 \<Longrightarrow> bit (push_bit n 1 :: u256) k \<longleftrightarrow> k = n"
  by (auto simp: bit_exp_iff)

lemma bit_put_signature:
  "k < 256 \<Longrightarrow> bit (ts_signer_bitmap (put_signature i sig pk t)) k \<longleftrightarrow>
     bit (ts_signer_bitmap t) k \<or> k = unat i"
  by (simp add: put_signature_def bit_or_iff bit_exp_iff)

lemma has_signed_put_signature:
  "has_signed j (put_signature i sig pk t) \<longleftrightarrow> has_signed j t \<or> j = i \<and> unat i < 256"
proof (cases "unat j < 256")
  case True
  then show ?thesis
    by (auto simp: has_signed_bit bit_put_signature word_unat_eq_iff)
next
  case False
  then show ?thesis
    using bit_imp_le_length [of _ "unat j"] by (fastforce simp: has_signed_bit)
qed

lemma put_signature_inv:
  assumes inv: "task_inv t" and i: "i < ts_operator_count t"
  shows "task_inv (put_signature i sig pk t)"
proof -
  have same: "hm_keys (hm_insert i pk (ts_public_keys t)) = hm_keys (hm_insert i sig (ts_signatures t))"
    using task_invD(3) [OF inv] hm_keys_iff [of i "ts_public_keys t"] hm_keys_iff [of i "ts_signatures t"]
    by (auto simp: hm_keys_insert)
  show ?thesis
    using inv i same by (auto simp: task_inv_def bit_put_signature)
qed

lemma add_signature_inv:
  "task_inv t \<Longrightarrow> add_signature now i sig pk t = Inr t' \<Longrightarrow> task_inv t'"
  by (auto simp: add_signature_Inr_iff put_signature_inv)

section \<open>Steps of the manager\<close>

lemma agg_inv_Nil [simp]: "agg_inv []"
  by (simp add: agg_inv_def)

lemma agg_inv_insert:
  assumes "agg_inv tasks" and "task_inv t" and "tid = TaskId (ts_service_id t) (ts_call_id t)"
  shows "agg_inv (hm_insert tid t tasks)"
  using assms by (auto simp: agg_inv_def)

lemma agg_inv_remove: "agg_inv tasks \<Longrightarrow> agg_inv (hm_remove tid tasks)"
  by (auto simp: agg_inv_def split: if_splits)

lemma agg_inv_retain: "agg_inv tasks \<Longrightarrow> agg_inv (hm_retain p tasks)"
  by (auto simp: agg_inv_def hm_get_retain split: option.splits if_splits)

lemmas agg_op_defs = init_task_with_message_config_def submit_signature_def mark_submitted_def
  remove_task_def cleanup_expired_def cleanup_submitted_after_def
  cleanup_with_submitted_retention_def retain_counting_def Let_def

inductive agg_step :: "('s, 'p) agg_state \<Rightarrow> ('s, 'p) agg_state \<Rightarrow> bool" where
  init: "(\<And>st. tc_operator_stakes config = Some st \<Longrightarrow> hm_wf st) \<Longrightarrow>
     agg_step s (snd (init_task_with_message_config now sid cid out msg sch n config s))"
| submit: "agg_step s (snd (submit_signature now now' sid cid i sig pk s))"
| mark: "agg_step s (snd (mark_submitted now sid cid s))"
| remove: "agg_step s (snd (remove_task sid cid s))"
| expire: "agg_step s (snd (cleanup_expired now s))"
| sweep: "agg_step s (snd (cleanup_submitted_after now retention s))"
| sweep_all: "agg_step s (snd (cleanup_with_submitted_retention now retention s))"

inductive agg_reachable :: "('s, 'p) agg_state \<Rightarrow> bool" where
  start: "agg_reachable []"
| step: "agg_reachable s \<Longrightarrow> agg_step s s' \<Longrightarrow> agg_reachable s'"

lemma init_inv:
  assumes "agg_inv s" and "\<And>st. tc_operator_stakes config = Some st \<Longrightarrow> hm_wf st"
  shows "agg_inv (snd (init_task_with_message_config now sid cid out msg sch n config s))"
  using assms
  by (auto simp: agg_op_defs intro!: agg_inv_insert with_message_config_inv split: option.splits)

lemma submit_Inr_iff:
  "submit_signature now now' sid cid i sig pk s = (Inr r, s') \<longleftrightarrow>
     (\<exists>t. hm_get s (TaskId sid cid) = Some t \<and> \<not> ts_submitted t \<and> \<not> is_expired now t
        \<and> \<not> is_expired now' t \<and> i < ts_operator_count t \<and> \<not> has_signed i t
        \<and> r = (signature_count (put_signature i sig pk t), threshold_met (put_signature i sig pk t))
        \<and> s' = hm_insert (TaskId sid cid) (put_signature i sig pk t) s)"
proof (cases "hm_get s (TaskId sid cid)")
  case None
  then show ?thesis by (simp add: submit_signature_def)
next
  case (Some t)
  then show ?thesis
    by (cases "add_signature now' i sig pk t")
      (auto simp: submit_signature_def add_signature_def put_signature_def split: if_splits)
qed

lemma submit_Inl:
  "submit_signature now now' sid cid i sig pk s = (Inl e, s') \<Longrightarrow> s' = s"
  by (auto simp: submit_signature_def Let_def split: option.splits sum.splits if_splits)

lemma submit_cases:
  obtains (rejected) e where "submit_signature now now' sid cid i sig pk s = (Inl e, s)"
  | (accepted) t where "hm_get s (TaskId sid cid) = Some t" "\<not> ts_submitted t"
      "i < ts_operator_count t" "\<not> has_signed i t"
      "snd (submit_signature now now' sid cid i sig pk s) =
         hm_insert (TaskId sid cid) (put_signature i sig pk t) s"
proof (cases "submit_signature now now' sid cid i sig pk s")
  case (Pair r s')
  show thesis
  proof (cases r)
    case (Inl e)
    with Pair submit_Inl show thesis by (metis rejected)
  next
    case (Inr a)
    with Pair have "submit_signature now now' sid cid i sig pk s = (Inr a, s')" by simp
    then show thesis
      unfolding submit_Inr_iff using Pair by (auto intro: accepted)
  qed
qed

lemma submit_inv:
  assumes "agg_inv s"
  shows "agg_inv (snd (submit_signature now now' sid cid i sig pk s))"
proof (cases rule: submit_cases [of now now' sid cid i sig pk s])
  case (accepted t)
  with agg_invD [OF assms, of "TaskId sid cid" t] assms show ?thesis
    by (simp add: agg_inv_insert put_signature_inv)
qed (use assms in simp)

lemma mark_inv:
  assumes "agg_inv s"
  shows "agg_inv (snd (mark_submitted now sid cid s))"
proof (cases "hm_get s (TaskId sid cid)")
  case None
  with assms show ?thesis by (simp add: mark_submitted_def)
next
  case (Some t)
  with agg_invD [OF assms Some] assms show ?thesis
    by (simp add: mark_submitted_def agg_inv_insert)
qed

lemma agg_step_inv: "agg_step s s' \<Longrightarrow> agg_inv s \<Longrightarrow> agg_inv s'"
proof (induction rule: agg_step.induct)
  case init
  then show ?case by (blast intro: init_inv)
next
  case submit
  then show ?case by (rule submit_inv)
next
  case mark
  then show ?case by (rule mark_inv)
qed (simp_all add: agg_op_defs agg_inv_remove agg_inv_retain)

lemma agg_reachable_agg_inv: "agg_reachable s \<Longrightarrow> agg_inv s"
  by (induction rule: agg_reachable.induct) (auto intro: agg_step_inv)

text \<open>A step never changes the context of a task that it keeps, and never drops or replaces the
  signature of an operator whose bit is set.\<close>

definition task_grows :: "('s, 'p) task_state \<Rightarrow> ('s, 'p) task_state \<Rightarrow> bool" where
  "task_grows t t' \<longleftrightarrow>
     ts_output t' = ts_output t \<and> ts_message t' = ts_message t
     \<and> ts_signature_scheme t' = ts_signature_scheme t
     \<and> ts_operator_count t' = ts_operator_count t
     \<and> ts_threshold_type t' = ts_threshold_type t
     \<and> ts_operator_stakes t' = ts_operator_stakes t
     \<and> ts_expires_at t' = ts_expires_at t
     \<and> (ts_submitted t \<longrightarrow> ts_submitted t' \<and> ts_signatures t' = ts_signatures t)
     \<and> (\<forall>i. has_signed i t \<longrightarrow>
          has_signed i t'
          \<and> hm_get (ts_signatures t') i = hm_get (ts_signatures t) i
          \<and> hm_get (ts_public_keys t') i = hm_get (ts_public_keys t) i)"

lemma task_grows_refl [simp]: "task_grows t t"
  by (simp add: task_grows_def)

lemma task_grows_put:
  "\<not> has_signed i t \<Longrightarrow> \<not> ts_submitted t \<Longrightarrow> task_grows t (put_signature i sig pk t)"
  by (auto simp: task_grows_def has_signed_put_signature)

lemma task_grows_mark [simp]:
  "task_grows t (t\<lparr>ts_submitted := True, ts_submitted_at := a\<rparr>)"
  by (simp add: task_grows_def has_signed_def)

lemma agg_step_grows:
  assumes "agg_step s s'" and "hm_wf s" and "hm_get s tid = Some t" and "hm_get s' tid = Some t'"
  shows "task_grows t t'"
  using assms
proof (induction rule: agg_step.induct)
  case (submit s now now' sid cid i sig pk)
  show ?case
  proof (cases rule: submit_cases [of now now' sid cid i sig pk s])
    case (accepted u)
    with submit.prems show ?thesis
      by (auto simp: task_grows_put split: if_splits)
  qed (use submit.prems in simp)
qed (auto simp: agg_op_defs hm_get_retain split: option.splits if_splits)

section \<open>Signers in ascending order\<close>

lemma sort_hm_keys: "hm_wf m \<Longrightarrow> sort (hm_keys m) = sorted_list_of_set (dom (hm_get m))"
  by (metis dom_map_of_conv_image_fst hm_wf_def list.set_map sorted_list_of_set_sort_remdups
      distinct_remdups_id)

lemma collect_signatures_map:
  assumes "\<forall>i \<in> set is. hm_get sigs i \<noteq> None \<and> hm_get pks i \<noteq> None"
  shows "map Some (fst (collect_signatures sigs pks is)) = map (hm_get sigs) is"
    and "map Some (snd (collect_signatures sigs pks is)) = map (hm_get pks) is"
  using assms by (induction "is") (auto split: prod.splits option.splits)

lemma collect_signatures_cong:
  "hm_get sigs = hm_get sigs' \<Longrightarrow> hm_get pks = hm_get pks' \<Longrightarrow>
     collect_signatures sigs pks is = collect_signatures sigs' pks' is"
  by (induction "is") (auto split: prod.splits)

lemma get_signers_inv:
  assumes "task_inv t"
  shows "sorted_wrt (<) (get_signers t)" and "set (get_signers t) = dom (hm_get (ts_signatures t))"
    and "length (get_signers t) = signature_count t"
  using task_invD(1) [OF assms]
  by (simp_all add: get_signers_def hm_wf_def strict_sorted_iff dom_map_of_conv_image_fst
      signature_count_def)

lemma get_signatures_for_aggregation_inv:
  assumes "task_inv t"
  shows "map Some (fst (get_signatures_for_aggregation t)) = map (hm_get (ts_signatures t)) (get_signers t)"
    and "map Some (snd (get_signatures_for_aggregation t)) = map (hm_get (ts_public_keys t)) (get_signers t)"
proof -
  have "hm_get (ts_signatures t) i \<noteq> None \<and> hm_get (ts_public_keys t) i \<noteq> None"
    if "i \<in> set (get_signers t)" for i
    using that get_signers_inv(2) [OF assms] task_invD(3) [OF assms]
    by (metis domIff hm_keys_iff)
  then show "map Some (fst (get_signatures_for_aggregation t)) = map (hm_get (ts_signatures t)) (get_signers t)"
    and "map Some (snd (get_signatures_for_aggregation t)) = map (hm_get (ts_public_keys t)) (get_signers t)"
    unfolding get_signatures_for_aggregation_def by (simp_all add: collect_signatures_map)
qed

end
