(* ===== verification/Agg_State_Correct.thy ===== *)
theory Agg_State_Correct
  imports Agg_State "HOL-Library.Multiset"
begin

unbundle bit_operations_syntax

text \<open>
  Correctness of the aggregation state: what a reachable task map guarantees about the result
  handed to the chain, when the stake-weighted threshold is exact, that the order of
  submissions is irrelevant, that initialisation is idempotent, and what cleanup removes. Two
  properties delimit the code: operator indices from 256 on and stakes whose product with
  10000 leaves 64 bits.
\<close>

section \<open>Stakes\<close>

definition stake_of :: "('s, 'p) task_state \<Rightarrow> u32 \<Rightarrow> nat" where
  "stake_of t i = (case hm_get (ts_operator_stakes t) i of None \<Rightarrow> 0 | Some s \<Rightarrow> unat s)"

definition all_stake :: "('s, 'p) task_state \<Rightarrow> nat" where
  "all_stake t = (\<Sum>s\<leftarrow>hm_values (ts_operator_stakes t). unat s)"

definition signer_stake :: "('s, 'p) task_state \<Rightarrow> nat" where
  "signer_stake t = (\<Sum>i\<in>dom (hm_get (ts_signatures t)). stake_of t i)"

lemma all_stake_sum:
  "hm_wf (ts_operator_stakes t) \<Longrightarrow>
     all_stake t = (\<Sum>i\<in>dom (hm_get (ts_operator_stakes t)). stake_of t i)"
  unfolding all_stake_def by (subst hm_sum_values) (auto simp: stake_of_def intro!: sum.cong)

lemma signer_stake_le:
  assumes "task_inv t"
  shows "signer_stake t \<le> all_stake t"
proof -
  let ?S = "dom (hm_get (ts_signatures t))" and ?A = "dom (hm_get (ts_operator_stakes t))"
  have fin: "finite ?S" "finite ?A" by (simp_all add: finite_dom_map_of)
  have "signer_stake t = (\<Sum>i\<in>?S \<inter> ?A. stake_of t i)"
    unfolding signer_stake_def using fin
    by (intro sum.mono_neutral_right) (auto simp: stake_of_def split: option.splits)
  also have "\<dots> \<le> (\<Sum>i\<in>?A. stake_of t i)"
    using fin by (intro sum_mono2) auto
  also have "\<dots> = all_stake t"
    using task_invD(5) [OF assms] by (simp add: all_stake_sum)
  finally show ?thesis .
qed

lemma unat_signed_stake:
  assumes inv: "task_inv t" and fits: "all_stake t < 2 ^ 64"
  shows "unat (signed_stake t) = signer_stake t"
proof -
  let ?w = "\<lambda>i. case hm_get (ts_operator_stakes t) i of None \<Rightarrow> 0 | Some s \<Rightarrow> s"
  have st: "unat (?w i) = stake_of t i" for i
    by (simp add: stake_of_def split: option.splits)
  have "(\<Sum>x\<leftarrow>map ?w (hm_keys (ts_signatures t)). unat x)
      = (\<Sum>i\<leftarrow>hm_keys (ts_signatures t). stake_of t i)"
    by (simp add: comp_def st)
  also have "\<dots> = signer_stake t"
    unfolding signer_stake_def using task_invD(1) [OF inv] by (rule hm_sum_keys)
  finally have sum: "(\<Sum>x\<leftarrow>map ?w (hm_keys (ts_signatures t)). unat x) = signer_stake t" .
  with signer_stake_le [OF inv] fits show ?thesis
    unfolding signed_stake_def by (subst unat_sum_list_exact) simp_all
qed

lemma unat_total_stake:
  assumes "task_inv t" and "all_stake t < 2 ^ 64"
  shows "unat (ts_total_stake t) = all_stake t"
  using assms task_invD(6) [OF assms(1)] by (simp add: all_stake_def unat_sum_list_exact)

lemma unat_signed_stake_bps:
  assumes inv: "task_inv t" and fits: "all_stake t * 10000 < 2 ^ 64" and pos: "0 < all_stake t"
  shows "unat (signed_stake_bps t) = signer_stake t * 10000 div all_stake t"
proof -
  have fits': "all_stake t < 2 ^ 64" using fits by simp
  have le: "signer_stake t * 10000 \<le> all_stake t * 10000"
    using signer_stake_le [OF inv] by simp
  have prod: "unat (signed_stake t * 10000) = signer_stake t * 10000"
    using le fits by (simp add: unat_word_ariths unat_signed_stake [OF inv fits'])
  have "signer_stake t * 10000 div all_stake t \<le> all_stake t * 10000 div all_stake t"
    using le by (rule div_le_mono)
  also have "\<dots> = 10000" using pos by simp
  finally have small: "signer_stake t * 10000 div all_stake t < 2 ^ 32" by simp
  have "ts_total_stake t \<noteq> 0"
    using pos unat_total_stake [OF inv fits'] by auto
  then show ?thesis
    using small by (simp add: signed_stake_bps_def unsigned_ucast_eq unat_div prod
        unat_total_stake [OF inv fits'] take_bit_nat_eq_self)
qed

section \<open>Results handed out for aggregation\<close>

lemma get_for_aggregation_Some:
  assumes "get_for_aggregation now sid cid tasks = Some r"
  obtains t where "hm_get tasks (TaskId sid cid) = Some t" "threshold_met t"
    "\<not> ts_submitted t" "\<not> is_expired now t"
    "ta_output r = ts_output t" "ta_signer_bitmap r = ts_signer_bitmap t"
    "ta_non_signer_indices r = get_non_signers t"
    "ta_signatures r = fst (get_signatures_for_aggregation t)"
    "ta_public_keys r = snd (get_signatures_for_aggregation t)"
  using assms
  by (auto simp: get_for_aggregation_def split: option.splits if_splits prod.splits)

lemma non_signers_inv:
  assumes "task_inv t" and "unat (ts_operator_count t) \<le> 256"
  shows "get_non_signers t =
    filter (\<lambda>i. i \<notin> dom (hm_get (ts_signatures t))) (operator_range (ts_operator_count t))"
  unfolding get_non_signers_def
proof (rule filter_cong [OF refl])
  fix i assume "i \<in> set (operator_range (ts_operator_count t))"
  then have "unat i < 256" using assms(2) by (simp add: word_less_nat_alt)
  then show "(\<not> has_signed i t) = (i \<notin> dom (hm_get (ts_signatures t)))"
    using task_invD(7) [OF assms(1)] by (simp add: dom_map_of_conv_image_fst)
qed


text \<open>
  C8: as long as 10000 times the total stake fits in 64 bits, the stake-weighted test is exact:
  it holds precisely when the operators that signed own at least the required share of the
  total stake, with no rounding in either direction.
\<close>

theorem stake_threshold_exact:
  assumes reach: "agg_reachable tasks" and t: "hm_get tasks tid = Some t"
    and th: "ts_threshold_type t = StakeWeighted bps"
    and fits: "all_stake t * 10000 < 2 ^ 64" and pos: "0 < all_stake t"
  shows "threshold_met t \<longleftrightarrow> unat bps * all_stake t \<le> 10000 * signer_stake t"
proof -
  have inv: "task_inv t"
    using agg_invD(1) [OF agg_reachable_agg_inv [OF reach] t] .
  have "threshold_met t \<longleftrightarrow> unat bps \<le> signer_stake t * 10000 div all_stake t"
    using th by (simp add: threshold_met_def word_le_nat_alt unat_signed_stake_bps [OF inv fits pos])
  also have "\<dots> \<longleftrightarrow> unat bps * all_stake t \<le> signer_stake t * 10000"
    using pos by (simp add: less_eq_div_iff_mult_less_eq)
  finally show ?thesis by (simp add: mult.commute)
qed

section \<open>Signatures stay\<close>



text \<open>
  From index 256 on the bitmap cannot record a signer. The shift leaves the 256-bit word, so
  such an operator is never marked as having signed: its submissions are accepted again and
  again, each replacing the stored signature, and the bitmap given to the chain does not show
  it.
\<close>

theorem high_index_signs_repeatedly:
  assumes t: "hm_get s (TaskId sid cid) = Some t" and i: "256 \<le> unat i" "i < ts_operator_count t"
    and live: "\<not> ts_submitted t" "\<not> is_expired now t" "\<not> is_expired now' t"
  shows "\<exists>t' r. submit_signature now now' sid cid i sig pk s
        = (Inr r, hm_insert (TaskId sid cid) t' s)
      \<and> hm_get (ts_signatures t') i = Some sig
      \<and> ts_signer_bitmap t' = ts_signer_bitmap t \<and> i \<in> set (get_non_signers t')"
proof -
  have never: "\<not> has_signed i u" for u :: "('a, 'b) task_state"
    using i(1) bit_imp_le_length [of "ts_signer_bitmap u" "unat i"] by (auto simp: has_signed_bit)
  have bm: "ts_signer_bitmap (put_signature i sig pk t) = ts_signer_bitmap t"
    using i(1) by (auto intro!: bit_word_eqI simp: put_signature_def bit_simps)
  have "submit_signature now now' sid cid i sig pk s =
      (Inr (signature_count (put_signature i sig pk t), threshold_met (put_signature i sig pk t)),
       hm_insert (TaskId sid cid) (put_signature i sig pk t) s)"
    using assms never by (simp add: submit_Inr_iff)
  moreover have "i \<in> set (get_non_signers (put_signature i sig pk t))"
    using i(2) never by (simp add: get_non_signers_def)
  ultimately show ?thesis
    using bm by (intro exI [of _ "put_signature i sig pk t"] exI) simp
qed

section \<open>Order of submissions\<close>

text \<open>A sequence of submissions to one task, each with its own clock reading.\<close>

fun add_all ::
  "(instant \<times> u32 \<times> 's \<times> 'p) list \<Rightarrow> ('s, 'p) task_state \<Rightarrow> string + ('s, 'p) task_state" where
  "add_all [] t = Inr t"
| "add_all ((now, i, sig, pk) # subs) t = res_bind (add_signature now i sig pk t) (add_all subs)"

definition sub_index :: "instant \<times> u32 \<times> 's \<times> 'p \<Rightarrow> u32" where
  "sub_index sub = fst (snd sub)"

text \<open>Two tasks that differ at most in the order of their maps.\<close>

definition task_equiv :: "('s, 'p) task_state \<Rightarrow> ('s, 'p) task_state \<Rightarrow> bool" where
  "task_equiv t u \<longleftrightarrow>
     t\<lparr>ts_signatures := [], ts_public_keys := []\<rparr> = u\<lparr>ts_signatures := [], ts_public_keys := []\<rparr>
     \<and> hm_get (ts_signatures t) = hm_get (ts_signatures u)
     \<and> hm_get (ts_public_keys t) = hm_get (ts_public_keys u)"

lemma task_equiv_sel:
  assumes "task_equiv t u"
  shows "ts_service_id t = ts_service_id u" "ts_call_id t = ts_call_id u"
    "ts_output t = ts_output u" "ts_operator_count t = ts_operator_count u"
    "ts_threshold_type t = ts_threshold_type u" "ts_signer_bitmap t = ts_signer_bitmap u"
    "ts_operator_stakes t = ts_operator_stakes u" "ts_total_stake t = ts_total_stake u"
    "ts_submitted t = ts_submitted u" "ts_expires_at t = ts_expires_at u"
    "hm_get (ts_signatures t) = hm_get (ts_signatures u)"
    "hm_get (ts_public_keys t) = hm_get (ts_public_keys u)"
  using assms by (cases t, cases u, simp add: task_equiv_def)+

lemma task_equiv_refl [simp]: "task_equiv t t"
  by (simp add: task_equiv_def)

lemma task_equiv_trans: "task_equiv t u \<Longrightarrow> task_equiv u v \<Longrightarrow> task_equiv t v"
  by (simp add: task_equiv_def)

lemma task_equiv_put:
  "task_equiv t u \<Longrightarrow> task_equiv (put_signature i sig pk t) (put_signature i sig pk u)"
  by (cases t, cases u) (simp add: task_equiv_def put_signature_def)

lemma task_equiv_put_swap:
  "i \<noteq> j \<Longrightarrow> task_equiv (put_signature i sig pk (put_signature j sig' pk' t))
     (put_signature j sig' pk' (put_signature i sig pk t))"
  by (simp add: task_equiv_def put_signature_def fun_upd_twist or.assoc or.left_commute or.commute)

lemma add_all_equiv:
  "add_all subs t = Inr t' \<Longrightarrow> task_equiv t u \<Longrightarrow> \<exists>u'. add_all subs u = Inr u' \<and> task_equiv t' u'"
proof (induction subs t arbitrary: u rule: add_all.induct)
  case (2 now i sig pk subs t)
  from 2(2) have acc: "i < ts_operator_count t" "\<not> has_signed i t" "\<not> is_expired now t"
    and rest: "add_all subs (put_signature i sig pk t) = Inr t'"
    by (auto simp: res_bind_Inr_iff add_signature_Inr_iff)
  have "add_signature now i sig pk u = Inr (put_signature i sig pk u)"
    using acc task_equiv_sel [OF 2(3)]
    by (simp add: add_signature_Inr_iff has_signed_def is_expired_def)
  with 2(1) [OF rest task_equiv_put [OF 2(3)]] show ?case
    by simp
qed simp

lemma add_all_swap:
  assumes "add_all (a # b # subs) t = Inr t'" and "sub_index a \<noteq> sub_index b"
  shows "\<exists>u'. add_all (b # a # subs) t = Inr u' \<and> task_equiv t' u'"
proof -
  obtain now i sig pk where a: "a = (now, i, sig, pk)" by (cases a)
  obtain now' j sig' pk' where b: "b = (now', j, sig', pk')" by (cases b)
  have ij: "i \<noteq> j" using assms(2) a b by (simp add: sub_index_def)
  have acc: "i < ts_operator_count t" "\<not> has_signed i t" "\<not> is_expired now t"
    "j < ts_operator_count t" "\<not> has_signed j t" "\<not> is_expired now' t"
    and rest: "add_all subs (put_signature j sig' pk' (put_signature i sig pk t)) = Inr t'"
    using assms(1) a b ij
    by (auto simp: res_bind_Inr_iff add_signature_Inr_iff has_signed_put_signature)
  from add_all_equiv [OF rest task_equiv_put_swap [OF ij [symmetric]]]
  obtain u' where "add_all subs (put_signature i sig pk (put_signature j sig' pk' t)) = Inr u'"
    "task_equiv t' u'" by blast
  with acc ij a b show ?thesis
    by (auto simp: res_bind_Inr_iff add_signature_Inr_iff has_signed_put_signature)
qed

lemma add_all_Cons_equiv:
  assumes "\<And>t t'. add_all xs t = Inr t' \<Longrightarrow> \<exists>u'. add_all ys t = Inr u' \<and> task_equiv t' u'"
    and "add_all (a # xs) t = Inr t'"
  shows "\<exists>u'. add_all (a # ys) t = Inr u' \<and> task_equiv t' u'"
  using assms by (cases a) (auto simp: res_bind_Inr_iff)

text \<open>Moving one submission to the front.\<close>

lemma add_all_front:
  assumes "add_all (xs @ a # ys) t = Inr t'" and "sub_index a \<notin> sub_index ` set xs"
  shows "\<exists>u'. add_all (a # xs @ ys) t = Inr u' \<and> task_equiv t' u'"
  using assms
proof (induction xs arbitrary: t t')
  case (Cons b xs)
  have "\<exists>u'. add_all (b # a # xs @ ys) t = Inr u' \<and> task_equiv t' u'"
  proof (rule add_all_Cons_equiv [of "xs @ a # ys"])
    show "add_all (b # xs @ a # ys) t = Inr t'" using Cons.prems by simp
    show "\<exists>u'. add_all (a # xs @ ys) v = Inr u' \<and> task_equiv v' u'"
      if "add_all (xs @ a # ys) v = Inr v'" for v v'
      using Cons.IH [OF that] Cons.prems(2) by simp
  qed
  then obtain u' where u': "add_all (b # a # xs @ ys) t = Inr u'" "task_equiv t' u'" by blast
  have "sub_index b \<noteq> sub_index a" using Cons.prems(2) by auto
  from add_all_swap [OF u'(1) this] u'(2) show ?case
    by (auto intro: task_equiv_trans)
qed simp

lemma add_all_perm:
  assumes "add_all xs t = Inr t'" and "mset xs = mset ys" and "distinct (map sub_index xs)"
  shows "\<exists>u'. add_all ys t = Inr u' \<and> task_equiv t' u'"
  using assms
proof (induction ys arbitrary: xs t t')
  case Nil
  then show ?case by simp
next
  case (Cons a ys)
  then have "a \<in> set xs" by (metis list.set_intros(1) set_mset_mset)
  then obtain us vs where xs: "xs = us @ a # vs" by (meson split_list)
  have ms: "mset (us @ vs) = mset ys" using Cons.prems(2) xs by simp
  have dis: "sub_index a \<notin> sub_index ` set us" "distinct (map sub_index (us @ vs))"
    using Cons.prems(3) xs by auto
  from add_all_front [of us a vs t t'] Cons.prems(1) xs dis(1)
  obtain u where u: "add_all (a # us @ vs) t = Inr u" "task_equiv t' u" by auto
  obtain u' where "add_all (a # ys) t = Inr u'" "task_equiv u u'"
    using add_all_Cons_equiv [OF _ u(1), of ys] Cons.IH [OF _ ms dis(2)] by blast
  with u(2) show ?case by (auto intro: task_equiv_trans)
qed

lemma task_equiv_threshold:
  assumes eq: "task_equiv t u" and wf: "hm_wf (ts_signatures t)" "hm_wf (ts_signatures u)"
  shows "threshold_met t = threshold_met u"
    "get_signatures_for_aggregation t = get_signatures_for_aggregation u"
    "get_non_signers t = get_non_signers u"
proof -
  note sel = task_equiv_sel [OF eq]
  have cnt: "signature_count t = signature_count u"
    using wf sel(11) by (simp add: signature_count_def hm_len_card)
  have "signed_stake t = signed_stake u"
    unfolding signed_stake_def using wf sel(7,11) by (simp only: hm_sum_keys)
  then have "signed_stake_bps t = signed_stake_bps u"
    by (simp add: signed_stake_bps_def sel(8))
  with cnt show "threshold_met t = threshold_met u"
    by (simp add: threshold_met_def sel(5) split: threshold_type.split)
  have "get_signers t = get_signers u"
    unfolding get_signers_def using wf sel(11) by (simp only: sort_hm_keys)
  then show "get_signatures_for_aggregation t = get_signatures_for_aggregation u"
    unfolding get_signatures_for_aggregation_def
    using collect_signatures_cong [OF sel(11,12)] by simp
  show "get_non_signers t = get_non_signers u"
    by (simp add: get_non_signers_def has_signed_def sel(4,6))
qed

lemma add_all_inv: "add_all subs t = Inr t' \<Longrightarrow> task_inv t \<Longrightarrow> task_inv t'"
  by (induction subs t rule: add_all.induct) (auto simp: res_bind_Inr_iff intro: add_signature_inv)

text \<open>
  C14: the order in which distinct operators submit does not matter: if one order of the
  submissions is accepted then so is every other, and all of them end in the same bitmap, the
  same threshold verdict, the same non-signer list and the same lists of signatures and
  keys to aggregate.
\<close>

theorem submission_order_irrelevant:
  assumes "task_inv t" and "add_all xs t = Inr t'" and "mset xs = mset ys"
    and "distinct (map sub_index xs)"
  shows "\<exists>u'. add_all ys t = Inr u'
    \<and> ts_signer_bitmap u' = ts_signer_bitmap t' \<and> threshold_met u' = threshold_met t'
    \<and> get_non_signers u' = get_non_signers t'
    \<and> get_signatures_for_aggregation u' = get_signatures_for_aggregation t'"
proof -
  from add_all_perm [OF assms(2,3,4)] obtain u' where u': "add_all ys t = Inr u'" "task_equiv t' u'"
    by blast
  have "hm_wf (ts_signatures t')" "hm_wf (ts_signatures u')"
    using assms(1,2) u'(1) add_all_inv task_invD(1) by blast+
  with u' show ?thesis
    using task_equiv_threshold [OF u'(2)] task_equiv_sel(6) [OF u'(2)] by auto
qed

section \<open>Stakes beyond 64 bits\<close>

text \<open>Two operators with equal stakes \<open>w\<close>, a threshold of two thirds, both sign.\<close>

definition two_staked :: "u64 \<Rightarrow> (nat, nat) agg_state" where
  "two_staked w =
     snd (submit_signature 2 2 7 1 1 101 201
       (snd (submit_signature 1 1 7 1 0 100 200
         (snd (init_task_with_config 0 7 1 [1] 2
           \<lparr>tc_threshold_type = StakeWeighted 6667, tc_operator_stakes = Some [(0, w), (1, w)],
            tc_ttl = None\<rparr> [])))))"

text \<open>
  The share of signed stake is computed with a 64-bit product that wraps. With two
  operators that stake \<open>10 ^ 18\<close> each (one token of 18 decimals) and both signatures collected, the
  service computes 1 basis point instead of 10000, reports the two-thirds threshold as not met, and
  never hands the task out for aggregation; with a stake of \<open>10 ^ 14\<close> it works.
\<close>

theorem unanimous_stake_overflow:
  "map_option (\<lambda>t. (signature_count t, signed_stake_bps t, threshold_met t))
      (hm_get (two_staked (10 ^ 18)) (TaskId 7 1)) = Some (2, 1, False)
   \<and> get_for_aggregation now 7 1 (two_staked (10 ^ 18)) = None
   \<and> map_option (\<lambda>t. (signature_count t, signed_stake_bps t, threshold_met t))
      (hm_get (two_staked (10 ^ 14)) (TaskId 7 1)) = Some (2, 10000, True)"
proof (intro conjI)
  show big: "map_option (\<lambda>t. (signature_count t, signed_stake_bps t, threshold_met t))
      (hm_get (two_staked (10 ^ 18)) (TaskId 7 1)) = Some (2, 1, False)"
    by code_simp
  then show "get_for_aggregation now 7 1 (two_staked (10 ^ 18)) = None"
    by (auto simp: get_for_aggregation_def)
  show "map_option (\<lambda>t. (signature_count t, signed_stake_bps t, threshold_met t))
      (hm_get (two_staked (10 ^ 14)) (TaskId 7 1)) = Some (2, 10000, True)"
    by code_simp
qed

section \<open>Initialisation\<close>

text \<open>Two tasks with the same context: what an initialisation compares.\<close>

definition same_context :: "('s, 'p) task_state \<Rightarrow> ('s, 'p) task_state \<Rightarrow> bool" where
  "same_context t u \<longleftrightarrow> ts_output t = ts_output u \<and> ts_message t = ts_message u
     \<and> ts_signature_scheme t = ts_signature_scheme u
     \<and> ts_operator_count t = ts_operator_count u \<and> ts_threshold_type t = ts_threshold_type u
     \<and> hm_get (ts_operator_stakes t) = hm_get (ts_operator_stakes u)"

lemma with_message_config_context:
  "same_context (with_message_config now sid cid out msg sch n th stakes ttl)
     (with_message_config now' sid cid out msg sch n th stakes ttl')"
  by (simp add: same_context_def with_message_config_def Let_def split: option.splits)

lemma same_context_refl [simp]: "same_context t t"
  by (simp add: same_context_def)

lemma same_context_trans: "same_context t u \<Longrightarrow> same_context u v \<Longrightarrow> same_context t v"
  by (simp add: same_context_def)

lemma init_existing:
  assumes inv: "agg_inv s" and stakes: "\<And>st. tc_operator_stakes cfg = Some st \<Longrightarrow> hm_wf st"
    and t: "hm_get s (TaskId sid cid) = Some t"
  shows "init_task_with_message_config now sid cid out msg sch n cfg s =
    (if same_context t (with_message_config now sid cid out msg sch n (tc_threshold_type cfg)
          (tc_operator_stakes cfg) (tc_ttl cfg)) then Inr ()
     else Inl ''Task initialization conflicts with existing context'', s)"
proof -
  have "hm_wf (ts_operator_stakes t)"
    using task_invD(5) [OF agg_invD(1) [OF inv t]] .
  moreover have "hm_wf (ts_operator_stakes (with_message_config now sid cid out msg sch n
      (tc_threshold_type cfg) (tc_operator_stakes cfg) (tc_ttl cfg) :: ('a, 'b) task_state))"
    by (rule task_invD(5) [OF with_message_config_inv [OF stakes]])
  ultimately show ?thesis
    using t by (simp add: init_task_with_message_config_def same_context_def Let_def hm_eq_iff)
qed

text \<open>
  Initialisation is idempotent and never overwrites. In every reachable state, a call for an
  unknown id creates the task with the requested context, a call for a known id changes
  nothing and succeeds exactly when the context (output, message, scheme, operator count,
  threshold and stakes) is the same, and repeating a successful call at any other time and with
  any other time-to-live succeeds without a change.
\<close>

theorem init_idempotent:
  assumes "agg_reachable s" and "\<And>st. tc_operator_stakes cfg = Some st \<Longrightarrow> hm_wf st"
    and run: "init_task_with_message_config now sid cid out msg sch n cfg s = (res, s1)"
  shows "(case hm_get s (TaskId sid cid) of
      None \<Rightarrow> res = Inr () \<and> s1 = hm_insert (TaskId sid cid) (with_message_config now sid cid out msg
        sch n (tc_threshold_type cfg) (tc_operator_stakes cfg) (tc_ttl cfg)) s
    | Some t \<Rightarrow> s1 = s \<and> (res = Inr () \<longleftrightarrow> same_context t (with_message_config now sid cid out msg
        sch n (tc_threshold_type cfg) (tc_operator_stakes cfg) (tc_ttl cfg))))
    \<and> (res = Inr () \<longrightarrow> init_task_with_message_config now' sid cid out msg sch n
          (cfg\<lparr>tc_ttl := ttl'\<rparr>) s1 = (Inr (), s1))" (is "?first \<and> ?again")
proof -
  have inv: "agg_inv s" by (rule agg_reachable_agg_inv [OF assms(1)])
  have inv1: "agg_inv s1" using init_inv [OF inv assms(2)] run by (metis snd_conv)
  note again = init_existing [OF inv1, of "cfg\<lparr>tc_ttl := ttl'\<rparr>" sid cid _ now' out msg sch n]
  note ctx = with_message_config_context [of now sid cid out msg sch n "tc_threshold_type cfg"
      "tc_operator_stakes cfg" "tc_ttl cfg" now' ttl']
  show ?thesis
  proof (cases "hm_get s (TaskId sid cid)")
    case None
    then show ?thesis
      using run again ctx assms(2)
      by (auto simp: init_task_with_message_config_def Let_def hm_get_insert)
  next
    case (Some t)
    then show ?thesis
      using run init_existing [OF inv assms(2) Some] again [of t] ctx assms(2)
      by (auto dest: same_context_trans split: if_splits)
  qed
qed

section \<open>Clean-up\<close>

definition stale :: "instant \<Rightarrow> duration \<Rightarrow> ('s, 'p) task_state \<Rightarrow> bool" where
  "stale now retention t =
     (if ts_submitted t
      then (case ts_submitted_at t of None \<Rightarrow> True | Some at \<Rightarrow> at + int retention \<le> now)
      else is_expired now t)"

lemma recently_submitted_iff:
  "0 < retention \<Longrightarrow> recently_submitted now retention t \<longleftrightarrow>
     (\<exists>at. ts_submitted_at t = Some at \<and> now < at + int retention)"
  by (auto simp: recently_submitted_def elapsed_def split: option.splits)

lemma retain_counting_exact:
  assumes "hm_wf s" and "retain_counting keep s = (n, s')"
  shows "hm_get s' tid = (case hm_get s tid of None \<Rightarrow> None | Some t \<Rightarrow> if keep t then Some t else None)"
    and "n = card {tid. \<exists>t. hm_get s tid = Some t \<and> \<not> keep t}" and "hm_wf s'"
proof -
  have s': "s' = hm_retain (\<lambda>_ t. keep t) s" and n: "n = hm_len s - hm_len s'"
    using assms(2) by (auto simp: retain_counting_def Let_def)
  show "hm_get s' tid = (case hm_get s tid of None \<Rightarrow> None | Some t \<Rightarrow> if keep t then Some t else None)"
    using assms(1) s' by (simp add: hm_get_retain split: option.splits)
  show "hm_wf s'" using assms(1) s' by (simp add: hm_wf_retain)
  show "n = card {tid. \<exists>t. hm_get s tid = Some t \<and> \<not> keep t}"
    using hm.retain_removed [OF assms(1), of "\<lambda>_ t. keep t"] n s' by simp
qed

text \<open>
  C32: the periodic clean-up removes exactly the stale tasks (an unsubmitted task past its expiry,
  or a submitted one whose retention period is over), leaves every other task as it was, and the
  number it reports is the number of tasks removed.
\<close>

theorem cleanup_exact:
  assumes "agg_reachable s" and "0 < retention"
    and "cleanup_with_submitted_retention now retention s = (n, s')"
  shows "(\<forall>tid. hm_get s' tid =
        (case hm_get s tid of None \<Rightarrow> None | Some t \<Rightarrow> if stale now retention t then None else Some t))
      \<and> n = card {tid. \<exists>t. hm_get s tid = Some t \<and> stale now retention t}"
proof -
  let ?keep = "\<lambda>t. if ts_submitted t then recently_submitted now retention t else \<not> is_expired now t"
  have keep: "?keep t \<longleftrightarrow> \<not> stale now retention t" for t :: "('a, 'b) task_state"
    using recently_submitted_iff [OF assms(2), of now t]
    by (auto simp: stale_def not_le split: option.splits)
  have run: "retain_counting ?keep s = (n, s')"
    using assms(3) by (simp add: cleanup_with_submitted_retention_def)
  note ex = retain_counting_exact [OF agg_inv_wf [OF agg_reachable_agg_inv [OF assms(1)]] run]
  show ?thesis
    using ex(1,2) keep by (auto split: option.splits)
qed

section \<open>Statistics\<close>

lemma fold_count_task:
  "n_total (fold (count_task now) ts c) = n_total c + length ts"
  "n_expired (fold (count_task now) ts c) = n_expired c + length (filter (is_expired now) ts)"
  "n_submitted (fold (count_task now) ts c) =
     n_submitted c + length (filter (\<lambda>t. \<not> is_expired now t \<and> ts_submitted t) ts)"
  "n_ready (fold (count_task now) ts c) = n_ready c
     + length (filter (\<lambda>t. \<not> is_expired now t \<and> \<not> ts_submitted t \<and> threshold_met t) ts)"
  "n_pending (fold (count_task now) ts c) = n_pending c
     + length (filter (\<lambda>t. \<not> is_expired now t \<and> \<not> ts_submitted t \<and> \<not> threshold_met t) ts)"
  by (induction ts arbitrary: c) (simp_all add: count_task_def Let_def)

lemma get_for_aggregation_ready:
  "get_for_aggregation now sid cid s \<noteq> None \<longleftrightarrow>
     (\<exists>t. hm_get s (TaskId sid cid) = Some t
        \<and> \<not> is_expired now t \<and> \<not> ts_submitted t \<and> threshold_met t)"
  by (auto simp: get_for_aggregation_def split: option.splits prod.splits)

lemma length_filter_values:
  assumes "hm_wf m"
  shows "length (filter P (hm_values m)) = card {k. \<exists>v. hm_get m k = Some v \<and> P v}"
proof -
  have "length (filter P (hm_values m)) = length (filter (P \<circ> snd) m)"
    by (simp add: filter_map)
  also have "\<dots> = card (fst ` set (filter (P \<circ> snd) m))"
    using distinct_card [OF distinct_map_filter [of fst m "P \<circ> snd"]] assms
    by (simp add: hm_wf_def)
  also have "fst ` set (filter (P \<circ> snd) m) = {k. \<exists>v. hm_get m k = Some v \<and> P v}"
    using assms by (force simp: hm_in_set_iff image_iff)
  finally show ?thesis .
qed

text \<open>
  The statistics partition the tasks: every task is counted in exactly one of the four
  classes, and the number of ready tasks is exactly the number of task ids for which a result can
  be fetched for aggregation at that moment.
\<close>

theorem task_counts_partition:
  assumes "agg_reachable s"
  shows "let c = get_task_counts now s in
    n_total c = n_pending c + n_ready c + n_submitted c + n_expired c
    \<and> n_total c = task_count s
    \<and> n_ready c = card {tid. get_for_aggregation now (task_service_id tid) (task_call_id tid) s \<noteq> None}"
proof -
  have part: "length ts = length (filter (\<lambda>t. \<not> is_expired now t \<and> \<not> ts_submitted t \<and> \<not> threshold_met t) ts)
      + length (filter (\<lambda>t. \<not> is_expired now t \<and> \<not> ts_submitted t \<and> threshold_met t) ts)
      + length (filter (\<lambda>t. \<not> is_expired now t \<and> ts_submitted t) ts)
      + length (filter (is_expired now) ts)" for ts :: "('a, 'b) task_state list"
    by (induction ts) auto
  have wf: "hm_wf s" by (rule agg_inv_wf [OF agg_reachable_agg_inv [OF assms]])
  have ready: "length (filter (\<lambda>t. \<not> is_expired now t \<and> \<not> ts_submitted t \<and> threshold_met t)
      (hm_values s))
      = card {tid. get_for_aggregation now (task_service_id tid) (task_call_id tid) s \<noteq> None}"
    unfolding length_filter_values [OF wf] get_for_aggregation_ready task_id.collapse ..
  show ?thesis
    using part [of "hm_values s"] ready
    by (simp add: get_task_counts_def fold_count_task task_count_def Let_def)
qed

section \<open>A concrete run\<close>

text \<open>Three operators with stakes 30, 50 and 20 and a threshold of half the stake; operator 1
  signs, and its stake is just enough.\<close>

definition demo_config :: task_config where
  "demo_config = \<lparr>tc_threshold_type = StakeWeighted 5000,
     tc_operator_stakes = Some [(0, 30), (1, 50), (2, 20)], tc_ttl = Some 100\<rparr>"

definition demo_init :: "(nat, nat) agg_state" where
  "demo_init = snd (init_task_with_message_config 0 7 1 [1, 2] [3] TangleKeccak256 3 demo_config [])"

definition demo_signed :: "(nat, nat) agg_state" where
  "demo_signed = snd (submit_signature 10 11 7 1 1 101 201 demo_init)"

definition demo_task :: "(nat, nat) task_state" where
  "demo_task = \<lparr>ts_service_id = 7, ts_call_id = 1, ts_output = [1, 2], ts_message = [3],
     ts_signature_scheme = TangleKeccak256, ts_operator_count = 3,
     ts_threshold_type = StakeWeighted 5000, ts_signer_bitmap = 2, ts_signatures = [(1, 101)],
     ts_public_keys = [(1, 201)], ts_operator_stakes = [(0, 30), (1, 50), (2, 20)],
     ts_total_stake = 100, ts_submitted = False, ts_submitted_at = None, ts_created_at = 0,
     ts_expires_at = Some 100\<rparr>"

definition demo_result :: "(nat, nat) task_for_aggregation" where
  "demo_result = \<lparr>ta_service_id = 7, ta_call_id = 1, ta_output = [1, 2], ta_signer_bitmap = 2,
     ta_non_signer_indices = [0, 2], ta_signatures = [101], ta_public_keys = [201]\<rparr>"

lemma demo_reachable: "agg_reachable demo_init" "agg_reachable demo_signed"
proof -
  show init: "agg_reachable demo_init"
    unfolding demo_init_def
    by (rule agg_reachable.step [OF agg_reachable.start agg_step.init])
      (auto simp: demo_config_def hm_wf_def)
  show "agg_reachable demo_signed"
    unfolding demo_signed_def by (rule agg_reachable.step [OF init agg_step.submit])
qed

lemma demo_signed_task: "demo_signed = [(TaskId 7 1, demo_task)]"
  by code_simp

lemma demo_result_eq: "get_for_aggregation 20 7 1 demo_signed = Some demo_result"
  by code_simp


theorem stake_threshold_exact_witness:
  "all_stake demo_task * 10000 < 2 ^ 64 \<and> threshold_met demo_task
   \<and> 5000 * all_stake demo_task \<le> 10000 * signer_stake demo_task"
proof -
  have "hm_get demo_signed (TaskId 7 1) = Some demo_task" "threshold_met demo_task"
    "ts_threshold_type demo_task = StakeWeighted 5000" "all_stake demo_task = 100"
    by code_simp+
  with stake_threshold_exact [OF demo_reachable(2)] show ?thesis by fastforce
qed



definition wide_task :: "(nat, nat) agg_state" where
  "wide_task = snd (init_task 0 7 1 [1] 300 1 [])"

theorem high_index_signs_repeatedly_witness:
  "\<exists>t' r. submit_signature 10 11 7 1 260 (101 :: nat) (201 :: nat) wide_task
       = (Inr r, hm_insert (TaskId 7 1) t' wide_task)
     \<and> ts_signer_bitmap t' = 0 \<and> 260 \<in> set (get_non_signers t')"
proof -
  obtain t where "hm_get wide_task (TaskId 7 1) = Some t" "ts_operator_count t = 300"
    "\<not> ts_submitted t" "ts_expires_at t = None" "ts_signer_bitmap t = 0"
    by (auto simp: wide_task_def init_task_def init_task_with_config_def
        init_task_with_message_config_def task_config_default_def Let_def)
  then show ?thesis
    using high_index_signs_repeatedly [of wide_task 7 1 t 260 10 11 101 201]
    by (auto simp: is_expired_def)
qed

theorem submission_order_irrelevant_witness:
  "\<exists>u'. add_all [(5, 2, 12, 22), (4, 0, 10, 20)] (the (hm_get demo_init (TaskId 7 1))) = Inr u'
     \<and> get_signatures_for_aggregation u' = ([10, 12], [20, 22])"
proof -
  let ?t = "the (hm_get demo_init (TaskId 7 1))"
  let ?xs = "[(4, 0, 10, 20), (5, 2, 12, 22)]"
  have init: "hm_get demo_init (TaskId 7 1) \<noteq> None" by code_simp
  then have inv: "task_inv ?t"
    using agg_invD(1) [OF agg_reachable_agg_inv [OF demo_reachable(1)]] by force
  have run: "case add_all ?xs ?t of Inl _ \<Rightarrow> False
      | Inr u \<Rightarrow> get_signatures_for_aggregation u = ([10, 12], [20, 22])"
    by code_simp
  then obtain t' where t': "add_all ?xs ?t = Inr t'"
    "get_signatures_for_aggregation t' = ([10, 12], [20, 22])"
    by (auto split: sum.splits)
  show ?thesis
    using submission_order_irrelevant [OF inv t'(1), of "[(5, 2, 12, 22), (4, 0, 10, 20)]"] t'(2)
    by (auto simp: sub_index_def)
qed

theorem init_idempotent_witness:
  "init_task_with_message_config 50 7 1 [1, 2] [3] TangleKeccak256 3 (demo_config\<lparr>tc_ttl := None\<rparr>)
     demo_init = (Inr (), demo_init)"
proof -
  have "init_task_with_message_config 0 7 1 [1, 2] [3] TangleKeccak256 3 demo_config []
      = (Inr (), demo_init)"
    by code_simp
  moreover have "tc_operator_stakes demo_config = Some st \<Longrightarrow> hm_wf st" for st
    by (auto simp: demo_config_def hm_wf_def)
  ultimately show ?thesis
    using init_idempotent [OF agg_reachable.start] by blast
qed

theorem cleanup_exact_witness:
  "stale 200 5 demo_task
   \<and> hm_get (snd (cleanup_with_submitted_retention 200 5 demo_signed)) (TaskId 7 1) = None
   \<and> fst (cleanup_with_submitted_retention 200 5 demo_signed) = 1"
proof -
  let ?r = "cleanup_with_submitted_retention 200 5 demo_signed"
  have st: "stale 200 5 demo_task" by code_simp
  have "{tid. \<exists>t. hm_get demo_signed tid = Some t \<and> stale 200 5 t} = {TaskId 7 1}"
    using st by (auto simp: demo_signed_task split: if_splits)
  with cleanup_exact [OF demo_reachable(2), of 5 200 "fst ?r" "snd ?r"] st show ?thesis
    by (auto simp: demo_signed_task)
qed

theorem task_counts_partition_witness:
  "n_ready (get_task_counts 20 demo_signed)
     = card {tid. get_for_aggregation 20 (task_service_id tid) (task_call_id tid) demo_signed \<noteq> None}
   \<and> n_total (get_task_counts 20 demo_signed) = 1"
proof -
  have "task_count demo_signed = 1" by code_simp
  then show ?thesis
    using task_counts_partition [OF demo_reachable(2), of 20] by (simp add: Let_def)
qed

end
