(* ===== verification/Agg_Persistence.thy ===== *)
theory Agg_Persistence
  imports Agg_State_Correct
begin

unbundle bit_operations_syntax

text \<open>
  The persisted form of a task, \<open>crates/tangle-aggregation-svc/src/persistence.rs\<close>, and the
  \<open>snapshot\<close> and \<open>restore\<close> of \<open>state.rs\<close>. The point serialisation of \<open>ark_serialize\<close>, the
  \<open>hex\<close> crate and the hexadecimal printing and parsing of \<open>U256\<close> are the fields of the
  parameter \<open>point_codec\<close>; \<open>codec_ok\<close> names what is documented of them.
  A clock is a function from a call path to the reading made there, so that every
  reading of \<open>Instant::now()\<close> and \<open>SystemTime::now()\<close> is independent of the others.
\<close>

section \<open>Clocks\<close>

record reading =
  rd_instant :: instant
  rd_millis :: u64

type_synonym clock = "nat list \<Rightarrow> reading"

definition at_call :: "clock \<Rightarrow> nat \<Rightarrow> clock" where
  "at_call c k = (\<lambda>path. c (k # path))"

definition at_task :: "clock \<Rightarrow> u64 \<Rightarrow> u64 \<Rightarrow> clock" where
  "at_task c sid cid = at_call (at_call c (unat sid)) (unat cid)"

definition now_of :: "clock \<Rightarrow> instant" where
  "now_of c = rd_instant (c [])"

text \<open>\<open>Instant::checked_add\<close> and \<open>checked_sub\<close>: the seconds are an \<open>i64\<close>.\<close>

definition checked_add :: "instant \<Rightarrow> duration \<Rightarrow> instant option" where
  "checked_add i d = (if i + int d < 2 ^ 63 * 10 ^ 9 then Some (i + int d) else None)"

definition checked_sub :: "instant \<Rightarrow> duration \<Rightarrow> instant option" where
  "checked_sub i d = (if - (2 ^ 63 * 10 ^ 9) \<le> i - int d then Some (i - int d) else None)"

definition as_millis :: "duration \<Rightarrow> u64" where
  "as_millis d = of_nat (d div 10 ^ 6)"

definition from_millis :: "u64 \<Rightarrow> duration" where
  "from_millis ms = unat ms * 10 ^ 6"

definition instant_to_millis :: "reading \<Rightarrow> instant \<Rightarrow> u64" where
  "instant_to_millis r i =
     (if i \<ge> rd_instant r
      then sat_add (rd_millis r) (as_millis (nat (i - rd_instant r)))
      else sat_sub (rd_millis r) (as_millis (nat (rd_instant r - i))))"

definition millis_to_instant :: "reading \<Rightarrow> u64 \<Rightarrow> instant" where
  "millis_to_instant r ms =
     (if ms \<ge> rd_millis r
      then (case checked_add (rd_instant r) (from_millis (ms - rd_millis r)) of
              None \<Rightarrow> rd_instant r | Some i \<Rightarrow> i)
      else (case checked_sub (rd_instant r) (from_millis (rd_millis r - ms)) of
              None \<Rightarrow> rd_instant r | Some i \<Rightarrow> i))"

definition remaining_duration :: "u64 \<Rightarrow> u64 option \<Rightarrow> duration option" where
  "remaining_duration now_ms expires_at_ms =
     (case expires_at_ms of
        None \<Rightarrow> None
      | Some e \<Rightarrow> if e > now_ms then Some (from_millis (e - now_ms)) else None)"

definition is_expired_ms :: "u64 \<Rightarrow> u64 option \<Rightarrow> bool" where
  "is_expired_ms now_ms expires_at_ms =
     (case expires_at_ms of None \<Rightarrow> False | Some e \<Rightarrow> now_ms > e)"

section \<open>The persisted task\<close>

datatype persistence_error =
    Io string
  | Serialization string
  | NotFound task_id
  | Backend string

record persisted =
  p_service_id :: u64
  p_call_id :: u64
  p_output :: bytes
  p_message :: bytes
  p_signature_scheme :: signature_scheme
  p_operator_count :: u32
  p_threshold_type :: threshold_type
  p_signer_bitmap :: string
  p_signatures :: "(u32, string) hmap"
  p_public_keys :: "(u32, string) hmap"
  p_operator_stakes :: "(u32, u64) hmap"
  p_total_stake :: u64
  p_submitted :: bool
  p_submitted_at_ms :: "u64 option"
  p_created_at_ms :: u64
  p_expires_at_ms :: "u64 option"

definition persisted_id :: "persisted \<Rightarrow> task_id" where
  "persisted_id p = TaskId (p_service_id p) (p_call_id p)"

text \<open>Hash maps have distinct keys.\<close>

definition persisted_wf :: "persisted \<Rightarrow> bool" where
  "persisted_wf p \<longleftrightarrow>
     hm_wf (p_signatures p) \<and> hm_wf (p_public_keys p) \<and> hm_wf (p_operator_stakes p)"

record ('s, 'p) point_codec =
  pc_sig_ser :: "'s \<Rightarrow> string + bytes"
  pc_sig_de :: "bytes \<Rightarrow> string + 's"
  pc_pk_ser :: "'p \<Rightarrow> string + bytes"
  pc_pk_de :: "bytes \<Rightarrow> string + 'p"
  pc_hex_encode :: "bytes \<Rightarrow> string"
  pc_hex_decode :: "string \<Rightarrow> string + bytes"
  pc_u256_fmt :: "u256 \<Rightarrow> string"
  pc_u256_parse :: "string \<Rightarrow> string + u256"

definition encode_point ::
  "('s, 'p) point_codec \<Rightarrow> ('a \<Rightarrow> string + bytes) \<Rightarrow> 'a \<Rightarrow> persistence_error + string" where
  "encode_point K ser x =
     res_bind (res_map_err Serialization (ser x)) (\<lambda>bs. Inr (''0x'' @ pc_hex_encode K bs))"

definition decode_bytes :: "('s, 'p) point_codec \<Rightarrow> string \<Rightarrow> persistence_error + bytes" where
  "decode_bytes K v = res_map_err Serialization (pc_hex_decode K (strip_or_self ''0x'' v))"

definition decode_signature :: "('s, 'p) point_codec \<Rightarrow> string \<Rightarrow> persistence_error + 's" where
  "decode_signature K v =
     res_bind (decode_bytes K v) (\<lambda>bs. res_map_err Serialization (pc_sig_de K bs))"

definition decode_public_key :: "('s, 'p) point_codec \<Rightarrow> string \<Rightarrow> persistence_error + 'p" where
  "decode_public_key K v =
     res_bind (decode_bytes K v) (\<lambda>bs. res_map_err Serialization (pc_pk_de K bs))"

definition parse_u256 :: "('s, 'p) point_codec \<Rightarrow> string \<Rightarrow> persistence_error + u256" where
  "parse_u256 K v = res_map_err Serialization (pc_u256_parse K (strip_or_self ''0x'' v))"

definition missing_entry :: "string \<Rightarrow> u32 \<Rightarrow> persistence_error" where
  "missing_entry kind i =
     Serialization (''missing '' @ kind @ '' for operator '' @ show_nat (unat i))"

text \<open>The collection of a map of encoded points; its keys stay distinct.\<close>

definition encode_points ::
  "('s, 'p) point_codec \<Rightarrow> ('a \<Rightarrow> string + bytes) \<Rightarrow> (u32, 'a) hmap \<Rightarrow>
   persistence_error + (u32, string) hmap" where
  "encode_points K ser xs =
     res_collect (\<lambda>(i, x). res_bind (encode_point K ser x) (\<lambda>v. Inr (i, v))) xs"

definition to_persisted ::
  "('s, 'p) point_codec \<Rightarrow> clock \<Rightarrow> ('s, 'p) task_state \<Rightarrow> persistence_error + persisted" where
  "to_persisted K c t =
     res_bind (encode_points K (pc_sig_ser K) (ts_signatures t)) (\<lambda>signatures.
     res_bind (encode_points K (pc_pk_ser K) (ts_public_keys t)) (\<lambda>public_keys.
       Inr \<lparr>p_service_id = ts_service_id t, p_call_id = ts_call_id t, p_output = ts_output t,
            p_message = ts_message t, p_signature_scheme = ts_signature_scheme t,
            p_operator_count = ts_operator_count t, p_threshold_type = ts_threshold_type t,
            p_signer_bitmap = pc_u256_fmt K (ts_signer_bitmap t), p_signatures = signatures,
            p_public_keys = public_keys, p_operator_stakes = ts_operator_stakes t,
            p_total_stake = ts_total_stake t, p_submitted = ts_submitted t,
            p_submitted_at_ms = map_option (instant_to_millis (c [0])) (ts_submitted_at t),
            p_created_at_ms = instant_to_millis (c [1]) (ts_created_at t),
            p_expires_at_ms = map_option (instant_to_millis (c [2])) (ts_expires_at t)\<rparr>))"

fun restore_signatures ::
  "('s, 'p) point_codec \<Rightarrow> clock \<Rightarrow> persisted \<Rightarrow> u32 list \<Rightarrow> ('s, 'p) task_state \<Rightarrow>
   persistence_error + ('s, 'p) task_state" where
  "restore_signatures K c p [] t = Inr t"
| "restore_signatures K c p (i # is) t =
     res_bind (ok_or (missing_entry ''signature'' i) (hm_get (p_signatures p) i)) (\<lambda>v.
     res_bind (decode_signature K v) (\<lambda>sig.
     res_bind (ok_or (missing_entry ''public key'' i) (hm_get (p_public_keys p) i)) (\<lambda>w.
     res_bind (decode_public_key K w) (\<lambda>pk.
     res_bind (res_map_err Serialization (add_signature (now_of (at_call c (unat i))) i sig pk t))
       (restore_signatures K c p is)))))"

definition inconsistent :: "('s, 'p) task_state \<Rightarrow> string \<Rightarrow> persistence_error" where
  "inconsistent t what =
     Serialization (''task '' @ show_u64 (ts_service_id t) @ '':'' @ show_u64 (ts_call_id t) @ what)"

definition from_persisted ::
  "('s, 'p) point_codec \<Rightarrow> clock \<Rightarrow> persisted \<Rightarrow> persistence_error + ('s, 'p) task_state" where
  "from_persisted K c p =
     res_bind (parse_u256 K (p_signer_bitmap p)) (\<lambda>signer_bitmap.
     let t = with_message_config (now_of (at_call c 0)) (p_service_id p) (p_call_id p) (p_output p)
               (p_message p) (p_signature_scheme p) (p_operator_count p) (p_threshold_type p)
               (Some (p_operator_stakes p)) None in
     if ts_total_stake t \<noteq> p_total_stake p then Inl (inconsistent t '' has inconsistent total stake'')
     else if hm_len (p_signatures p) \<noteq> hm_len (p_public_keys p)
     then Inl (inconsistent t '' has an incomplete signature/public-key pair'')
     else
       res_bind (restore_signatures K (at_call c 1) p (sort (hm_keys (p_signatures p))) t) (\<lambda>t.
       if ts_signer_bitmap t \<noteq> signer_bitmap
       then Inl (inconsistent t '' has an inconsistent signer bitmap'')
       else Inr (t\<lparr>ts_submitted := p_submitted p,
                   ts_submitted_at :=
                     (case p_submitted_at_ms p of
                        Some ms \<Rightarrow> Some (millis_to_instant (c [2]) ms)
                      | None \<Rightarrow> if p_submitted p then Some (now_of (at_call c 3)) else None),
                   ts_created_at := millis_to_instant (c [4]) (p_created_at_ms p),
                   ts_expires_at := map_option (millis_to_instant (c [5])) (p_expires_at_ms p)\<rparr>)))"

section \<open>Snapshot and restore\<close>

definition snapshot ::
  "('s, 'p) point_codec \<Rightarrow> clock \<Rightarrow> ('s, 'p) agg_state \<Rightarrow> persistence_error + persisted list" where
  "snapshot K c tasks =
     res_collect (\<lambda>t. to_persisted K (at_task c (ts_service_id t) (ts_call_id t)) t)
       (hm_values tasks)"

fun recover ::
  "('s, 'p) point_codec \<Rightarrow> clock \<Rightarrow> persisted list \<Rightarrow> ('s, 'p) agg_state \<Rightarrow>
   persistence_error + ('s, 'p) agg_state" where
  "recover K c [] recovered = Inr recovered"
| "recover K c (p # ps) recovered =
     res_bind (from_persisted K (at_task c (p_service_id p) (p_call_id p)) p) (\<lambda>t.
       let tid = TaskId (ts_service_id t) (ts_call_id t) in
       if hm_get recovered tid \<noteq> None
       then Inl (Serialization (''duplicate persisted task '' @ show_u64 (task_service_id tid)
                   @ ''/'' @ show_u64 (task_call_id tid)))
       else recover K c ps (hm_insert tid t recovered))"

definition restore ::
  "('s, 'p) point_codec \<Rightarrow> clock \<Rightarrow> persisted list \<Rightarrow> ('s, 'p) agg_state \<Rightarrow>
   (persistence_error + unit) \<times> ('s, 'p) agg_state" where
  "restore K c ps tasks =
     (case recover K c ps [] of
        Inl e \<Rightarrow> (Inl e, tasks)
      | Inr recovered \<Rightarrow> (Inr (), recovered))"

section \<open>Clock conversions\<close>

text \<open>A reading whose two clocks run in step, \<open>off\<close> nanoseconds apart.\<close>

definition in_step :: "int \<Rightarrow> reading \<Rightarrow> bool" where
  "in_step off r \<longleftrightarrow> uint (rd_millis r) = (rd_instant r + off) div 1000000"

lemma div_million: "(x :: int) div 1000000 * 1000000 \<le> x" "x < x div 1000000 * 1000000 + 1000000"
  by presburger+

lemma uint_64: "0 \<le> uint (w :: u64)" "uint (w :: u64) < 18446744073709551616"
  using uint_lt2p [of w] by simp_all

lemma uint_as_millis:
  assumes "0 \<le> d" and "d div 1000000 < 18446744073709551616"
  shows "uint (as_millis (nat d)) = d div 1000000"
proof -
  have "int (nat d div 1000000) = d div 1000000" using assms(1) by (simp add: zdiv_int)
  moreover have "0 \<le> d div 1000000" using assms(1) by simp
  ultimately show ?thesis
    using assms(2) by (simp add: as_millis_def uint_nat [symmetric] unsigned_of_nat take_bit_nat_eq_self
      take_bit_int_eq_self flip: of_nat_take_bit)
qed

lemma uint_sat_add: "uint (sat_add a b) = min (2 ^ 64 - 1) (uint a + uint b)"
  using arg_cong [OF unat_sat_add [of a b], of int] by (simp add: of_nat_min)

lemma uint_sat_sub: "uint (sat_sub a b) = max 0 (uint a - uint b)"
  using arg_cong [OF unat_sat_sub [of a b], of int] by (simp add: int_ops(6) max_def)

lemma instant_to_millis_value:
  assumes step: "in_step off r" and lo: "0 \<le> i + off" and hi: "i + off < 2 ^ 63 * 1000000"
  shows "uint (instant_to_millis r i) =
    (if rd_instant r \<le> i then uint (rd_millis r) + (i - rd_instant r) div 1000000
     else uint (rd_millis r) - (rd_instant r - i) div 1000000)"
proof -
  have hi': "i + off < 9223372036854775808 * 1000000" using hi by simp
  have m: "uint (rd_millis r) = (rd_instant r + off) div 1000000"
    using step by (simp add: in_step_def)
  note b = div_million [of "rd_instant r + off"] div_million [of "i - rd_instant r"]
    div_million [of "rd_instant r - i"] uint_64 [of "rd_millis r"]
  show ?thesis
  proof (cases "rd_instant r \<le> i")
    case True
    have "uint (rd_millis r) + (i - rd_instant r) div 1000000 < 9223372036854775808"
      using m hi' b by linarith
    moreover from this have "uint (as_millis (nat (i - rd_instant r))) = (i - rd_instant r) div 1000000"
      by (intro uint_as_millis) (use True b in linarith)+
    ultimately show ?thesis
      using True by (simp add: instant_to_millis_def uint_sat_add)
  next
    case False
    have le: "(rd_instant r - i) div 1000000 \<le> uint (rd_millis r)"
      unfolding m using lo by (intro zdiv_mono1) simp_all
    moreover from this have "uint (as_millis (nat (rd_instant r - i))) = (rd_instant r - i) div 1000000"
      by (intro uint_as_millis) (use False b in linarith)+
    ultimately show ?thesis
      using False by (simp add: instant_to_millis_def uint_sat_sub)
  qed
qed

lemma millis_to_instant_value:
  assumes "\<bar>rd_instant r\<bar> < 2 ^ 62 * 10 ^ 9"
  shows "millis_to_instant r ms = rd_instant r + (uint ms - uint (rd_millis r)) * 1000000"
proof -
  note b = uint_64 [of ms] uint_64 [of "rd_millis r"]
  have a: "rd_instant r < 4611686018427387904000000000" "- 4611686018427387904000000000 < rd_instant r"
    using assms by (simp_all add: abs_less_iff)
  show ?thesis
  proof (cases "rd_millis r \<le> ms")
    case True
    then have sub: "int (from_millis (ms - rd_millis r)) = (uint ms - uint (rd_millis r)) * 1000000"
      by (simp add: from_millis_def uint_sub_lem word_le_def)
    have "(uint ms - uint (rd_millis r)) * 1000000 < 18446744073709551616 * 1000000"
      by (rule mult_strict_right_mono) (use b in linarith, simp)
    then have "rd_instant r + (uint ms - uint (rd_millis r)) * 1000000 < 9223372036854775808000000000"
      using a(1) by simp
    with True sub show ?thesis
      by (simp add: millis_to_instant_def checked_add_def)
  next
    case False
    then have "ms \<le> rd_millis r" by simp
    then have "uint ms \<le> uint (rd_millis r)" by (simp add: word_le_def)
    then have sub: "int (from_millis (rd_millis r - ms)) = (uint (rd_millis r) - uint ms) * 1000000"
      by (simp add: from_millis_def uint_sub_lem)
    have "(uint (rd_millis r) - uint ms) * 1000000 < 18446744073709551616 * 1000000"
      by (rule mult_strict_right_mono) (use b in linarith, simp)
    then have "- 9223372036854775808000000000 \<le> rd_instant r - (uint (rd_millis r) - uint ms) * 1000000"
      using a(2) by simp
    with False sub show ?thesis
      by (simp add: millis_to_instant_def checked_sub_def)
  qed
qed

lemma millis_error:
  fixes n n' m m' d i k :: int
  assumes "m * 1000000 \<le> n + k" "n + k < m * 1000000 + 1000000"
    and "m' * 1000000 \<le> n' + k" "n' + k < m' * 1000000 + 1000000"
  shows "d * 1000000 \<le> i - n \<Longrightarrow> i - n < d * 1000000 + 1000000 \<Longrightarrow>
      \<bar>n' + (m + d - m') * 1000000 - i\<bar> < 2000000"
    and "d * 1000000 \<le> n - i \<Longrightarrow> n - i < d * 1000000 + 1000000 \<Longrightarrow>
      \<bar>n' + (m - d - m') * 1000000 - i\<bar> < 2000000"
  using assms unfolding abs_less_iff left_diff_distrib distrib_right by linarith+

text \<open>
  A point in time survives a save and a restart to within two milliseconds, provided the
  monotonic and the system clock run in step and the time fits the millisecond counter.
\<close>

theorem persisted_time_accurate:
  assumes "in_step off r" and "in_step off r'"
    and "0 \<le> i + off" and "i + off < 2 ^ 63 * 1000000" and "\<bar>rd_instant r'\<bar> < 2 ^ 62 * 10 ^ 9"
  shows "\<bar>millis_to_instant r' (instant_to_millis r i) - i\<bar> < 2000000"
proof -
  have "uint (rd_millis r) = (rd_instant r + off) div 1000000"
    "uint (rd_millis r') = (rd_instant r' + off) div 1000000"
    using assms(1,2) by (simp_all add: in_step_def)
  then show ?thesis
    unfolding millis_to_instant_value [OF assms(5)] instant_to_millis_value [OF assms(1,3,4)]
    using millis_error(1) [OF div_million div_million div_million, of "rd_instant r'" "rd_instant r" off]
      millis_error(2) [OF div_million div_million div_million, of "rd_instant r'" "rd_instant r" off]
    by simp
qed

lemma strip_0x [simp]: "strip_or_self ''0x'' (CHR ''0'' # CHR ''x'' # s) = s"
  using strip_or_self_append [of "''0x''" s] by simp

section \<open>What a persisted task says\<close>

definition codec_ok :: "('s, 'p) point_codec \<Rightarrow> bool" where
  "codec_ok K \<longleftrightarrow>
     (\<forall>s. \<exists>bs. pc_sig_ser K s = Inr bs \<and> pc_sig_de K bs = Inr s)
     \<and> (\<forall>p. \<exists>bs. pc_pk_ser K p = Inr bs \<and> pc_pk_de K bs = Inr p)
     \<and> (\<forall>bs. pc_hex_decode K (pc_hex_encode K bs) = Inr bs)
     \<and> (\<forall>w. \<exists>ds. pc_u256_fmt K w = ''0x'' @ ds \<and> pc_u256_parse K ds = Inr w)"

text \<open>\<open>p\<close> is a persisted form of \<open>t\<close>: every field but the times agrees, and the stored
  points decode to those of the task.\<close>

definition persists :: "('s, 'p) point_codec \<Rightarrow> ('s, 'p) task_state \<Rightarrow> persisted \<Rightarrow> bool" where
  "persists K t p \<longleftrightarrow>
     p_service_id p = ts_service_id t \<and> p_call_id p = ts_call_id t \<and> p_output p = ts_output t
     \<and> p_message p = ts_message t \<and> p_signature_scheme p = ts_signature_scheme t
     \<and> p_operator_count p = ts_operator_count t \<and> p_threshold_type p = ts_threshold_type t
     \<and> parse_u256 K (p_signer_bitmap p) = Inr (ts_signer_bitmap t)
     \<and> (\<forall>i. rel_option (\<lambda>v s. decode_signature K v = Inr s)
              (hm_get (p_signatures p) i) (hm_get (ts_signatures t) i))
     \<and> (\<forall>i. rel_option (\<lambda>v k. decode_public_key K v = Inr k)
              (hm_get (p_public_keys p) i) (hm_get (ts_public_keys t) i))
     \<and> hm_get (p_operator_stakes p) = hm_get (ts_operator_stakes t)
     \<and> p_total_stake p = ts_total_stake t \<and> p_submitted p = ts_submitted t
     \<and> (p_expires_at_ms p = None \<longleftrightarrow> ts_expires_at t = None)"

text \<open>Two tasks that agree in everything but the times and the order of their maps.\<close>

definition task_sim :: "('s, 'p) task_state \<Rightarrow> ('s, 'p) task_state \<Rightarrow> bool" where
  "task_sim t u \<longleftrightarrow>
     ts_service_id t = ts_service_id u \<and> ts_call_id t = ts_call_id u \<and> ts_output t = ts_output u
     \<and> ts_message t = ts_message u \<and> ts_signature_scheme t = ts_signature_scheme u
     \<and> ts_operator_count t = ts_operator_count u \<and> ts_threshold_type t = ts_threshold_type u
     \<and> ts_signer_bitmap t = ts_signer_bitmap u
     \<and> hm_get (ts_signatures t) = hm_get (ts_signatures u)
     \<and> hm_get (ts_public_keys t) = hm_get (ts_public_keys u)
     \<and> hm_get (ts_operator_stakes t) = hm_get (ts_operator_stakes u)
     \<and> ts_total_stake t = ts_total_stake u \<and> ts_submitted t = ts_submitted u
     \<and> (ts_expires_at t = None \<longleftrightarrow> ts_expires_at u = None)"

lemma task_sim_refl [simp]: "task_sim t t"
  by (simp add: task_sim_def)

lemma task_sim_trans: "task_sim t u \<Longrightarrow> task_sim u v \<Longrightarrow> task_sim t v"
  by (simp add: task_sim_def)

lemma persists_sim: "persists K t p \<Longrightarrow> task_sim u t \<Longrightarrow> persists K u p"
  by (simp add: persists_def task_sim_def)

lemma encode_points_Inr:
  assumes "encode_points K ser xs = Inr ys"
  shows "hm_keys ys = hm_keys xs"
    and "rel_option (\<lambda>v x. encode_point K ser x = Inr v) (hm_get ys i) (hm_get xs i)"
proof -
  have all: "list_all2 (\<lambda>x y. fst y = fst x \<and> encode_point K ser (snd x) = Inr (snd y)) xs ys"
    using assms unfolding encode_points_def res_collect_Inr_iff
    by (rule list_all2_mono) (auto simp: res_bind_Inr_iff)
  then show "hm_keys ys = hm_keys xs"
    by (induction rule: list_all2_induct) auto
  from all show "rel_option (\<lambda>v x. encode_point K ser x = Inr v) (hm_get ys i) (hm_get xs i)"
    by (induction rule: list_all2_induct) auto
qed

lemma encode_points_total:
  assumes "\<And>x. \<exists>bs. ser x = Inr bs"
  shows "\<exists>ys. encode_points K ser xs = Inr ys"
proof -
  from assms obtain b where b: "\<And>x. ser x = Inr (b x)" by metis
  have "encode_points K ser xs = Inr (map (\<lambda>(i, x). (i, ''0x'' @ pc_hex_encode K (b x))) xs)"
    unfolding encode_points_def
    by (rule res_collect_map) (auto simp: encode_point_def b res_map_err_def)
  then show ?thesis by blast
qed

lemma codec_okD:
  assumes "codec_ok K"
  shows "encode_point K (pc_sig_ser K) s = Inr v \<Longrightarrow> decode_signature K v = Inr s"
    and "encode_point K (pc_pk_ser K) k = Inr v \<Longrightarrow> decode_public_key K v = Inr k"
    and "parse_u256 K (pc_u256_fmt K w) = Inr w"
    and "\<exists>bs. pc_sig_ser K s = Inr bs" and "\<exists>bs. pc_pk_ser K k = Inr bs"
proof -
  obtain bs where s: "pc_sig_ser K s = Inr bs" "pc_sig_de K bs = Inr s"
    using assms unfolding codec_ok_def by blast
  obtain cs where k: "pc_pk_ser K k = Inr cs" "pc_pk_de K cs = Inr k"
    using assms unfolding codec_ok_def by blast
  obtain ds where w: "pc_u256_fmt K w = ''0x'' @ ds" "pc_u256_parse K ds = Inr w"
    using assms unfolding codec_ok_def by blast
  have hex: "pc_hex_decode K (pc_hex_encode K bs) = Inr bs" for bs
    using assms by (simp add: codec_ok_def)
  show "encode_point K (pc_sig_ser K) s = Inr v \<Longrightarrow> decode_signature K v = Inr s"
    using s hex by (auto simp: encode_point_def decode_signature_def decode_bytes_def)
  show "encode_point K (pc_pk_ser K) k = Inr v \<Longrightarrow> decode_public_key K v = Inr k"
    using k hex by (auto simp: encode_point_def decode_public_key_def decode_bytes_def)
  show "parse_u256 K (pc_u256_fmt K w) = Inr w"
    using w by (simp add: parse_u256_def)
  show "\<exists>bs. pc_sig_ser K s = Inr bs" "\<exists>bs. pc_pk_ser K k = Inr bs"
    using s(1) k(1) by blast+
qed

lemma to_persisted_Inr:
  assumes "to_persisted K c t = Inr p"
  obtains ss ps where "encode_points K (pc_sig_ser K) (ts_signatures t) = Inr ss"
    "encode_points K (pc_pk_ser K) (ts_public_keys t) = Inr ps"
    "p = \<lparr>p_service_id = ts_service_id t, p_call_id = ts_call_id t, p_output = ts_output t,
            p_message = ts_message t, p_signature_scheme = ts_signature_scheme t,
            p_operator_count = ts_operator_count t, p_threshold_type = ts_threshold_type t,
            p_signer_bitmap = pc_u256_fmt K (ts_signer_bitmap t), p_signatures = ss,
            p_public_keys = ps, p_operator_stakes = ts_operator_stakes t,
            p_total_stake = ts_total_stake t, p_submitted = ts_submitted t,
            p_submitted_at_ms = map_option (instant_to_millis (c [0])) (ts_submitted_at t),
            p_created_at_ms = instant_to_millis (c [1]) (ts_created_at t),
            p_expires_at_ms = map_option (instant_to_millis (c [2])) (ts_expires_at t)\<rparr>"
  using assms by (auto simp: to_persisted_def res_bind_Inr_iff)

lemma to_persisted_persists:
  assumes "codec_ok K" and "to_persisted K c t = Inr p"
  shows "persists K t p"
  using assms(2)
proof (rule to_persisted_Inr)
  fix ss ps
  assume e: "encode_points K (pc_sig_ser K) (ts_signatures t) = Inr ss"
    "encode_points K (pc_pk_ser K) (ts_public_keys t) = Inr ps"
  have "rel_option (\<lambda>v s. decode_signature K v = Inr s) (hm_get ss i) (hm_get (ts_signatures t) i)" for i
    using encode_points_Inr(2) [OF e(1), of i] by (rule option.rel_mono_strong)
      (rule codec_okD(1) [OF assms(1)])
  moreover have "rel_option (\<lambda>v k. decode_public_key K v = Inr k) (hm_get ps i) (hm_get (ts_public_keys t) i)" for i
    using encode_points_Inr(2) [OF e(2), of i] by (rule option.rel_mono_strong)
      (rule codec_okD(2) [OF assms(1)])
  ultimately show "persists K t p"
    using assms(2) e codec_okD(3) [OF assms(1)]
    by (auto simp: to_persisted_def persists_def)
qed

lemma to_persisted_wf:
  assumes "task_inv t" and "to_persisted K c t = Inr p"
  shows "persisted_wf p"
  using assms(2)
  by (rule to_persisted_Inr)
    (use task_invD(1,2,5) [OF assms(1)] in \<open>simp add: persisted_wf_def hm_wf_def encode_points_Inr(1)\<close>)

lemma to_persisted_id: "to_persisted K c t = Inr p \<Longrightarrow> persisted_id p = TaskId (ts_service_id t) (ts_call_id t)"
  by (auto simp: to_persisted_def res_bind_Inr_iff persisted_id_def)

lemma to_persisted_total: "codec_ok K \<Longrightarrow> \<exists>p. to_persisted K c t = Inr p"
proof -
  assume K: "codec_ok K"
  obtain ss where "encode_points K (pc_sig_ser K) (ts_signatures t) = Inr ss"
    using encode_points_total [of "pc_sig_ser K"] codec_okD(4) [OF K] by blast
  moreover obtain ps where "encode_points K (pc_pk_ser K) (ts_public_keys t) = Inr ps"
    using encode_points_total [of "pc_pk_ser K"] codec_okD(5) [OF K] by blast
  ultimately show ?thesis by (simp add: to_persisted_def)
qed

section \<open>Restoring is safe on any input\<close>

lemma restore_signatures_add_all:
  "restore_signatures K c p is t = Inr t' \<Longrightarrow>
     \<exists>subs. map sub_index subs = is \<and> add_all subs t = Inr t'"
proof (induction "is" arbitrary: t)
  case (Cons i "is")
  then obtain now sig pk u where u: "add_signature now i sig pk t = Inr u"
    "restore_signatures K c p is u = Inr t'"
    by (auto simp: res_bind_Inr_iff res_map_err_Inr_iff)
  from Cons.IH [OF u(2)] obtain subs where "map sub_index subs = is" "add_all subs u = Inr t'"
    by blast
  moreover have "sub_index (now, i, sig, pk) = i" by (simp add: sub_index_def)
  ultimately show ?case
    using u(1) by (intro exI [of _ "(now, i, sig, pk) # subs"]) simp
qed simp

lemma add_all_sel:
  "add_all subs t = Inr t' \<Longrightarrow>
     ts_service_id t' = ts_service_id t \<and> ts_call_id t' = ts_call_id t"
  by (induction subs t rule: add_all.induct) (auto simp: res_bind_Inr_iff add_signature_Inr_iff)

lemma from_persisted_inv:
  assumes "persisted_wf p" and "from_persisted K c p = Inr t"
  shows "task_inv t" "TaskId (ts_service_id t) (ts_call_id t) = persisted_id p"
proof -
  let ?t0 = "with_message_config (now_of (at_call c 0)) (p_service_id p) (p_call_id p) (p_output p)
      (p_message p) (p_signature_scheme p) (p_operator_count p) (p_threshold_type p)
      (Some (p_operator_stakes p)) None"
  from assms(2) obtain t1 b s cr e where t1: "restore_signatures K (at_call c 1) p
      (sort (hm_keys (p_signatures p))) ?t0 = Inr t1"
    and t: "t = t1\<lparr>ts_submitted := b, ts_submitted_at := s, ts_created_at := cr, ts_expires_at := e\<rparr>"
    by (auto simp: from_persisted_def res_bind_Inr_iff Let_def split: if_splits)
  obtain subs where subs: "add_all subs ?t0 = Inr t1"
    using restore_signatures_add_all [OF t1] by blast
  have "task_inv ?t0"
    using assms(1) by (intro with_message_config_inv) (simp add: persisted_wf_def)
  with add_all_inv [OF subs] show "task_inv t"
    using t by simp
  show "TaskId (ts_service_id t) (ts_call_id t) = persisted_id p"
    using add_all_sel [OF subs] t by (simp add: persisted_id_def)
qed

section \<open>Round trip\<close>

lemma restore_signatures_ok:
  assumes "\<forall>i \<in> set is. (\<exists>v. hm_get (p_signatures p) i = Some v \<and> decode_signature K v = Inr (S i))
      \<and> (\<exists>v. hm_get (p_public_keys p) i = Some v \<and> decode_public_key K v = Inr (P i))
      \<and> i < ts_operator_count t \<and> \<not> has_signed i t"
    and "distinct is" and "ts_expires_at t = None"
  shows "restore_signatures K c p is t = Inr (fold (\<lambda>i. put_signature i (S i) (P i)) is t)"
  using assms
proof (induction "is" arbitrary: t)
  case (Cons i "is")
  have "add_signature now i (S i) (P i) t = Inr (put_signature i (S i) (P i) t)" for now
    using Cons.prems by (simp add: add_signature_Inr_iff is_expired_def)
  moreover have "restore_signatures K c p is (put_signature i (S i) (P i) t) =
      Inr (fold (\<lambda>i. put_signature i (S i) (P i)) is (put_signature i (S i) (P i) t))"
    using Cons.prems by (intro Cons.IH) (auto simp: has_signed_put_signature)
  ultimately show ?case
    using Cons.prems(1) by auto
qed simp

lemma fold_put_sel:
  "hm_get (ts_signatures (fold (\<lambda>i. put_signature i (S i) (P i)) is t)) =
     (\<lambda>i. if i \<in> set is then Some (S i) else hm_get (ts_signatures t) i)"
  "hm_get (ts_public_keys (fold (\<lambda>i. put_signature i (S i) (P i)) is t)) =
     (\<lambda>i. if i \<in> set is then Some (P i) else hm_get (ts_public_keys t) i)"
  "ts_service_id (fold (\<lambda>i. put_signature i (S i) (P i)) is t) = ts_service_id t"
  "ts_call_id (fold (\<lambda>i. put_signature i (S i) (P i)) is t) = ts_call_id t"
  "ts_output (fold (\<lambda>i. put_signature i (S i) (P i)) is t) = ts_output t"
  "ts_message (fold (\<lambda>i. put_signature i (S i) (P i)) is t) = ts_message t"
  "ts_signature_scheme (fold (\<lambda>i. put_signature i (S i) (P i)) is t) = ts_signature_scheme t"
  "ts_operator_count (fold (\<lambda>i. put_signature i (S i) (P i)) is t) = ts_operator_count t"
  "ts_threshold_type (fold (\<lambda>i. put_signature i (S i) (P i)) is t) = ts_threshold_type t"
  "ts_operator_stakes (fold (\<lambda>i. put_signature i (S i) (P i)) is t) = ts_operator_stakes t"
  "ts_total_stake (fold (\<lambda>i. put_signature i (S i) (P i)) is t) = ts_total_stake t"
  by (induction "is" arbitrary: t) (auto simp: fun_eq_iff put_signature_def hm_get_insert)

lemma task_inv_bitmap_eq:
  assumes "task_inv t" and "task_inv u"
    and "dom (hm_get (ts_signatures t)) = dom (hm_get (ts_signatures u))"
  shows "ts_signer_bitmap t = ts_signer_bitmap u"
proof (rule bit_word_eqI)
  fix k assume "k < LENGTH(256)"
  then show "bit (ts_signer_bitmap t) k = bit (ts_signer_bitmap u) k"
    using assms by (simp add: task_inv_def dom_map_of_conv_image_fst)
qed

lemma sum_list_values_cong:
  assumes "hm_wf m" and "hm_wf m'" and "hm_get m = hm_get m'"
  shows "sum_list (hm_values m :: u64 list) = sum_list (hm_values m')"
  using assms hm_sum_values [of m id] hm_sum_values [of m' id] by simp

lemma persistsD:
  assumes "persists K t p"
  shows "dom (hm_get (p_signatures p)) = dom (hm_get (ts_signatures t))"
    "dom (hm_get (p_public_keys p)) = dom (hm_get (ts_public_keys t))"
    "hm_get (ts_signatures t) i = Some s \<Longrightarrow>
       \<exists>v. hm_get (p_signatures p) i = Some v \<and> decode_signature K v = Inr s"
    "hm_get (ts_public_keys t) i = Some k \<Longrightarrow>
       \<exists>v. hm_get (p_public_keys p) i = Some v \<and> decode_public_key K v = Inr k"
proof -
  have s: "rel_option (\<lambda>v s. decode_signature K v = Inr s)
      (hm_get (p_signatures p) i) (hm_get (ts_signatures t) i)"
    and k: "rel_option (\<lambda>v k. decode_public_key K v = Inr k)
      (hm_get (p_public_keys p) i) (hm_get (ts_public_keys t) i)" for i
    using assms by (simp_all add: persists_def)
  have "hm_get (p_signatures p) i = None \<longleftrightarrow> hm_get (ts_signatures t) i = None"
    "hm_get (p_public_keys p) i = None \<longleftrightarrow> hm_get (ts_public_keys t) i = None" for i
    using s [of i] k [of i] by (auto elim: option.rel_cases)
  then show "dom (hm_get (p_signatures p)) = dom (hm_get (ts_signatures t))"
    "dom (hm_get (p_public_keys p)) = dom (hm_get (ts_public_keys t))"
    by (simp_all add: dom_def)
  show "hm_get (ts_signatures t) i = Some s \<Longrightarrow>
       \<exists>v. hm_get (p_signatures p) i = Some v \<and> decode_signature K v = Inr s"
    "hm_get (ts_public_keys t) i = Some k \<Longrightarrow>
       \<exists>v. hm_get (p_public_keys p) i = Some v \<and> decode_public_key K v = Inr k"
    using s [of i] k [of i] by (auto elim: option.rel_cases)
qed

lemma task_inv_dom:
  "task_inv t \<Longrightarrow> dom (hm_get (ts_public_keys t)) = dom (hm_get (ts_signatures t))"
  using task_invD(3) [of t] by (metis dom_map_of_conv_image_fst list.set_map)

lemma persists_len:
  assumes "task_inv t" and "persists K t p" and "persisted_wf p"
  shows "hm_len (p_signatures p) = hm_len (p_public_keys p)"
  using assms persistsD(1,2) [OF assms(2)] task_inv_dom [OF assms(1)]
  by (simp add: persisted_wf_def hm_len_card)

text \<open>The times a restored task gets.\<close>

definition restored_times :: "clock \<Rightarrow> persisted \<Rightarrow> ('s, 'p) task_state \<Rightarrow> bool" where
  "restored_times c p u \<longleftrightarrow>
     ts_submitted_at u = (case p_submitted_at_ms p of
        Some ms \<Rightarrow> Some (millis_to_instant (c [2]) ms)
      | None \<Rightarrow> if p_submitted p then Some (now_of (at_call c 3)) else None)
     \<and> ts_created_at u = millis_to_instant (c [4]) (p_created_at_ms p)
     \<and> ts_expires_at u = map_option (millis_to_instant (c [5])) (p_expires_at_ms p)"

lemma restore_signatures_persists:
  assumes inv: "task_inv t" and p: "persists K t p" "persisted_wf p"
    and t0: "ts_operator_count t0 = ts_operator_count t" "ts_signer_bitmap t0 = 0"
      "ts_expires_at t0 = None" "ts_signatures t0 = []" "ts_public_keys t0 = []"
  obtains t1 where "restore_signatures K c p (sort (hm_keys (p_signatures p))) t0 = Inr t1"
    "hm_get (ts_signatures t1) = hm_get (ts_signatures t)"
    "hm_get (ts_public_keys t1) = hm_get (ts_public_keys t)"
    "ts_operator_stakes t1 = ts_operator_stakes t0" "ts_total_stake t1 = ts_total_stake t0"
    "ts_service_id t1 = ts_service_id t0" "ts_call_id t1 = ts_call_id t0"
    "ts_output t1 = ts_output t0" "ts_message t1 = ts_message t0"
    "ts_signature_scheme t1 = ts_signature_scheme t0"
    "ts_operator_count t1 = ts_operator_count t0" "ts_threshold_type t1 = ts_threshold_type t0"
proof -
  let ?is = "sort (hm_keys (p_signatures p))"
  let ?S = "\<lambda>i. the (hm_get (ts_signatures t) i)" and ?P = "\<lambda>i. the (hm_get (ts_public_keys t) i)"
  have set: "set ?is = dom (hm_get (ts_signatures t))"
    using persistsD(1) [OF p(1)] by (simp add: dom_map_of_conv_image_fst)
  have "(\<exists>v. hm_get (p_signatures p) i = Some v \<and> decode_signature K v = Inr (?S i))
      \<and> (\<exists>v. hm_get (p_public_keys p) i = Some v \<and> decode_public_key K v = Inr (?P i))
      \<and> i < ts_operator_count t0 \<and> \<not> has_signed i t0" if "i \<in> set ?is" for i
  proof -
    from that set obtain s where s: "hm_get (ts_signatures t) i = Some s" by auto
    moreover obtain k where k: "hm_get (ts_public_keys t) i = Some k"
      using s task_inv_dom [OF inv] by blast
    moreover have "i < ts_operator_count t"
      using s task_invD(4) [OF inv] by (metis hm_keys_iff option.distinct(1))
    ultimately show ?thesis
      using persistsD(3,4) [OF p(1)] t0 by (simp add: has_signed_bit)
  qed
  moreover have "distinct ?is" using p(2) by (simp add: persisted_wf_def hm_wf_def)
  ultimately have run: "restore_signatures K c p ?is t0 =
      Inr (fold (\<lambda>i. put_signature i (?S i) (?P i)) ?is t0)"
    using t0(3) by (intro restore_signatures_ok) auto
  have "hm_get (ts_signatures (fold (\<lambda>i. put_signature i (?S i) (?P i)) ?is t0)) = hm_get (ts_signatures t)"
    unfolding fold_put_sel set using t0 by (auto simp: fun_eq_iff domIff)
  moreover have "hm_get (ts_public_keys (fold (\<lambda>i. put_signature i (?S i) (?P i)) ?is t0)) = hm_get (ts_public_keys t)"
    unfolding fold_put_sel set task_inv_dom [OF inv, symmetric]
    using t0 by (auto simp: fun_eq_iff domIff)
  ultimately show ?thesis
    using run by (intro that [OF run]) (simp_all add: fold_put_sel)
qed

lemma from_persisted_persists:
  assumes inv: "task_inv t" and p: "persists K t p" "persisted_wf p"
  obtains u where "from_persisted K c p = Inr u" "task_inv u" "task_sim u t" "restored_times c p u"
proof -
  let ?t0 = "with_message_config (now_of (at_call c 0)) (p_service_id p) (p_call_id p) (p_output p)
      (p_message p) (p_signature_scheme p) (p_operator_count p) (p_threshold_type p)
      (Some (p_operator_stakes p)) None"
  have eqs: "p_service_id p = ts_service_id t" "p_call_id p = ts_call_id t" "p_output p = ts_output t"
    "p_message p = ts_message t" "p_signature_scheme p = ts_signature_scheme t"
    "p_operator_count p = ts_operator_count t" "p_threshold_type p = ts_threshold_type t"
    "parse_u256 K (p_signer_bitmap p) = Inr (ts_signer_bitmap t)"
    "hm_get (p_operator_stakes p) = hm_get (ts_operator_stakes t)"
    "p_total_stake p = ts_total_stake t" "p_submitted p = ts_submitted t"
    "p_expires_at_ms p = None \<longleftrightarrow> ts_expires_at t = None"
    using p(1) by (simp_all add: persists_def)
  have tot: "sum_list (hm_values (p_operator_stakes p)) = p_total_stake p"
    using sum_list_values_cong [of "p_operator_stakes p" "ts_operator_stakes t"] eqs p(2)
      task_invD(5,6) [OF inv] by (simp add: persisted_wf_def)
  obtain t1 where t1: "restore_signatures K (at_call c 1) p (sort (hm_keys (p_signatures p))) ?t0 = Inr t1"
    "hm_get (ts_signatures t1) = hm_get (ts_signatures t)"
    "hm_get (ts_public_keys t1) = hm_get (ts_public_keys t)"
    "ts_operator_stakes t1 = ts_operator_stakes ?t0" "ts_total_stake t1 = ts_total_stake ?t0"
    "ts_service_id t1 = ts_service_id ?t0" "ts_call_id t1 = ts_call_id ?t0"
    "ts_output t1 = ts_output ?t0" "ts_message t1 = ts_message ?t0"
    "ts_signature_scheme t1 = ts_signature_scheme ?t0"
    "ts_operator_count t1 = ts_operator_count ?t0" "ts_threshold_type t1 = ts_threshold_type ?t0"
    by (rule restore_signatures_persists [OF inv p, of ?t0 "at_call c 1"]) (simp_all add: eqs)
  have "task_inv ?t0"
    using p(2) by (intro with_message_config_inv) (simp add: persisted_wf_def)
  then have inv1: "task_inv t1"
    using restore_signatures_add_all [OF t1(1)] add_all_inv by blast
  have bm: "ts_signer_bitmap t1 = ts_signer_bitmap t"
    using task_inv_bitmap_eq [OF inv1 inv] t1(2) by simp
  let ?u = "t1\<lparr>ts_submitted := p_submitted p,
     ts_submitted_at := (case p_submitted_at_ms p of Some ms \<Rightarrow> Some (millis_to_instant (c [2]) ms)
       | None \<Rightarrow> if p_submitted p then Some (now_of (at_call c 3)) else None),
     ts_created_at := millis_to_instant (c [4]) (p_created_at_ms p),
     ts_expires_at := map_option (millis_to_instant (c [5])) (p_expires_at_ms p)\<rparr>"
  show ?thesis
  proof (rule that)
    show "from_persisted K c p = Inr ?u"
      using t1(1) bm tot eqs(8) persists_len [OF inv p] by (simp add: from_persisted_def Let_def)
    show "task_inv ?u" using inv1 by simp
    show "task_sim ?u t"
      using t1 bm tot eqs by (simp add: task_sim_def)
    show "restored_times c p ?u" by (simp add: restored_times_def)
  qed
qed

text \<open>
  C26: persisting a task never fails, and reading the persisted form back gives the same task: the same
  ids, output, message, scheme, operator set, threshold, bitmap, signatures, keys, stakes and
  submission flag; only the times are converted (to milliseconds and back).
\<close>

theorem persist_roundtrip:
  assumes "codec_ok K" and "task_inv t"
  shows "\<exists>p u. to_persisted K c t = Inr p \<and> from_persisted K c' p = Inr u \<and> task_sim u t \<and> task_inv u
    \<and> ts_created_at u = millis_to_instant (c' [4]) (instant_to_millis (c [1]) (ts_created_at t))
    \<and> ts_expires_at u =
        map_option (\<lambda>e. millis_to_instant (c' [5]) (instant_to_millis (c [2]) e)) (ts_expires_at t)"
proof -
  obtain p where p: "to_persisted K c t = Inr p"
    using to_persisted_total [OF assms(1)] by blast
  obtain u where u: "from_persisted K c' p = Inr u" "task_inv u" "task_sim u t" "restored_times c' p u"
    using from_persisted_persists [OF assms(2) to_persisted_persists [OF assms(1) p]
        to_persisted_wf [OF assms(2) p]] by blast
  from p have "p_created_at_ms p = instant_to_millis (c [1]) (ts_created_at t)"
    "p_expires_at_ms p = map_option (instant_to_millis (c [2])) (ts_expires_at t)"
    by (auto elim: to_persisted_Inr)
  with p u show ?thesis
    by (auto simp: restored_times_def option.map_comp comp_def)
qed

section \<open>Snapshots of the task map\<close>

definition state_sim :: "('s, 'p) agg_state \<Rightarrow> ('s, 'p) agg_state \<Rightarrow> bool" where
  "state_sim s u \<longleftrightarrow> (\<forall>tid. rel_option task_sim (hm_get s tid) (hm_get u tid))"

definition snapshot_of :: "('s, 'p) point_codec \<Rightarrow> ('s, 'p) agg_state \<Rightarrow> persisted list \<Rightarrow> bool" where
  "snapshot_of K s ps \<longleftrightarrow> distinct (map persisted_id ps) \<and> persisted_id ` set ps = dom (hm_get s)
     \<and> (\<forall>p \<in> set ps. persisted_wf p \<and> (\<exists>t. hm_get s (persisted_id p) = Some t \<and> persists K t p))"

lemma state_sim_refl [simp]: "state_sim s s"
  by (simp add: state_sim_def option.rel_refl)

lemma state_sim_trans: "state_sim s u \<Longrightarrow> state_sim u v \<Longrightarrow> state_sim s v"
  unfolding state_sim_def by (blast intro: rel_option_trans [of task_sim] task_sim_trans)

lemma snapshot_ok:
  assumes K: "codec_ok K" and inv: "agg_inv s"
  obtains ps where "snapshot K c s = Inr ps" "snapshot_of K s ps"
proof -
  let ?f = "\<lambda>t. to_persisted K (at_task c (ts_service_id t) (ts_call_id t)) t"
  let ?g = "\<lambda>t. projr (?f t)"
  have f: "?f t = Inr (?g t)" for t
    using to_persisted_total [OF K, of "at_task c (ts_service_id t) (ts_call_id t)" t] by auto
  have run: "snapshot K c s = Inr (map ?g (hm_values s))"
    unfolding snapshot_def by (rule res_collect_map) (rule f)
  have wf: "hm_wf s" by (rule agg_inv_wf [OF inv])
  have id: "persisted_id (?g t) = tid" if "(tid, t) \<in> set s" for tid t
    using that agg_invD(2) [OF inv, of tid t] to_persisted_id [OF f, of t] wf
    by (simp add: hm_in_set_iff)
  have ids: "map persisted_id (map ?g (hm_values s)) = map fst s"
    unfolding map_map by (rule map_cong [OF refl]) (use id in auto)
  have "snapshot_of K s (map ?g (hm_values s))"
    unfolding snapshot_of_def
  proof (intro conjI ballI)
    show "distinct (map persisted_id (map ?g (hm_values s)))"
      unfolding ids using wf by (simp add: hm_wf_def)
    show "persisted_id ` set (map ?g (hm_values s)) = dom (hm_get s)"
      unfolding set_map [of persisted_id, symmetric] ids by (simp add: dom_map_of_conv_image_fst)
  next
    fix p assume "p \<in> set (map ?g (hm_values s))"
    then obtain tid t where p: "p = ?g t" "(tid, t) \<in> set s" by auto
    then have t: "hm_get s tid = Some t" using wf by (simp add: hm_in_set_iff)
    show "persisted_wf p"
      using to_persisted_wf [OF agg_invD(1) [OF inv t] f] p by simp
    show "\<exists>t. hm_get s (persisted_id p) = Some t \<and> persists K t p"
      using t id [OF p(2)] to_persisted_persists [OF K f, of t] p by auto
  qed
  with run show ?thesis by (rule that)
qed

lemma recover_ok:
  assumes "agg_inv s" and "agg_inv acc" and "distinct (map persisted_id ps)"
    and "\<forall>p \<in> set ps. persisted_wf p \<and> (\<exists>t. hm_get s (persisted_id p) = Some t \<and> persists K t p)"
    and "\<forall>p \<in> set ps. hm_get acc (persisted_id p) = None"
  shows "\<exists>r. recover K c ps acc = Inr r \<and> agg_inv r \<and> (\<forall>tid. rel_option task_sim (hm_get r tid)
      (if tid \<in> persisted_id ` set ps then hm_get s tid else hm_get acc tid))"
  using assms
proof (induction ps arbitrary: acc)
  case Nil
  then show ?case by (simp add: option.rel_refl)
next
  case (Cons p ps)
  obtain t where t: "hm_get s (persisted_id p) = Some t" "persists K t p" "persisted_wf p"
    using Cons.prems(4) by auto
  obtain u where u: "from_persisted K (at_task c (p_service_id p) (p_call_id p)) p = Inr u"
    "task_inv u" "task_sim u t"
    using from_persisted_persists [OF agg_invD(1) [OF Cons.prems(1) t(1)] t(2,3)] by metis
  have id: "TaskId (ts_service_id u) (ts_call_id u) = persisted_id p"
    by (rule from_persisted_inv(2) [OF t(3) u(1)])
  let ?acc = "hm_insert (persisted_id p) u acc"
  have "agg_inv ?acc"
    using agg_inv_insert [OF Cons.prems(2) u(2)] id by simp
  moreover have "\<forall>q \<in> set ps. hm_get ?acc (persisted_id q) = None"
    using Cons.prems(3,5) by (auto simp: hm_get_insert image_iff)
  ultimately obtain r where r: "recover K c ps ?acc = Inr r" "agg_inv r"
    "\<forall>tid. rel_option task_sim (hm_get r tid)
      (if tid \<in> persisted_id ` set ps then hm_get s tid else hm_get ?acc tid)"
    using Cons.IH [of ?acc] Cons.prems by auto
  have "recover K c (p # ps) acc = Inr r"
    using u(1) id r(1) Cons.prems(5) by simp
  moreover have "rel_option task_sim (hm_get r tid)
      (if tid \<in> persisted_id ` set (p # ps) then hm_get s tid else hm_get acc tid)" for tid
    using r(3) [rule_format, of tid] t(1) u(3)
    by (auto simp: hm_get_insert option_rel_Some2 intro: task_sim_trans split: if_splits)
  ultimately show ?case using r(2) by blast
qed

lemma restore_ok:
  assumes "agg_inv s" and "snapshot_of K s ps"
  obtains s' where "restore K c ps x = (Inr (), s')" "agg_inv s'" "state_sim s' s"
proof -
  from recover_ok [OF assms(1) agg_inv_Nil, of ps K c] assms(2)
  obtain r where r: "recover K c ps [] = Inr r" "agg_inv r"
    "\<forall>tid. rel_option task_sim (hm_get r tid) (if tid \<in> dom (hm_get s) then hm_get s tid else hm_get [] tid)"
    by (auto simp: snapshot_of_def)
  have "rel_option task_sim (hm_get r tid) (hm_get s tid)" for tid
    using r(3) [rule_format, of tid] by (cases "hm_get s tid") (simp_all add: domIff)
  then have "state_sim r s" by (simp add: state_sim_def)
  with r(1,2) show ?thesis
    by (intro that [of r]) (simp_all add: restore_def)
qed

lemma recover_inv:
  "recover K c ps acc = Inr r \<Longrightarrow> \<forall>p \<in> set ps. persisted_wf p \<Longrightarrow> agg_inv acc \<Longrightarrow>
     agg_inv r \<and> (\<forall>tid. hm_get r tid \<noteq> None \<longleftrightarrow> hm_get acc tid \<noteq> None \<or> tid \<in> persisted_id ` set ps)"
proof (induction ps arbitrary: acc)
  case (Cons p ps)
  obtain u where u: "from_persisted K (at_task c (p_service_id p) (p_call_id p)) p = Inr u"
    using Cons.prems(1) by (auto simp: res_bind_Inr_iff)
  have wf: "persisted_wf p" using Cons.prems(2) by simp
  note inv = from_persisted_inv [OF wf u]
  have "recover K c ps (hm_insert (persisted_id p) u acc) = Inr r"
    using Cons.prems(1) u inv(2) by (simp add: Let_def split: if_splits)
  moreover have "agg_inv (hm_insert (persisted_id p) u acc)"
    using agg_inv_insert [OF Cons.prems(3) inv(1)] inv(2) by simp
  ultimately show ?case
    using Cons.IH Cons.prems(2) by (auto simp: hm_get_insert)
qed simp

text \<open>
  C29: taking a snapshot of a reachable task map always succeeds, and restoring it (whatever the
  state in between) brings back the same tasks, apart from the conversion of their times; the
  restored map satisfies the invariant of the manager.
\<close>

theorem snapshot_restore:
  assumes "codec_ok K" and "agg_reachable s"
  shows "\<exists>ps s'. snapshot K c s = Inr ps \<and> restore K c' ps x = (Inr (), s')
    \<and> state_sim s' s \<and> agg_inv s'"
  using snapshot_ok [OF assms(1) agg_reachable_agg_inv [OF assms(2)]]
    restore_ok [OF agg_reachable_agg_inv [OF assms(2)]] by metis

text \<open>
  C30: restoring is safe on arbitrary stored data. If the data is accepted, the resulting map
  satisfies the invariant of the manager (in particular bitmaps, signatures, keys and stakes agree) and has
  exactly the stored ids, which are distinct; if anything is inconsistent, an error is returned
  and the tasks in memory stay as they were.
\<close>

theorem restore_validates:
  assumes "\<forall>p \<in> set ps. persisted_wf p" and "restore K c ps s = (res, s')"
  shows "case res of
      Inr _ \<Rightarrow> agg_inv s' \<and> dom (hm_get s') = persisted_id ` set ps \<and> distinct (map persisted_id ps)
    | Inl _ \<Rightarrow> s' = s"
proof (cases "recover K c ps []")
  case (Inl e)
  then show ?thesis using assms(2) by (auto simp: restore_def)
next
  case (Inr r)
  have dist: "distinct (map persisted_id qs) \<and> (\<forall>q \<in> set qs. hm_get acc (persisted_id q) = None)"
    if "recover K c qs acc = Inr r" "\<forall>p \<in> set qs. persisted_wf p" for qs acc
    using that
  proof (induction qs arbitrary: acc)
    case (Cons q qs)
    obtain u where u: "from_persisted K (at_task c (p_service_id q) (p_call_id q)) q = Inr u"
      using Cons.prems(1) by (auto simp: res_bind_Inr_iff)
    have "TaskId (ts_service_id u) (ts_call_id u) = persisted_id q"
      using from_persisted_inv(2) [OF _ u] Cons.prems(2) by simp
    then have "recover K c qs (hm_insert (persisted_id q) u acc) = Inr r" "hm_get acc (persisted_id q) = None"
      using Cons.prems(1) u by (simp_all add: Let_def split: if_splits)
    with Cons.IH [OF this(1)] Cons.prems(2) show ?case
      by (auto simp: hm_get_insert split: if_splits)
  qed simp
  note inv = recover_inv [OF Inr assms(1) agg_inv_Nil]
  have "dom (hm_get r) = persisted_id ` set ps"
    by (rule set_eqI) (use inv in \<open>simp only: domIff, simp\<close>)
  moreover have "res = Inr ()" "s' = r" using assms(2) Inr by (simp_all add: restore_def)
  ultimately show ?thesis
    using inv dist [OF Inr assms(1)] by simp
qed

section \<open>A concrete codec\<close>

text \<open>Points are numbers; points and bitmaps are written in unary, bytes as characters.\<close>

definition demo_codec :: "(nat, nat) point_codec" where
  "demo_codec = \<lparr>pc_sig_ser = (\<lambda>n. Inr (replicate n 0)), pc_sig_de = (\<lambda>bs. Inr (length bs)),
     pc_pk_ser = (\<lambda>n. Inr (replicate n 0)), pc_pk_de = (\<lambda>bs. Inr (length bs)),
     pc_hex_encode = map (\<lambda>b. char_of (unat b)),
     pc_hex_decode = (\<lambda>cs. Inr (map (\<lambda>c. of_nat (of_char c)) cs)),
     pc_u256_fmt = (\<lambda>w. ''0x'' @ replicate (unat w) CHR ''1''),
     pc_u256_parse = (\<lambda>ds. Inr (of_nat (length ds)))\<rparr>"

lemma byte_mod [simp]: "of_nat (unat (b :: u8) mod 256) = b"
proof -
  have "unat b < 2 ^ LENGTH(8)" by (rule unsigned_less)
  then show ?thesis by simp
qed

lemma demo_codec_ok: "codec_ok demo_codec"
  by (simp add: codec_ok_def demo_codec_def comp_def)

definition demo_clock :: "int \<Rightarrow> clock" where
  "demo_clock t = (\<lambda>path. \<lparr>rd_instant = t, rd_millis = of_int ((t + 5000000000) div 1000000)\<rparr>)"

theorem persisted_time_accurate_witness:
  "\<bar>millis_to_instant (demo_clock 7777777 []) (instant_to_millis (demo_clock 1234567 []) 9999999)
     - 9999999\<bar> < 2000000"
  by (rule persisted_time_accurate [of 5000000000]) (simp_all add: in_step_def demo_clock_def)

theorem persist_roundtrip_witness:
  "\<exists>p u. to_persisted demo_codec (demo_clock 20) demo_task = Inr p
     \<and> from_persisted demo_codec (demo_clock 30) p = Inr u \<and> task_sim u demo_task"
proof -
  have "hm_get demo_signed (TaskId 7 1) = Some demo_task" by code_simp
  then have "task_inv demo_task"
    using agg_invD(1) [OF agg_reachable_agg_inv [OF demo_reachable(2)]] by blast
  from persist_roundtrip [OF demo_codec_ok this] show ?thesis by blast
qed

theorem snapshot_restore_witness:
  "\<exists>ps s'. snapshot demo_codec (demo_clock 20) demo_signed = Inr ps
     \<and> restore demo_codec (demo_clock 30) ps [] = (Inr (), s') \<and> state_sim s' demo_signed"
  using snapshot_restore [OF demo_codec_ok demo_reachable(2)] by blast

definition demo_persisted :: persisted where
  "demo_persisted = \<lparr>p_service_id = 7, p_call_id = 1, p_output = [1], p_message = [2],
     p_signature_scheme = ArkworksSha256, p_operator_count = 2, p_threshold_type = Count 1,
     p_signer_bitmap = ''0x1'', p_signatures = [(0, ''0xa'')], p_public_keys = [(0, ''0xbc'')],
     p_operator_stakes = [(0, 1), (1, 1)], p_total_stake = 2, p_submitted = False,
     p_submitted_at_ms = None, p_created_at_ms = 5000, p_expires_at_ms = Some 6000\<rparr>"

theorem restore_validates_witness:
  "persisted_wf demo_persisted \<and> fst (restore demo_codec (demo_clock 30) [demo_persisted] []) = Inr ()
   \<and> agg_inv (snd (restore demo_codec (demo_clock 30) [demo_persisted] []))"
proof -
  let ?r = "restore demo_codec (demo_clock 30) [demo_persisted] []"
  have "fst ?r = Inr ()"
    by (simp add: restore_def from_persisted_def demo_codec_def demo_persisted_def parse_u256_def
        with_message_config_def decode_signature_def decode_bytes_def decode_public_key_def
        add_signature_def has_signed_def is_expired_def)
  moreover have "persisted_wf demo_persisted"
    by (simp add: demo_persisted_def persisted_wf_def hm_wf_def)
  ultimately show ?thesis
    using restore_validates [of "[demo_persisted]" demo_codec "demo_clock 30" "[]", OF _ prod.collapse [symmetric]]
    by simp
qed

end
