(* ===== verification/Agg_Backend.thy ===== *)
theory Agg_Backend
  imports Agg_Persistence
begin

text \<open>
  The persistence backends of \<open>crates/tangle-aggregation-svc/src/persistence.rs\<close>: the trait
  \<open>PersistenceBackend\<close> as a record of operations and as the locale \<open>persistence_backend\<close> with
  the laws its clients need, \<open>NoPersistence\<close>, and \<open>FilePersistence\<close> over a file system with one
  file, its temporary sibling and an arbitrary schedule of I/O faults. \<open>serde_json\<close> is the
  parameter \<open>json\<close>; the type of file contents is left open.
\<close>

section \<open>The trait\<close>

record 'b backend =
  be_save :: "persisted \<Rightarrow> 'b \<Rightarrow> (persistence_error + unit) \<times> 'b"
  be_load :: "task_id \<Rightarrow> 'b \<Rightarrow> (persistence_error + persisted option) \<times> 'b"
  be_delete :: "task_id \<Rightarrow> 'b \<Rightarrow> (persistence_error + unit) \<times> 'b"
  be_load_all :: "'b \<Rightarrow> (persistence_error + persisted list) \<times> 'b"
  be_flush :: "'b \<Rightarrow> (persistence_error + unit) \<times> 'b"

definition task_exists :: "'b backend \<Rightarrow> task_id \<Rightarrow> 'b \<Rightarrow> (persistence_error + bool) \<times> 'b" where
  "task_exists P tid b =
     (let (r, b') = be_load P tid b in (res_bind r (\<lambda>q. Inr (q \<noteq> None)), b'))"

section \<open>No persistence\<close>

definition no_backend :: "unit backend" where
  "no_backend =
     \<lparr>be_save = (\<lambda>_ b. (Inr (), b)), be_load = (\<lambda>_ b. (Inr None, b)),
      be_delete = (\<lambda>_ b. (Inr (), b)), be_load_all = (\<lambda>b. (Inr [], b)),
      be_flush = (\<lambda>b. (Inr (), b))\<rparr>"

section \<open>One JSON file\<close>

record 'c json =
  js_empty :: "'c \<Rightarrow> bool"
  js_to_string :: "(string, persisted) hmap \<Rightarrow> string + 'c"
  js_from_str :: "'c \<Rightarrow> string + (string, persisted) hmap"

record 'c file_system =
  fs_file :: "'c option"
  fs_tmp :: "'c option"
  fs_tick :: nat

text \<open>What goes wrong in one call: the metadata lookup of \<open>Path::exists\<close>, the read, the creation of the
  directory, the write of the temporary file (which leaves arbitrary contents there) and the
  rename.\<close>

record 'c io_faults =
  io_exists :: bool
  io_read :: "string option"
  io_mkdir :: "string option"
  io_write :: "('c option \<times> string) option"
  io_rename :: "string option"

definition next_tick :: "'c file_system \<Rightarrow> 'c file_system" where
  "next_tick s = s\<lparr>fs_tick := Suc (fs_tick s)\<rparr>"

definition read_all ::
  "'c json \<Rightarrow> (nat \<Rightarrow> 'c io_faults) \<Rightarrow> 'c file_system \<Rightarrow>
   (persistence_error + (string, persisted) hmap) \<times> 'c file_system" where
  "read_all js env s =
     (let f = env (fs_tick s) in
      (case fs_file s of
         None \<Rightarrow> Inr []
       | Some contents \<Rightarrow>
           if io_exists f then Inr []
           else (case io_read f of
                   Some e \<Rightarrow> Inl (Io e)
                 | None \<Rightarrow> if js_empty js contents then Inr []
                          else res_map_err Serialization (js_from_str js contents)),
       next_tick s))"

definition write_all ::
  "'c json \<Rightarrow> (nat \<Rightarrow> 'c io_faults) \<Rightarrow> (string, persisted) hmap \<Rightarrow> 'c file_system \<Rightarrow>
   (persistence_error + unit) \<times> 'c file_system" where
  "write_all js env tasks s =
     (let f = env (fs_tick s); s' = next_tick s in
      case io_mkdir f of
        Some e \<Rightarrow> (Inl (Io e), s')
      | None \<Rightarrow>
          (case js_to_string js tasks of
             Inl e \<Rightarrow> (Inl (Serialization e), s')
           | Inr contents \<Rightarrow>
               (case io_write f of
                  Some (left, e) \<Rightarrow> (Inl (Io e), s'\<lparr>fs_tmp := left\<rparr>)
                | None \<Rightarrow>
                    (case io_rename f of
                       Some e \<Rightarrow> (Inl (Io e), s'\<lparr>fs_tmp := Some contents\<rparr>)
                     | None \<Rightarrow> (Inr (), s'\<lparr>fs_file := Some contents, fs_tmp := None\<rparr>)))))"

definition task_key :: "task_id \<Rightarrow> string" where
  "task_key tid = show_u64 (task_service_id tid) @ '':'' @ show_u64 (task_call_id tid)"

definition file_save ::
  "'c json \<Rightarrow> (nat \<Rightarrow> 'c io_faults) \<Rightarrow> persisted \<Rightarrow> 'c file_system \<Rightarrow>
   (persistence_error + unit) \<times> 'c file_system" where
  "file_save js env p s =
     (case read_all js env s of
        (Inl e, s) \<Rightarrow> (Inl e, s)
      | (Inr tasks, s) \<Rightarrow>
          write_all js env (hm_insert (task_key (TaskId (p_service_id p) (p_call_id p))) p tasks) s)"

definition file_load ::
  "'c json \<Rightarrow> (nat \<Rightarrow> 'c io_faults) \<Rightarrow> task_id \<Rightarrow> 'c file_system \<Rightarrow>
   (persistence_error + persisted option) \<times> 'c file_system" where
  "file_load js env tid s =
     (let (r, s) = read_all js env s in (res_bind r (\<lambda>tasks. Inr (hm_get tasks (task_key tid))), s))"

definition file_delete ::
  "'c json \<Rightarrow> (nat \<Rightarrow> 'c io_faults) \<Rightarrow> task_id \<Rightarrow> 'c file_system \<Rightarrow>
   (persistence_error + unit) \<times> 'c file_system" where
  "file_delete js env tid s =
     (case read_all js env s of
        (Inl e, s) \<Rightarrow> (Inl e, s)
      | (Inr tasks, s) \<Rightarrow> write_all js env (hm_remove (task_key tid) tasks) s)"

definition file_load_all ::
  "'c json \<Rightarrow> (nat \<Rightarrow> 'c io_faults) \<Rightarrow> 'c file_system \<Rightarrow>
   (persistence_error + persisted list) \<times> 'c file_system" where
  "file_load_all js env s =
     (let (r, s) = read_all js env s in (res_bind r (\<lambda>tasks. Inr (hm_values tasks)), s))"

definition file_flush :: "'c file_system \<Rightarrow> (persistence_error + unit) \<times> 'c file_system" where
  "file_flush s = (Inr (), s)"

definition file_backend ::
  "'c json \<Rightarrow> (nat \<Rightarrow> 'c io_faults) \<Rightarrow> 'c file_system backend" where
  "file_backend js env =
     \<lparr>be_save = file_save js env, be_load = file_load js env, be_delete = file_delete js env,
      be_load_all = file_load_all js env, be_flush = file_flush\<rparr>"

lemmas file_op_defs = file_save_def file_load_def file_delete_def file_load_all_def file_flush_def

section \<open>The contract\<close>

text \<open>The same stored task: hash maps are compared by their entries.\<close>

definition same_persisted :: "persisted \<Rightarrow> persisted \<Rightarrow> bool" where
  "same_persisted p q \<longleftrightarrow>
     p\<lparr>p_signatures := [], p_public_keys := [], p_operator_stakes := []\<rparr>
       = q\<lparr>p_signatures := [], p_public_keys := [], p_operator_stakes := []\<rparr>
     \<and> hm_get (p_signatures p) = hm_get (p_signatures q)
     \<and> hm_get (p_public_keys p) = hm_get (p_public_keys q)
     \<and> hm_get (p_operator_stakes p) = hm_get (p_operator_stakes q)"

type_synonym store = "task_id \<Rightarrow> persisted option"

definition same_store :: "store \<Rightarrow> store \<Rightarrow> bool" where
  "same_store f g \<longleftrightarrow> (\<forall>tid. rel_option same_persisted (f tid) (g tid))"

lemma same_persisted_refl [simp]: "same_persisted p p"
  by (simp add: same_persisted_def)

lemma same_persisted_trans: "same_persisted p q \<Longrightarrow> same_persisted q r \<Longrightarrow> same_persisted p r"
  by (simp add: same_persisted_def)

lemma same_persisted_id: "same_persisted p q \<Longrightarrow> persisted_id p = persisted_id q"
  by (cases p, cases q) (simp add: same_persisted_def persisted_id_def)

lemma same_persisted_persists: "same_persisted p q \<Longrightarrow> persists K t p = persists K t q"
  by (cases p, cases q) (simp add: same_persisted_def persists_def)

lemma same_store_refl [simp]: "same_store f f"
  by (simp add: same_store_def option.rel_refl)

lemma same_store_trans: "same_store f g \<Longrightarrow> same_store g h \<Longrightarrow> same_store f h"
  unfolding same_store_def by (blast intro: rel_option_trans [of same_persisted] same_persisted_trans)

lemma same_store_upd:
  "same_store f g \<Longrightarrow> same_store (f(tid := x)) (g(tid := x))"
  by (auto simp: same_store_def option.rel_refl)

locale persistence_backend =
  fixes P :: "'b backend" and stored :: "'b \<Rightarrow> store" and ok :: "'b \<Rightarrow> bool"
  assumes save_ok: "ok b \<Longrightarrow> persisted_wf p \<Longrightarrow> be_save P p b = (Inr u, b') \<Longrightarrow>
      ok b' \<and> same_store (stored b') ((stored b)(persisted_id p \<mapsto> p))"
    and save_err: "ok b \<Longrightarrow> be_save P p b = (Inl e, b') \<Longrightarrow> ok b' \<and> stored b' = stored b"
    and delete_ok: "ok b \<Longrightarrow> be_delete P tid b = (Inr u, b') \<Longrightarrow>
      ok b' \<and> same_store (stored b') ((stored b)(tid := None))"
    and delete_err: "ok b \<Longrightarrow> be_delete P tid b = (Inl e, b') \<Longrightarrow> ok b' \<and> stored b' = stored b"
    and flush_keeps: "ok b \<Longrightarrow> be_flush P b = (r, b') \<Longrightarrow> ok b' \<and> stored b' = stored b"
    and load_keeps: "ok b \<Longrightarrow> be_load P tid b = (lr, b') \<Longrightarrow> ok b' \<and> stored b' = stored b"
    and load_ok: "ok b \<Longrightarrow> be_load P tid b = (Inr q, b') \<Longrightarrow> q = stored b tid"
    and load_all_ok: "ok b \<Longrightarrow> be_load_all P b = (Inr ps, b') \<Longrightarrow>
      ok b' \<and> stored b' = stored b \<and> distinct (map persisted_id ps) \<and> (\<forall>p \<in> set ps. persisted_wf p)
      \<and> (\<forall>p tid. stored b tid = Some p \<longleftrightarrow> p \<in> set ps \<and> persisted_id p = tid)"
begin

lemma save_then_load:
  assumes "ok b" "persisted_wf p" "be_save P p b = (Inr u, b')" "be_load P (persisted_id p) b' = (Inr q, b'')"
  shows "\<exists>p'. q = Some p' \<and> same_persisted p' p"
proof -
  note s = save_ok [OF assms(1,2,3)]
  have "rel_option same_persisted (stored b' (persisted_id p)) (Some p)"
    using s by (auto simp: same_store_def dest: spec [of _ "persisted_id p"])
  then show ?thesis
    using load_ok [OF conjunct1 [OF s] assms(4)] by (simp add: option_rel_Some2)
qed

lemma save_other:
  assumes "ok b" "persisted_wf p" "be_save P p b = (Inr u, b')" "tid \<noteq> persisted_id p"
  shows "rel_option same_persisted (stored b' tid) (stored b tid)"
  using save_ok [OF assms(1,2,3)] assms(4) by (auto simp: same_store_def dest: spec [of _ tid])

end

section \<open>The file backend keeps the contract\<close>

lemma task_key_inj: "task_key t = task_key u \<longleftrightarrow> t = u"
proof
  assume eq: "task_key t = task_key u"
  have "show_u64 (task_service_id t) = show_u64 (task_service_id u)
      \<and> show_u64 (task_call_id t) = show_u64 (task_call_id u)"
    by (rule split_at_char [of "CHR '':''"])
      (use eq in \<open>simp_all add: show_u64_no_colon task_key_def\<close>)
  then show "t = u"
    by (intro task_id.expand) (blast dest: show_u64_inj)
qed simp

definition file_contents :: "'c json \<Rightarrow> 'c file_system \<Rightarrow> string + (string, persisted) hmap" where
  "file_contents js s =
     (case fs_file s of
        None \<Rightarrow> Inr []
      | Some c \<Rightarrow> if js_empty js c then Inr [] else js_from_str js c)"

definition file_stored :: "'c json \<Rightarrow> 'c file_system \<Rightarrow> store" where
  "file_stored js s tid =
     (case file_contents js s of Inl _ \<Rightarrow> None | Inr m \<Rightarrow> hm_get m (task_key tid))"

definition entries_ok :: "(string, persisted) hmap \<Rightarrow> bool" where
  "entries_ok m \<longleftrightarrow> hm_wf m
     \<and> (\<forall>k p. hm_get m k = Some p \<longrightarrow> k = task_key (persisted_id p) \<and> persisted_wf p)"

definition file_ok :: "'c json \<Rightarrow> 'c file_system \<Rightarrow> bool" where
  "file_ok js s \<longleftrightarrow> (\<exists>m. file_contents js s = Inr m \<and> entries_ok m)"

text \<open>What is relied on of \<open>serde_json\<close>: the printed text is not empty and parses back to a map
  with the same entries.\<close>

definition json_ok :: "'c json \<Rightarrow> bool" where
  "json_ok js \<longleftrightarrow>
     (\<forall>m c. hm_wf m \<longrightarrow> (\<forall>p \<in> set (hm_values m). persisted_wf p) \<longrightarrow> js_to_string js m = Inr c \<longrightarrow>
        \<not> js_empty js c
        \<and> (\<exists>m'. js_from_str js c = Inr m' \<and> hm_wf m' \<and> (\<forall>p \<in> set (hm_values m'). persisted_wf p)
              \<and> (\<forall>k. rel_option same_persisted (hm_get m' k) (hm_get m k))))"

lemma entries_ok_values: "entries_ok m \<Longrightarrow> \<forall>p \<in> set (hm_values m). persisted_wf p"
  unfolding entries_ok_def by (auto simp: hm_in_set_iff)

lemma entries_ok_insert:
  "entries_ok m \<Longrightarrow> persisted_wf p \<Longrightarrow> entries_ok (hm_insert (task_key (persisted_id p)) p m)"
  by (auto simp: entries_ok_def hm_wf_insert)

lemma entries_ok_remove: "entries_ok m \<Longrightarrow> entries_ok (hm_remove k m)"
  by (auto simp: entries_ok_def hm_wf_remove split: if_splits)

lemma entries_ok_same:
  assumes "entries_ok m" and "hm_wf m'" and "\<forall>p \<in> set (hm_values m'). persisted_wf p"
    and "\<forall>k. rel_option same_persisted (hm_get m' k) (hm_get m k)"
  shows "entries_ok m'"
  unfolding entries_ok_def
proof (intro conjI allI impI)
  fix k p assume p: "hm_get m' k = Some p"
  with assms(4) obtain q where "hm_get m k = Some q" "same_persisted p q"
    by (metis option_rel_Some1)
  then show "k = task_key (persisted_id p)"
    using assms(1) same_persisted_id by (auto simp: entries_ok_def)
  show "persisted_wf p"
    using assms(3) map_of_SomeD [OF p] by force
qed (use assms(2) in simp)

lemma write_all_file:
  "write_all js env m s = (r, s') \<Longrightarrow>
     (r \<noteq> Inr () \<longrightarrow> fs_file s' = fs_file s)
     \<and> (r = Inr () \<longrightarrow> (\<exists>c. js_to_string js m = Inr c \<and> fs_file s' = Some c))"
  by (auto simp: write_all_def next_tick_def Let_def split: option.splits sum.splits prod.splits)

lemma read_all_file: "read_all js env s = (r, s') \<Longrightarrow> fs_file s' = fs_file s"
  by (auto simp: read_all_def next_tick_def Let_def)

lemma file_load_file: "file_load js env tid s = (r, s') \<Longrightarrow> fs_file s' = fs_file s"
  by (auto simp: file_load_def split: prod.splits dest: read_all_file)

locale file_store =
  fixes js :: "'c json" and env :: "nat \<Rightarrow> 'c io_faults"
  assumes json: "json_ok js" and metadata: "\<not> io_exists (env n)"
begin

lemma read_all_cases:
  assumes "read_all js env s = (r, s')"
  shows "fs_file s' = fs_file s" and "r = Inr m \<Longrightarrow> file_contents js s = Inr m"
  using assms metadata
  by (auto simp: read_all_def file_contents_def next_tick_def Let_def res_map_err_Inr_iff
      split: option.splits if_splits)

lemma write_all_err:
  "write_all js env m s = (Inl e, s') \<Longrightarrow> fs_file s' = fs_file s"
  by (auto simp: write_all_def next_tick_def Let_def split: option.splits sum.splits prod.splits)

lemma write_all_ok:
  assumes "write_all js env m s = (Inr u, s')" and "entries_ok m"
  shows "\<exists>m'. file_contents js s' = Inr m' \<and> entries_ok m'
    \<and> (\<forall>k. rel_option same_persisted (hm_get m' k) (hm_get m k))"
proof -
  from assms(1) obtain c where c: "js_to_string js m = Inr c" "fs_file s' = Some c"
    by (auto simp: write_all_def next_tick_def Let_def split: option.splits sum.splits prod.splits)
  have "hm_wf m" using assms(2) by (simp add: entries_ok_def)
  with json c(1) entries_ok_values [OF assms(2)] obtain m' where "\<not> js_empty js c"
    "js_from_str js c = Inr m'" "hm_wf m'" "\<forall>p \<in> set (hm_values m'). persisted_wf p"
    "\<forall>k. rel_option same_persisted (hm_get m' k) (hm_get m k)"
    unfolding json_ok_def by blast
  then show ?thesis
    using c(2) entries_ok_same [OF assms(2)] by (auto simp: file_contents_def)
qed

lemma file_same:
  assumes "fs_file s' = fs_file s" and "file_ok js s"
  shows "file_ok js s' \<and> file_stored js s' = file_stored js s"
  using assms by (simp add: file_ok_def file_stored_def file_contents_def fun_eq_iff)

lemma write_all_stored:
  assumes "write_all js env m s = (Inr u, s')" and "entries_ok m"
  shows "file_ok js s' \<and> same_store (file_stored js s') (\<lambda>tid. hm_get m (task_key tid))"
  using write_all_ok [OF assms] by (auto simp: file_ok_def file_stored_def same_store_def)

lemma file_save_ok:
  assumes "file_ok js s" "persisted_wf p" "file_save js env p s = (Inr u, s')"
  shows "file_ok js s' \<and> same_store (file_stored js s') ((file_stored js s)(persisted_id p \<mapsto> p))"
proof -
  from assms(3) obtain m s1 where r: "read_all js env s = (Inr m, s1)"
    and w: "write_all js env (hm_insert (task_key (persisted_id p)) p m) s1 = (Inr u, s')"
    by (auto simp: file_save_def persisted_id_def split: prod.splits sum.splits)
  have m: "file_contents js s = Inr m" using read_all_cases(2) [OF r] by simp
  then have "entries_ok m" using assms(1) by (auto simp: file_ok_def)
  moreover have "(\<lambda>tid. hm_get (hm_insert (task_key (persisted_id p)) p m) (task_key tid))
      = (file_stored js s)(persisted_id p \<mapsto> p)"
    using m by (auto simp: file_stored_def fun_eq_iff task_key_inj)
  ultimately show ?thesis
    using write_all_stored [OF w entries_ok_insert [OF _ assms(2)]] by simp
qed

lemma file_delete_ok:
  assumes "file_ok js s" "file_delete js env tid s = (Inr u, s')"
  shows "file_ok js s' \<and> same_store (file_stored js s') ((file_stored js s)(tid := None))"
proof -
  from assms(2) obtain m s1 where r: "read_all js env s = (Inr m, s1)"
    and w: "write_all js env (hm_remove (task_key tid) m) s1 = (Inr u, s')"
    by (auto simp: file_delete_def split: prod.splits sum.splits)
  have m: "file_contents js s = Inr m" using read_all_cases(2) [OF r] by simp
  then have "entries_ok m" using assms(1) by (auto simp: file_ok_def)
  moreover have "(\<lambda>t. hm_get (hm_remove (task_key tid) m) (task_key t))
      = (file_stored js s)(tid := None)"
    using m by (auto simp: file_stored_def fun_eq_iff task_key_inj)
  ultimately show ?thesis
    using write_all_stored [OF w entries_ok_remove] by simp
qed

lemma file_err_file:
  "file_save js env p s = (Inl e, s') \<Longrightarrow> fs_file s' = fs_file s"
  "file_delete js env tid s = (Inl e, s') \<Longrightarrow> fs_file s' = fs_file s"
  unfolding file_save_def file_delete_def
  by (auto split: prod.splits sum.splits dest!: read_all_cases(1) write_all_err)

lemma file_load_all_ok:
  assumes "file_ok js s" "file_load_all js env s = (Inr ps, s')"
  shows "file_ok js s' \<and> file_stored js s' = file_stored js s
    \<and> distinct (map persisted_id ps) \<and> (\<forall>p \<in> set ps. persisted_wf p)
    \<and> (\<forall>p tid. file_stored js s tid = Some p \<longleftrightarrow> p \<in> set ps \<and> persisted_id p = tid)"
proof -
  from assms(2) obtain m where r: "read_all js env s = (Inr m, s')" and ps: "ps = hm_values m"
    by (auto simp: file_load_all_def res_bind_Inr_iff split: prod.splits)
  have m: "file_contents js s = Inr m" using read_all_cases(2) [OF r] by simp
  then have ok: "entries_ok m" using assms(1) by (auto simp: file_ok_def)
  have wf: "hm_wf m" and key: "\<And>k p. (k, p) \<in> set m \<Longrightarrow> k = task_key (persisted_id p)"
    using ok by (auto simp: entries_ok_def hm_in_set_iff)
  have keys: "map task_key (map persisted_id ps) = map fst m"
    unfolding ps map_map by (rule map_cong [OF refl]) (use key in auto)
  have "distinct (map task_key (map persisted_id ps))"
    unfolding keys using wf by (simp add: hm_wf_def)
  then have "distinct (map persisted_id ps)"
    using distinct_map [of task_key "map persisted_id ps"] by blast
  moreover have "file_stored js s tid = Some p \<longleftrightarrow> p \<in> set ps \<and> persisted_id p = tid" for p tid
  proof -
    have "hm_get m (task_key tid) = Some p \<longleftrightarrow> (task_key tid, p) \<in> set m"
      using wf by (simp add: hm_in_set_iff)
    also have "\<dots> \<longleftrightarrow> p \<in> set ps \<and> persisted_id p = tid"
      using key by (force simp: ps task_key_inj)
    finally show ?thesis using m by (simp add: file_stored_def)
  qed
  ultimately show ?thesis
    using file_same [OF read_all_cases(1) [OF r] assms(1)] entries_ok_values [OF ok] ps by simp
qed

end

sublocale file_store \<subseteq> fb: persistence_backend "file_backend js env" "file_stored js" "file_ok js"
proof
  fix b b' :: "'c file_system" and p u e tid r lr q ps
  assume ok: "file_ok js b"
  show "be_save (file_backend js env) p b = (Inr u, b') \<Longrightarrow> persisted_wf p \<Longrightarrow>
      file_ok js b' \<and> same_store (file_stored js b') ((file_stored js b)(persisted_id p \<mapsto> p))"
    using file_save_ok [OF ok] by (simp add: file_backend_def)
  show "be_save (file_backend js env) p b = (Inl e, b') \<Longrightarrow> file_ok js b' \<and> file_stored js b' = file_stored js b"
    using file_same [OF file_err_file(1) ok] by (simp add: file_backend_def)
  show "be_delete (file_backend js env) tid b = (Inr u, b') \<Longrightarrow>
      file_ok js b' \<and> same_store (file_stored js b') ((file_stored js b)(tid := None))"
    using file_delete_ok [OF ok] by (simp add: file_backend_def)
  show "be_delete (file_backend js env) tid b = (Inl e, b') \<Longrightarrow> file_ok js b' \<and> file_stored js b' = file_stored js b"
    using file_same [OF file_err_file(2) ok] by (simp add: file_backend_def)
  show "be_flush (file_backend js env) b = (r, b') \<Longrightarrow> file_ok js b' \<and> file_stored js b' = file_stored js b"
    using ok by (auto simp: file_backend_def file_flush_def)
  show "be_load (file_backend js env) tid b = (lr, b') \<Longrightarrow> file_ok js b' \<and> file_stored js b' = file_stored js b"
    using file_same [OF file_load_file ok] by (simp add: file_backend_def)
  show "be_load (file_backend js env) tid b = (Inr q, b') \<Longrightarrow> q = file_stored js b tid"
    by (auto simp: file_backend_def file_load_def file_stored_def res_bind_Inr_iff split: prod.splits
        dest!: read_all_cases(2))
  show "be_load_all (file_backend js env) b = (Inr ps, b') \<Longrightarrow>
      file_ok js b' \<and> file_stored js b' = file_stored js b
      \<and> distinct (map persisted_id ps) \<and> (\<forall>p \<in> set ps. persisted_wf p)
      \<and> (\<forall>p tid. file_stored js b tid = Some p \<longleftrightarrow> p \<in> set ps \<and> persisted_id p = tid)"
    using file_load_all_ok [OF ok] by (simp add: file_backend_def)
qed

section \<open>Properties of the file backend\<close>

text \<open>
  C7: the file is a map from task ids to tasks, whatever I/O faults occur (metadata lookups apart). A
  save that succeeds changes exactly the entry of its task, a delete that succeeds removes
  exactly that entry, an operation that reports an error changes nothing, and a load returns
  what is stored.
\<close>

theorem file_backend_is_map:
  assumes "json_ok js" and "\<forall>n. \<not> io_exists (env n)" and "file_ok js s" and "persisted_wf p"
    and "file_save js env p s = (r1, s1)" and "file_delete js env tid s = (r2, s2)"
    and "file_load js env tid s = (r3, s3)"
  shows "file_ok js s1 \<and> file_ok js s2 \<and> file_stored js s3 = file_stored js s
    \<and> same_store (file_stored js s1)
        (if r1 = Inr () then (file_stored js s)(persisted_id p \<mapsto> p) else file_stored js s)
    \<and> same_store (file_stored js s2)
        (if r2 = Inr () then (file_stored js s)(tid := None) else file_stored js s)
    \<and> (\<forall>q. r3 = Inr q \<longrightarrow> q = file_stored js s tid)"
proof -
  have loc: "file_store js env" using assms(1,2) by unfold_locales auto
  note laws = file_store.file_save_ok [OF loc assms(3,4)] file_store.file_delete_ok [OF loc assms(3)]
    file_store.file_same [OF loc _ assms(3)]
  have err: "r1 = Inl e \<Longrightarrow> file_ok js s1 \<and> file_stored js s1 = file_stored js s"
    "r2 = Inl e \<Longrightarrow> file_ok js s2 \<and> file_stored js s2 = file_stored js s" for e
    by (rule laws(3), rule file_store.file_err_file [OF loc], use assms(5,6) in simp)+
  have 3: "fs_file s3 = fs_file s" by (rule file_load_file [OF assms(7)])
  have load: "q = file_stored js s tid" if "r3 = Inr q" for q
  proof -
    have "file_load js env tid s = (Inr q, s3)" using assms(7) that by simp
    then obtain m where "read_all js env s = (Inr m, s3)" "q = hm_get m (task_key tid)"
      by (auto simp: file_load_def res_bind_Inr_iff split: prod.splits)
    with file_store.read_all_cases(2) [OF loc this(1)] show ?thesis
      by (simp add: file_stored_def)
  qed
  have 1: "file_ok js s1 \<and> same_store (file_stored js s1)
      (if r1 = Inr () then (file_stored js s)(persisted_id p \<mapsto> p) else file_stored js s)"
  proof (cases r1)
    case (Inl e)
    with err(1) [OF Inl] show ?thesis by simp
  next
    case (Inr u)
    with laws(1) [of u s1] assms(5) show ?thesis by simp
  qed
  have 2: "file_ok js s2 \<and> same_store (file_stored js s2)
      (if r2 = Inr () then (file_stored js s)(tid := None) else file_stored js s)"
  proof (cases r2)
    case (Inl e)
    with err(2) [OF Inl] show ?thesis by simp
  next
    case (Inr u)
    with laws(2) [of tid u s2] assms(6) show ?thesis by simp
  qed
  show ?thesis using 1 2 load laws(3) [OF 3] by blast
qed

text \<open>
  C25: the file is replaced atomically under every schedule of faults, partial writes of the
  temporary file included: after a save or a delete it is unchanged if an error is reported, and
  otherwise it is the complete text of a task map.
\<close>

theorem file_replaced_atomically:
  assumes "file_save js env p s = (r, s') \<or> file_delete js env tid s = (r, s')"
  shows "if r = Inr () then (\<exists>m c. js_to_string js m = Inr c \<and> fs_file s' = Some c)
    else fs_file s' = fs_file s"
  using assms
  by (auto simp: file_save_def file_delete_def split: prod.splits sum.splits
      dest!: read_all_file write_all_file)

definition no_faults :: "'c io_faults" where
  "no_faults = \<lparr>io_exists = False, io_read = None, io_mkdir = None, io_write = None,
     io_rename = None\<rparr>"

text \<open>
  A failing metadata lookup is taken for a missing file. If it hits the read of a save that
  otherwise succeeds, every other stored task is lost and the save still reports success.
\<close>

theorem metadata_fault_loses_tasks:
  assumes "json_ok js" and "persisted_wf p"
    and "env = (\<lambda>n. if n = fs_tick s then no_faults\<lparr>io_exists := True\<rparr> else no_faults)"
    and "file_save js env p s = (Inr (), s')"
  shows "same_store (file_stored js s') [persisted_id p \<mapsto> p]"
proof -
  let ?m = "[(task_key (persisted_id p), p)]"
  have "read_all js env s = (Inr [], next_tick s)"
    using assms(3) by (simp add: read_all_def Let_def split: option.splits)
  then have "write_all js env ?m (next_tick s) = (Inr (), s')"
    using assms(4) by (simp add: file_save_def persisted_id_def hm_insert_def)
  then obtain c where c: "js_to_string js ?m = Inr c" "fs_file s' = Some c"
    using write_all_file by blast
  have "hm_wf ?m" "\<forall>q \<in> set (hm_values ?m). persisted_wf q"
    using assms(2) by (simp_all add: hm_wf_def)
  with assms(1) c(1) obtain m' where m': "\<not> js_empty js c" "js_from_str js c = Inr m'"
    "\<forall>k. rel_option same_persisted (hm_get m' k) (hm_get ?m k)"
    unfolding json_ok_def by blast
  have "rel_option same_persisted (hm_get m' (task_key tid)) ([persisted_id p \<mapsto> p] tid)" for tid
    using m'(3) [rule_format, of "task_key tid"] by (simp add: task_key_inj split: if_splits)
  with m'(1,2) c(2) show ?thesis
    by (simp add: same_store_def file_stored_def file_contents_def)
qed

section \<open>A concrete file\<close>

text \<open>A codec that keeps the map itself as the text, and a disk that is full at the fourth call.\<close>

definition demo_json :: "(string, persisted) hmap option json" where
  "demo_json = \<lparr>js_empty = (\<lambda>c. c = None), js_to_string = (\<lambda>m. Inr (Some m)),
     js_from_str = (\<lambda>c. case c of None \<Rightarrow> Inl ''EOF while parsing a value'' | Some m \<Rightarrow> Inr m)\<rparr>"

definition demo_env :: "nat \<Rightarrow> (string, persisted) hmap option io_faults" where
  "demo_env n = (if n = 3 then no_faults\<lparr>io_write := Some (None, ''No space left on device'')\<rparr>
     else no_faults)"

definition demo_disk :: "(string, persisted) hmap option file_system" where
  "demo_disk = \<lparr>fs_file = Some (Some [(''9:9'', demo_persisted\<lparr>p_service_id := 9, p_call_id := 9\<rparr>)]),
     fs_tmp = None, fs_tick = 0\<rparr>"

lemma demo_json_ok: "json_ok demo_json"
  by (simp add: json_ok_def demo_json_def option.rel_refl)

interpretation demo_fs: file_store demo_json demo_env
  by unfold_locales (simp_all add: demo_json_ok demo_env_def no_faults_def)

lemma demo_persisted_wf: "persisted_wf demo_persisted"
  by (simp add: demo_persisted_def persisted_wf_def hm_wf_def)

lemma demo_key: "task_key (TaskId 9 9) = ''9:9''"
  by code_simp

lemma demo_disk_ok: "file_ok demo_json demo_disk"
  using demo_persisted_wf demo_key
  by (simp add: file_ok_def file_contents_def demo_disk_def demo_json_def entries_ok_def hm_wf_def
      persisted_id_def persisted_wf_def)

theorem file_backend_is_map_witness:
  "same_store (file_stored demo_json (snd (file_save demo_json demo_env demo_persisted demo_disk)))
     ((file_stored demo_json demo_disk)(TaskId 7 1 \<mapsto> demo_persisted))"
proof -
  have "fst (file_save demo_json demo_env demo_persisted demo_disk) = Inr ()"
    by (simp add: file_save_def read_all_def write_all_def demo_json_def demo_env_def demo_disk_def
        no_faults_def next_tick_def)
  moreover have "persisted_id demo_persisted = TaskId 7 1"
    by (simp add: persisted_id_def demo_persisted_def)
  ultimately show ?thesis
    using file_backend_is_map [OF demo_json_ok _ demo_disk_ok demo_persisted_wf
        prod.collapse [symmetric] prod.collapse [symmetric] prod.collapse [symmetric], of demo_env]
      demo_fs.metadata
    by simp
qed

theorem file_replaced_atomically_witness:
  "fs_file (snd (file_save demo_json demo_env demo_persisted (demo_disk\<lparr>fs_tick := 2\<rparr>)))
     = fs_file demo_disk"
proof -
  let ?r = "file_save demo_json demo_env demo_persisted (demo_disk\<lparr>fs_tick := 2\<rparr>)"
  have "fst ?r \<noteq> Inr ()"
    by (simp add: file_save_def read_all_def write_all_def demo_json_def demo_env_def demo_disk_def
        no_faults_def next_tick_def)
  then show ?thesis
    using file_replaced_atomically [OF disjI1 [OF prod.collapse [symmetric]],
        of demo_json demo_env demo_persisted "demo_disk\<lparr>fs_tick := 2\<rparr>"]
    by simp
qed

theorem metadata_fault_loses_tasks_witness:
  "file_stored demo_json demo_disk (TaskId 9 9) \<noteq> None
   \<and> (\<exists>env s'. file_save demo_json env demo_persisted demo_disk = (Inr (), s')
        \<and> file_stored demo_json s' (TaskId 9 9) = None)"
proof -
  let ?env = "\<lambda>n. if n = fs_tick demo_disk then no_faults\<lparr>io_exists := True\<rparr> else no_faults"
  obtain s' where s': "file_save demo_json ?env demo_persisted demo_disk = (Inr (), s')"
    by (auto simp: file_save_def read_all_def write_all_def demo_json_def demo_disk_def
        no_faults_def next_tick_def)
  have "same_store (file_stored demo_json s') [persisted_id demo_persisted \<mapsto> demo_persisted]"
    by (rule metadata_fault_loses_tasks [OF demo_json_ok demo_persisted_wf refl s'])
  moreover have "persisted_id demo_persisted = TaskId 7 1"
    by (simp add: persisted_id_def demo_persisted_def)
  ultimately have "rel_option same_persisted (file_stored demo_json s' (TaskId 9 9)) None"
    by (auto simp: same_store_def dest: spec [of _ "TaskId 9 9"])
  moreover have "file_stored demo_json demo_disk (TaskId 9 9) \<noteq> None"
    using demo_key by (simp add: file_stored_def file_contents_def demo_disk_def demo_json_def)
  ultimately show ?thesis using s' by auto
qed

end
