(* ===== verification/Agg_Service.thy ===== *)
theory Agg_Service
  imports Agg_Backend
begin

unbundle bit_operations_syntax

text \<open>
  The aggregation service, \<open>crates/tangle-aggregation-svc/src/service.rs\<close>, with the BN254
  aggregation of \<open>crates/crypto/bn254/src/aggregation.rs\<close>. Every handler runs under the
  service's mutation lock, so a handler is one function from service to service; the backend is
  any record of the trait's operations, the curve is the parameter \<open>crypto\<close>.
  Logging is left out.
\<close>

section \<open>Configuration and errors\<close>

record service_config =
  cf_verify_on_submit :: bool
  cf_validate_output :: bool
  cf_default_task_ttl :: "duration option"
  cf_cleanup_interval :: "duration option"
  cf_auto_cleanup_submitted :: bool
  cf_submitted_task_retention :: duration

definition secs :: "nat \<Rightarrow> duration" where
  "secs n = n * 10 ^ 9"

definition service_config_default :: service_config where
  "service_config_default =
     \<lparr>cf_verify_on_submit = True, cf_validate_output = True,
      cf_default_task_ttl = Some (secs 3600), cf_cleanup_interval = Some (secs 60),
      cf_auto_cleanup_submitted = True, cf_submitted_task_retention = secs 120\<rparr>"

definition service_config_minimal :: service_config where
  "service_config_minimal =
     \<lparr>cf_verify_on_submit = False, cf_validate_output = False, cf_default_task_ttl = None,
      cf_cleanup_interval = None, cf_auto_cleanup_submitted = False,
      cf_submitted_task_retention = 0\<rparr>"

datatype service_error =
    TaskNotFound
  | TaskAlreadyExists
  | TaskExpired
  | InvalidSignature
  | InvalidPublicKey
  | VerificationFailed
  | OutputMismatch
  | AggregationFailed string
  | Other string

fun show_persistence_error :: "persistence_error \<Rightarrow> string" where
  "show_persistence_error (Io e) = ''IO error: '' @ e"
| "show_persistence_error (Serialization e) = ''Serialization error: '' @ e"
| "show_persistence_error (NotFound tid) =
     ''Task not found: TaskId { service_id: '' @ show_u64 (task_service_id tid)
       @ '', call_id: '' @ show_u64 (task_call_id tid) @ '' }''"
| "show_persistence_error (Backend e) = ''Backend error: '' @ e"

fun show_service_error :: "service_error \<Rightarrow> string" where
  "show_service_error TaskNotFound = ''Task not found''"
| "show_service_error TaskAlreadyExists = ''Task already exists''"
| "show_service_error TaskExpired = ''Task has expired''"
| "show_service_error InvalidSignature = ''Invalid signature format''"
| "show_service_error InvalidPublicKey = ''Invalid public key format''"
| "show_service_error VerificationFailed = ''Signature verification failed''"
| "show_service_error OutputMismatch =
     ''Output mismatch: submitted output does not match task output''"
| "show_service_error (AggregationFailed e) = ''Aggregation failed: '' @ e"
| "show_service_error (Other e) = e"

definition persistence_error :: "persistence_error \<Rightarrow> service_error" where
  "persistence_error e = Other (''persistence error: '' @ show_persistence_error e)"

section \<open>The curve\<close>

record ('s, 'p) crypto =
  cr_verify :: "'p \<Rightarrow> bytes \<Rightarrow> 's \<Rightarrow> bool"
  cr_verify_tangle :: "'p \<Rightarrow> bytes \<Rightarrow> 's \<Rightarrow> bool"
  cr_sig_zero :: 's
  cr_sig_add :: "'s \<Rightarrow> 's \<Rightarrow> 's"
  cr_pk_zero :: 'p
  cr_pk_add :: "'p \<Rightarrow> 'p \<Rightarrow> 'p"
  cr_keccak256 :: "bytes \<Rightarrow> bytes"

definition scheme_verify ::
  "('s, 'p) crypto \<Rightarrow> signature_scheme \<Rightarrow> 'p \<Rightarrow> bytes \<Rightarrow> 's \<Rightarrow> bool" where
  "scheme_verify X scheme =
     (case scheme of ArkworksSha256 \<Rightarrow> cr_verify X | TangleKeccak256 \<Rightarrow> cr_verify_tangle X)"

definition bn254_aggregate :: "('s, 'p) crypto \<Rightarrow> 's list \<Rightarrow> 'p list \<Rightarrow> string + 's \<times> 'p" where
  "bn254_aggregate X signatures public_keys =
     (if signatures = [] \<or> public_keys = [] then Inl ''No signatures or public keys provided''
      else if length signatures \<noteq> length public_keys
      then Inl ''Mismatched number of signatures and public keys''
      else Inr (fold (\<lambda>(i, key) (asig, apk).
                   (cr_sig_add X asig (signatures ! i), cr_pk_add X apk key))
                 (enumerate 0 public_keys) (cr_sig_zero X, cr_pk_zero X)))"

definition verify_aggregate :: "('s, 'p) crypto \<Rightarrow> bytes \<Rightarrow> 's \<Rightarrow> 'p \<Rightarrow> string + bool" where
  "verify_aggregate X msg sig pk = Inr (cr_verify X pk msg sig)"

definition be_bytes :: "u64 \<Rightarrow> bytes" where
  "be_bytes w = map (\<lambda>k. ucast (drop_bit (8 * k) w)) [7, 6, 5, 4, 3, 2, 1, 0]"

definition create_signing_message :: "('s, 'p) crypto \<Rightarrow> u64 \<Rightarrow> u64 \<Rightarrow> bytes \<Rightarrow> bytes" where
  "create_signing_message X sid cid output = be_bytes sid @ be_bytes cid @ cr_keccak256 X output"

section \<open>The service\<close>

record ('s, 'p, 'b) service =
  sv_state :: "('s, 'p) agg_state"
  sv_config :: service_config
  sv_store :: 'b

text \<open>What a service is built over: the backend's operations, the codec and the curve.\<close>

record ('s, 'p, 'b) deps =
  dp_backend :: "'b backend"
  dp_codec :: "('s, 'p) point_codec"
  dp_crypto :: "('s, 'p) crypto"

datatype cleanup_kind = All | Expired | Submitted

definition service_new :: "service_config \<Rightarrow> ('s, 'p, unit) service" where
  "service_new config = \<lparr>sv_state = [], sv_config = config, sv_store = ()\<rparr>"

definition service_with_persistence ::
  "('s, 'p, 'b) deps \<Rightarrow> clock \<Rightarrow> service_config \<Rightarrow> 'b \<Rightarrow> service_error + ('s, 'p, 'b) service" where
  "service_with_persistence D c config b =
     (case be_load_all (dp_backend D) b of
        (Inl e, _) \<Rightarrow> Inl (persistence_error e)
      | (Inr ps, b') \<Rightarrow>
          (case restore (dp_codec D) c ps [] of
             (Inl e, _) \<Rightarrow> Inl (persistence_error e)
           | (Inr _, tasks) \<Rightarrow> Inr \<lparr>sv_state = tasks, sv_config = config, sv_store = b'\<rparr>))"

definition svc_snapshot ::
  "('s, 'p, 'b) deps \<Rightarrow> clock \<Rightarrow> ('s, 'p, 'b) service \<Rightarrow> service_error + persisted list" where
  "svc_snapshot D c sv = res_map_err persistence_error (snapshot (dp_codec D) c (sv_state sv))"

definition find_persisted :: "u64 \<Rightarrow> u64 \<Rightarrow> persisted list \<Rightarrow> persisted option" where
  "find_persisted sid cid ps = find (\<lambda>p. p_service_id p = sid \<and> p_call_id p = cid) ps"

definition persist_task ::
  "('s, 'p, 'b) deps \<Rightarrow> clock \<Rightarrow> u64 \<Rightarrow> u64 \<Rightarrow> ('s, 'p, 'b) service \<Rightarrow>
   (service_error + unit) \<times> ('s, 'p, 'b) service" where
  "persist_task D c sid cid sv =
     (case res_bind (svc_snapshot D c sv)
             (\<lambda>ps. ok_or TaskNotFound (find_persisted sid cid ps)) of
        Inl e \<Rightarrow> (Inl e, sv)
      | Inr task \<Rightarrow>
          (case be_save (dp_backend D) task (sv_store sv) of
             (Inl e, b) \<Rightarrow> (Inl (persistence_error e), sv\<lparr>sv_store := b\<rparr>)
           | (Inr _, b) \<Rightarrow>
               (case be_flush (dp_backend D) b of
                  (r, b') \<Rightarrow> (res_map_err persistence_error r, sv\<lparr>sv_store := b'\<rparr>))))"

definition restore_persisted_task ::
  "('s, 'p, 'b) deps \<Rightarrow> persisted list \<Rightarrow> task_id \<Rightarrow> ('s, 'p, 'b) service \<Rightarrow> ('s, 'p, 'b) service" where
  "restore_persisted_task D before tid sv =
     (case (case find_persisted (task_service_id tid) (task_call_id tid) before of
              Some task \<Rightarrow> be_save (dp_backend D) task (sv_store sv)
            | None \<Rightarrow> be_delete (dp_backend D) tid (sv_store sv)) of
        (Inl _, b) \<Rightarrow> sv\<lparr>sv_store := b\<rparr>
      | (Inr _, b) \<Rightarrow> sv\<lparr>sv_store := snd (be_flush (dp_backend D) b)\<rparr>)"

definition restore_persisted_tasks ::
  "('s, 'p, 'b) deps \<Rightarrow> persisted list \<Rightarrow> ('s, 'p, 'b) service \<Rightarrow> ('s, 'p, 'b) service" where
  "restore_persisted_tasks D tasks sv =
     sv\<lparr>sv_store := snd (be_flush (dp_backend D)
          (fold (\<lambda>task b. snd (be_save (dp_backend D) task b)) tasks (sv_store sv)))\<rparr>"

definition restore_snapshot ::
  "('s, 'p, 'b) deps \<Rightarrow> clock \<Rightarrow> persisted list \<Rightarrow> ('s, 'p, 'b) service \<Rightarrow> ('s, 'p, 'b) service" where
  "restore_snapshot D c before sv =
     sv\<lparr>sv_state := snd (restore (dp_codec D) c before (sv_state sv))\<rparr>"

text \<open>The common tail of the mutating handlers: persist the task, and undo on failure.\<close>

definition persist_or_undo ::
  "('s, 'p, 'b) deps \<Rightarrow> clock \<Rightarrow> persisted list \<Rightarrow> u64 \<Rightarrow> u64 \<Rightarrow> 'r \<Rightarrow> ('s, 'p, 'b) service \<Rightarrow>
   (service_error + 'r) \<times> ('s, 'p, 'b) service" where
  "persist_or_undo D c before sid cid res sv =
     (case persist_task D (at_call c 0) sid cid sv of
        (Inl e, sv) \<Rightarrow>
          (Inl e, restore_snapshot D (at_call c 1) before
                    (restore_persisted_task D before (TaskId sid cid) sv))
      | (Inr _, sv) \<Rightarrow> (Inr res, sv))"

section \<open>Clean-up\<close>

definition run_cleanup ::
  "service_config \<Rightarrow> instant \<Rightarrow> cleanup_kind \<Rightarrow> ('s, 'p) agg_state \<Rightarrow> nat \<times> ('s, 'p) agg_state" where
  "run_cleanup config now kind tasks =
     (case kind of
        All \<Rightarrow> cleanup_with_submitted_retention now (cf_submitted_task_retention config) tasks
      | Expired \<Rightarrow> cleanup_expired now tasks
      | Submitted \<Rightarrow> cleanup_submitted_after now (cf_submitted_task_retention config) tasks)"

text \<open>The deletion loop: the error and the tasks deleted so far, the failed one included.\<close>

fun delete_removed ::
  "'b backend \<Rightarrow> persisted list \<Rightarrow> persisted list \<Rightarrow> 'b \<Rightarrow>
   (persistence_error \<times> persisted list + unit) \<times> 'b" where
  "delete_removed P tried [] b = (Inr (), b)"
| "delete_removed P tried (p # ps) b =
     (case be_delete P (TaskId (p_service_id p) (p_call_id p)) b of
        (Inl e, b) \<Rightarrow> (Inl (e, tried @ [p]), b)
      | (Inr _, b) \<Rightarrow> delete_removed P (tried @ [p]) ps b)"

definition cleanup_with_persistence ::
  "('s, 'p, 'b) deps \<Rightarrow> clock \<Rightarrow> cleanup_kind \<Rightarrow> ('s, 'p, 'b) service \<Rightarrow>
   (service_error + nat) \<times> ('s, 'p, 'b) service" where
  "cleanup_with_persistence D c kind sv =
     (case svc_snapshot D (at_call c 0) sv of
        Inl e \<Rightarrow> (Inl e, sv)
      | Inr before \<Rightarrow>
          (let (removed, tasks) = run_cleanup (sv_config sv) (now_of (at_call c 1)) kind (sv_state sv);
               sv1 = sv\<lparr>sv_state := tasks\<rparr> in
           if removed = 0 then (Inr 0, sv1)
           else
             (case svc_snapshot D (at_call c 2) sv1 of
                Inl e \<Rightarrow> (Inl e, restore_snapshot D (at_call c 3) before sv1)
              | Inr after \<Rightarrow>
                  (let remaining = map (\<lambda>p. (p_service_id p, p_call_id p)) after;
                       removed_tasks =
                         filter (\<lambda>p. (p_service_id p, p_call_id p) \<notin> set remaining) before in
                   case delete_removed (dp_backend D) [] removed_tasks (sv_store sv1) of
                     (Inl (e, tried), b) \<Rightarrow>
                       (Inl (persistence_error e),
                        restore_snapshot D (at_call c 3) before
                          (restore_persisted_tasks D tried (sv1\<lparr>sv_store := b\<rparr>)))
                   | (Inr _, b) \<Rightarrow>
                       (case be_flush (dp_backend D) b of
                          (Inl e, b) \<Rightarrow>
                            (Inl (persistence_error e),
                             restore_snapshot D (at_call c 3) before
                               (restore_persisted_tasks D removed_tasks (sv1\<lparr>sv_store := b\<rparr>)))
                        | (Inr _, b) \<Rightarrow> (Inr removed, sv1\<lparr>sv_store := b\<rparr>))))))"

definition cleanup_count :: "(service_error + nat) \<times> ('s, 'p, 'b) service \<Rightarrow> nat \<times> ('s, 'p, 'b) service" where
  "cleanup_count r = (case r of (Inl _, sv) \<Rightarrow> (0, sv) | (Inr n, sv) \<Rightarrow> (n, sv))"

definition svc_cleanup ::
  "('s, 'p, 'b) deps \<Rightarrow> clock \<Rightarrow> ('s, 'p, 'b) service \<Rightarrow> nat \<times> ('s, 'p, 'b) service" where
  "svc_cleanup D c sv = cleanup_count (cleanup_with_persistence D c All sv)"

definition svc_cleanup_expired ::
  "('s, 'p, 'b) deps \<Rightarrow> clock \<Rightarrow> ('s, 'p, 'b) service \<Rightarrow> nat \<times> ('s, 'p, 'b) service" where
  "svc_cleanup_expired D c sv = cleanup_count (cleanup_with_persistence D c Expired sv)"

definition svc_cleanup_submitted ::
  "('s, 'p, 'b) deps \<Rightarrow> clock \<Rightarrow> ('s, 'p, 'b) service \<Rightarrow> nat \<times> ('s, 'p, 'b) service" where
  "svc_cleanup_submitted D c sv = cleanup_count (cleanup_with_persistence D c Submitted sv)"

text \<open>One tick of the clean-up worker.\<close>

definition cleanup_tick ::
  "('s, 'p, 'b) deps \<Rightarrow> clock \<Rightarrow> ('s, 'p, 'b) service \<Rightarrow> ('s, 'p, 'b) service" where
  "cleanup_tick D c sv =
     snd (cleanup_with_persistence D c
       (if cf_auto_cleanup_submitted (sv_config sv) then All else Expired) sv)"

section \<open>Handlers\<close>

definition svc_init_task_with_message_config ::
  "('s, 'p, 'b) deps \<Rightarrow> clock \<Rightarrow> u64 \<Rightarrow> u64 \<Rightarrow> bytes \<Rightarrow> bytes \<Rightarrow> signature_scheme \<Rightarrow> u32 \<Rightarrow>
   task_config \<Rightarrow> ('s, 'p, 'b) service \<Rightarrow> (service_error + unit) \<times> ('s, 'p, 'b) service" where
  "svc_init_task_with_message_config D c sid cid output msg scheme n_ops config sv =
     (case svc_snapshot D (at_call c 0) sv of
        Inl e \<Rightarrow> (Inl e, sv)
      | Inr before \<Rightarrow>
          (case init_task_with_message_config (now_of (at_call c 1)) sid cid output msg scheme
                  n_ops config (sv_state sv) of
             (Inl e, tasks) \<Rightarrow> (Inl (Other e), sv\<lparr>sv_state := tasks\<rparr>)
           | (Inr _, tasks) \<Rightarrow>
               persist_or_undo D (at_call c 2) before sid cid () (sv\<lparr>sv_state := tasks\<rparr>)))"

definition svc_init_task_with_config ::
  "('s, 'p, 'b) deps \<Rightarrow> clock \<Rightarrow> u64 \<Rightarrow> u64 \<Rightarrow> bytes \<Rightarrow> u32 \<Rightarrow> task_config \<Rightarrow>
   ('s, 'p, 'b) service \<Rightarrow> (service_error + unit) \<times> ('s, 'p, 'b) service" where
  "svc_init_task_with_config D c sid cid output n_ops config sv =
     svc_init_task_with_message_config D c sid cid output
       (create_signing_message (dp_crypto D) sid cid output) ArkworksSha256 n_ops config sv"

definition svc_init_task ::
  "('s, 'p, 'b) deps \<Rightarrow> clock \<Rightarrow> u64 \<Rightarrow> u64 \<Rightarrow> bytes \<Rightarrow> u32 \<Rightarrow> u32 \<Rightarrow>
   ('s, 'p, 'b) service \<Rightarrow> (service_error + unit) \<times> ('s, 'p, 'b) service" where
  "svc_init_task D c sid cid output n_ops threshold sv =
     svc_init_task_with_config D c sid cid output n_ops
       (task_config_default\<lparr>tc_threshold_type := Count threshold,
                            tc_ttl := cf_default_task_ttl (sv_config sv)\<rparr>) sv"

record submit_request =
  rq_service_id :: u64
  rq_call_id :: u64
  rq_operator_index :: u32
  rq_output :: bytes
  rq_signature :: bytes
  rq_public_key :: bytes

record submit_response =
  rs_accepted :: bool
  rs_signatures_collected :: nat
  rs_threshold_required :: nat
  rs_threshold_met :: bool
  rs_error :: "string option"

definition check_output ::
  "('s, 'p, 'b) service \<Rightarrow> submit_request \<Rightarrow> service_error + unit" where
  "check_output sv req =
     (if cf_validate_output (sv_config sv)
      then res_bind (ok_or TaskNotFound
             (get_task_output (rq_service_id req) (rq_call_id req) (sv_state sv)))
             (\<lambda>expected. if rq_output req \<noteq> expected then Inl OutputMismatch else Inr ())
      else Inr ())"

definition check_verified ::
  "('s, 'p, 'b) deps \<Rightarrow> ('s, 'p, 'b) service \<Rightarrow> submit_request \<Rightarrow> 's \<Rightarrow> 'p \<Rightarrow> service_error + unit" where
  "check_verified D sv req sig pk =
     (if cf_verify_on_submit (sv_config sv)
      then res_bind (ok_or TaskNotFound
             (get_task_signature_context (rq_service_id req) (rq_call_id req) (sv_state sv)))
             (\<lambda>(msg, scheme).
               if \<not> scheme_verify (dp_crypto D) scheme pk msg sig then Inl VerificationFailed
               else Inr ())
      else Inr ())"

text \<open>Everything a submission checks before it touches the state.\<close>

definition check_submission ::
  "('s, 'p, 'b) deps \<Rightarrow> clock \<Rightarrow> submit_request \<Rightarrow> ('s, 'p, 'b) service \<Rightarrow>
   service_error + 's \<times> 'p \<times> task_status" where
  "check_submission D c req sv =
     res_bind (check_output sv req) (\<lambda>_.
     res_bind (res_map_err (\<lambda>_. InvalidSignature) (pc_sig_de (dp_codec D) (rq_signature req))) (\<lambda>sig.
     res_bind (res_map_err (\<lambda>_. InvalidPublicKey) (pc_pk_de (dp_codec D) (rq_public_key req))) (\<lambda>pk.
     res_bind (check_verified D sv req sig pk) (\<lambda>_.
     res_bind (ok_or TaskNotFound
       (get_status (now_of (at_call c 0)) (rq_service_id req) (rq_call_id req) (sv_state sv))) (\<lambda>status.
     if st_is_expired status then Inl TaskExpired else Inr (sig, pk, status))))))"

definition svc_submit_signature ::
  "('s, 'p, 'b) deps \<Rightarrow> clock \<Rightarrow> submit_request \<Rightarrow> ('s, 'p, 'b) service \<Rightarrow>
   (service_error + submit_response) \<times> ('s, 'p, 'b) service" where
  "svc_submit_signature D c req sv =
     (case svc_snapshot D (at_call c 0) sv of
        Inl e \<Rightarrow> (Inl e, sv)
      | Inr before \<Rightarrow>
          (case check_submission D (at_call c 1) req sv of
             Inl e \<Rightarrow> (Inl e, sv)
           | Inr (sig, pk, status) \<Rightarrow>
               (case submit_signature (now_of (at_call c 2)) (now_of (at_call c 3))
                       (rq_service_id req) (rq_call_id req) (rq_operator_index req) sig pk
                       (sv_state sv) of
                  (Inl e, tasks) \<Rightarrow> (Inl (Other e), sv\<lparr>sv_state := tasks\<rparr>)
                | (Inr (n, met), tasks) \<Rightarrow>
                    persist_or_undo D (at_call c 4) before (rq_service_id req) (rq_call_id req)
                      \<lparr>rs_accepted = True, rs_signatures_collected = n,
                       rs_threshold_required = st_threshold_required status,
                       rs_threshold_met = met, rs_error = None\<rparr>
                      (sv\<lparr>sv_state := tasks\<rparr>))))"

record status_response =
  sr_exists :: bool
  sr_signatures_collected :: nat
  sr_threshold_required :: nat
  sr_threshold_met :: bool
  sr_signer_bitmap :: u256
  sr_signed_stake_bps :: "u32 option"
  sr_submitted :: bool
  sr_is_expired :: "bool option"
  sr_time_remaining_secs :: "nat option"

definition svc_get_status ::
  "clock \<Rightarrow> u64 \<Rightarrow> u64 \<Rightarrow> ('s, 'p, 'b) service \<Rightarrow> status_response" where
  "svc_get_status c sid cid sv =
     (case get_status (now_of c) sid cid (sv_state sv) of
        Some st \<Rightarrow>
          \<lparr>sr_exists = True, sr_signatures_collected = st_signatures_collected st,
           sr_threshold_required = st_threshold_required st,
           sr_threshold_met = st_threshold_met st, sr_signer_bitmap = st_signer_bitmap st,
           sr_signed_stake_bps = Some (st_signed_stake_bps st), sr_submitted = st_submitted st,
           sr_is_expired = Some (st_is_expired st),
           sr_time_remaining_secs = st_time_remaining_secs st\<rparr>
      | None \<Rightarrow>
          \<lparr>sr_exists = False, sr_signatures_collected = 0, sr_threshold_required = 0,
           sr_threshold_met = False, sr_signer_bitmap = 0, sr_signed_stake_bps = None,
           sr_submitted = False, sr_is_expired = None, sr_time_remaining_secs = None\<rparr>)"

record aggregated_result =
  ar_service_id :: u64
  ar_call_id :: u64
  ar_output :: bytes
  ar_signer_bitmap :: u256
  ar_non_signer_indices :: "u32 list"
  ar_signature :: bytes
  ar_pubkey :: bytes

definition res_ok :: "'e + 'a \<Rightarrow> 'a option" where
  "res_ok r = (case r of Inl _ \<Rightarrow> None | Inr a \<Rightarrow> Some a)"

definition svc_get_aggregated_result ::
  "('s, 'p, 'b) deps \<Rightarrow> clock \<Rightarrow> u64 \<Rightarrow> u64 \<Rightarrow> ('s, 'p, 'b) service \<Rightarrow> aggregated_result option" where
  "svc_get_aggregated_result D c sid cid sv =
     Option.bind (get_for_aggregation (now_of c) sid cid (sv_state sv)) (\<lambda>task.
     Option.bind (res_ok (bn254_aggregate (dp_crypto D) (ta_signatures task) (ta_public_keys task)))
       (\<lambda>(agg_sig, agg_pk).
     Option.bind (res_ok (pc_sig_ser (dp_codec D) agg_sig)) (\<lambda>sig_bytes.
     Option.bind (res_ok (pc_pk_ser (dp_codec D) agg_pk)) (\<lambda>pk_bytes.
       Some \<lparr>ar_service_id = ta_service_id task, ar_call_id = ta_call_id task,
             ar_output = ta_output task, ar_signer_bitmap = ta_signer_bitmap task,
             ar_non_signer_indices = ta_non_signer_indices task,
             ar_signature = sig_bytes, ar_pubkey = pk_bytes\<rparr>))))"

definition svc_mark_submitted ::
  "('s, 'p, 'b) deps \<Rightarrow> clock \<Rightarrow> u64 \<Rightarrow> u64 \<Rightarrow> ('s, 'p, 'b) service \<Rightarrow>
   (service_error + unit) \<times> ('s, 'p, 'b) service" where
  "svc_mark_submitted D c sid cid sv =
     (case svc_snapshot D (at_call c 0) sv of
        Inl e \<Rightarrow> (Inl e, sv)
      | Inr before \<Rightarrow>
          (case mark_submitted (now_of (at_call c 1)) sid cid (sv_state sv) of
             (Inl e, tasks) \<Rightarrow> (Inl (Other e), sv\<lparr>sv_state := tasks\<rparr>)
           | (Inr _, tasks) \<Rightarrow>
               persist_or_undo D (at_call c 2) before sid cid () (sv\<lparr>sv_state := tasks\<rparr>)))"

definition svc_remove_task ::
  "('s, 'p, 'b) deps \<Rightarrow> clock \<Rightarrow> u64 \<Rightarrow> u64 \<Rightarrow> ('s, 'p, 'b) service \<Rightarrow>
   bool \<times> ('s, 'p, 'b) service" where
  "svc_remove_task D c sid cid sv =
     (case svc_snapshot D (at_call c 0) sv of
        Inl _ \<Rightarrow> (False, sv)
      | Inr before \<Rightarrow>
          (if get_status (now_of (at_call c 1)) sid cid (sv_state sv) = None then (False, sv)
           else
             (case be_delete (dp_backend D) (TaskId sid cid) (sv_store sv) of
                (Inl _, b) \<Rightarrow>
                  (False, restore_persisted_task D before (TaskId sid cid) (sv\<lparr>sv_store := b\<rparr>))
              | (Inr _, b) \<Rightarrow>
                  (case be_flush (dp_backend D) b of
                     (Inl _, b) \<Rightarrow>
                       (False, restore_persisted_task D before (TaskId sid cid) (sv\<lparr>sv_store := b\<rparr>))
                   | (Inr _, b) \<Rightarrow>
                       (case remove_task sid cid (sv_state sv) of
                          (existed, tasks) \<Rightarrow>
                            (existed, sv\<lparr>sv_store := b, sv_state := tasks\<rparr>))))))"

definition svc_get_stats :: "clock \<Rightarrow> ('s, 'p, 'b) service \<Rightarrow> task_counts" where
  "svc_get_stats c sv = get_task_counts (now_of c) (sv_state sv)"

end
