(* ===== verification/Agg_Service_Correct.thy ===== *)
theory Agg_Service_Correct
  imports Agg_Service
begin

text \<open>
  Correctness of the aggregation service over any backend: a request that fails leaves the tasks in
  memory as they were, signatures are verified before they are recorded, and every
  aggregated result verifies under the aggregated public key.
\<close>

section \<open>Undoing a failed request\<close>

lemma persist_task_state:
  assumes "persist_task D c sid cid sv = (r, sv')"
  shows "sv_state sv' = sv_state sv" "sv_config sv' = sv_config sv"
  using assms by (auto simp: persist_task_def split: sum.splits prod.splits)

lemma restore_persisted_task_state [simp]:
  "sv_state (restore_persisted_task D before tid sv) = sv_state sv"
  "sv_config (restore_persisted_task D before tid sv) = sv_config sv"
  by (auto simp: restore_persisted_task_def split: sum.splits prod.splits option.splits)

lemma restore_persisted_tasks_state [simp]:
  "sv_state (restore_persisted_tasks D ps sv) = sv_state sv"
  "sv_config (restore_persisted_tasks D ps sv) = sv_config sv"
  by (simp_all add: restore_persisted_tasks_def)

lemma restore_snapshot_config [simp]: "sv_config (restore_snapshot D c ps sv) = sv_config sv"
  by (simp add: restore_snapshot_def)

text \<open>The tasks in memory are those of \<open>s\<close>, apart from the conversion of their times.\<close>

definition holds_tasks :: "('s, 'p, 'b) service \<Rightarrow> ('s, 'p) agg_state \<Rightarrow> bool" where
  "holds_tasks sv s \<longleftrightarrow> agg_inv (sv_state sv) \<and> state_sim (sv_state sv) s"

lemma holds_tasks_refl: "agg_inv (sv_state sv) \<Longrightarrow> holds_tasks sv (sv_state sv)"
  by (simp add: holds_tasks_def)

lemma svc_snapshot_ok:
  assumes "codec_ok (dp_codec D)" and "agg_inv (sv_state sv)"
  obtains ps where "svc_snapshot D c sv = Inr ps" "snapshot_of (dp_codec D) (sv_state sv) ps"
  using snapshot_ok [OF assms, of c] by (metis svc_snapshot_def res_map_err_simps(2))

lemma restore_snapshot_holds:
  assumes "agg_inv s" and "snapshot_of (dp_codec D) s before"
  shows "holds_tasks (restore_snapshot D c before sv) s"
proof -
  obtain s' where "restore (dp_codec D) c before (sv_state sv) = (Inr (), s')" "agg_inv s'" "state_sim s' s"
    by (rule restore_ok [OF assms])
  then show ?thesis by (simp add: holds_tasks_def restore_snapshot_def)
qed

lemma persist_or_undo_cases:
  assumes "agg_inv s" and "snapshot_of (dp_codec D) s before"
    and "persist_or_undo D c before sid cid res sv = (r, sv')"
  shows "(r = Inr res \<and> sv_state sv' = sv_state sv \<or> (\<exists>e. r = Inl e) \<and> holds_tasks sv' s)
    \<and> sv_config sv' = sv_config sv"
proof -
  obtain r1 sv1 where p: "persist_task D (at_call c 0) sid cid sv = (r1, sv1)" by (metis surj_pair)
  note st = persist_task_state [OF p]
  show ?thesis
  proof (cases r1)
    case (Inl e)
    then show ?thesis
      using assms(3) p st restore_snapshot_holds [OF assms(1,2)]
      by (auto simp: persist_or_undo_def)
  next
    case (Inr u)
    then show ?thesis using assms(3) p st by (auto simp: persist_or_undo_def)
  qed
qed

text \<open>What a mutating request does to the tasks in memory: with \<open>f\<close> the operation of the
  state manager, it either succeeds and applies \<open>f\<close>, or fails and leaves the tasks.\<close>

definition request_outcome ::
  "('s, 'p, 'b) service \<Rightarrow> (string + 'a) \<times> ('s, 'p) agg_state \<Rightarrow>
   (service_error + 'r) \<times> ('s, 'p, 'b) service \<Rightarrow> bool" where
  "request_outcome sv f out \<longleftrightarrow>
     sv_config (snd out) = sv_config sv
     \<and> (case fst out of
          Inr _ \<Rightarrow> (\<exists>a. fst f = Inr a) \<and> sv_state (snd out) = snd f
        | Inl _ \<Rightarrow> holds_tasks (snd out) (sv_state sv))"

lemma request_outcomeI:
  assumes inv: "agg_inv (sv_state sv)" and "snapshot_of (dp_codec D) (sv_state sv) before"
    and f: "fst f = Inr a"
  shows "request_outcome sv f (persist_or_undo D c before sid cid res (sv\<lparr>sv_state := snd f\<rparr>))"
  using persist_or_undo_cases [OF assms(1,2) prod.collapse [symmetric], of c sid cid res "sv\<lparr>sv_state := snd f\<rparr>"] f
  by (auto simp: request_outcome_def)

lemma init_Inl_state:
  "init_task_with_message_config now sid cid out msg sch n cfg s = (Inl e, s') \<Longrightarrow> s' = s"
  by (auto simp: init_task_with_message_config_def Let_def split: option.splits)

lemma mark_Inl_state: "mark_submitted now sid cid s = (Inl e, s') \<Longrightarrow> s' = s"
  by (auto simp: mark_submitted_def Let_def split: option.splits)

lemma svc_init_outcome:
  assumes K: "codec_ok (dp_codec D)" and inv: "agg_inv (sv_state sv)"
  shows "request_outcome sv
    (init_task_with_message_config (now_of (at_call c 1)) sid cid out msg sch n cfg (sv_state sv))
    (svc_init_task_with_message_config D c sid cid out msg sch n cfg sv)"
proof -
  let ?f = "init_task_with_message_config (now_of (at_call c 1)) sid cid out msg sch n cfg (sv_state sv)"
  obtain before where b: "svc_snapshot D (at_call c 0) sv = Inr before"
    "snapshot_of (dp_codec D) (sv_state sv) before"
    by (rule svc_snapshot_ok [OF K inv])
  show ?thesis
  proof (cases "fst ?f")
    case (Inl e)
    then have "?f = (Inl e, sv_state sv)"
      using init_Inl_state [of "now_of (at_call c 1)"] by (metis prod.collapse)
    then show ?thesis
      using b inv by (simp add: svc_init_task_with_message_config_def request_outcome_def
          holds_tasks_refl)
  next
    case (Inr u)
    then obtain s' where "?f = (Inr u, s')" by (metis prod.collapse)
    then show ?thesis
      using b request_outcomeI [OF inv b(2) Inr] by (simp add: svc_init_task_with_message_config_def)
  qed
qed

lemma svc_mark_outcome:
  assumes K: "codec_ok (dp_codec D)" and inv: "agg_inv (sv_state sv)"
  shows "request_outcome sv (mark_submitted (now_of (at_call c 1)) sid cid (sv_state sv))
    (svc_mark_submitted D c sid cid sv)"
proof -
  let ?f = "mark_submitted (now_of (at_call c 1)) sid cid (sv_state sv)"
  obtain before where b: "svc_snapshot D (at_call c 0) sv = Inr before"
    "snapshot_of (dp_codec D) (sv_state sv) before"
    by (rule svc_snapshot_ok [OF K inv])
  show ?thesis
  proof (cases "fst ?f")
    case (Inl e)
    then have "?f = (Inl e, sv_state sv)"
      using mark_Inl_state [of "now_of (at_call c 1)"] by (metis prod.collapse)
    then show ?thesis
      using b inv by (simp add: svc_mark_submitted_def request_outcome_def holds_tasks_refl)
  next
    case (Inr u)
    then obtain s' where "?f = (Inr u, s')" by (metis prod.collapse)
    then show ?thesis
      using b request_outcomeI [OF inv b(2) Inr] by (simp add: svc_mark_submitted_def)
  qed
qed

lemma svc_submit_outcome:
  assumes K: "codec_ok (dp_codec D)" and inv: "agg_inv (sv_state sv)"
  shows "case check_submission D (at_call c 1) req sv of
      Inl e \<Rightarrow> svc_submit_signature D c req sv = (Inl e, sv)
    | Inr (sig, pk, status) \<Rightarrow>
        request_outcome sv (submit_signature (now_of (at_call c 2)) (now_of (at_call c 3))
          (rq_service_id req) (rq_call_id req) (rq_operator_index req) sig pk (sv_state sv))
          (svc_submit_signature D c req sv)"
proof -
  obtain before where b: "svc_snapshot D (at_call c 0) sv = Inr before"
    "snapshot_of (dp_codec D) (sv_state sv) before"
    by (rule svc_snapshot_ok [OF K inv])
  show ?thesis
  proof (cases "check_submission D (at_call c 1) req sv")
    case (Inl e)
    then show ?thesis using b by (simp add: svc_submit_signature_def)
  next
    case (Inr q)
    obtain sig pk status where q: "q = (sig, pk, status)" by (cases q)
    let ?f = "submit_signature (now_of (at_call c 2)) (now_of (at_call c 3))
        (rq_service_id req) (rq_call_id req) (rq_operator_index req) sig pk (sv_state sv)"
    have "request_outcome sv ?f (svc_submit_signature D c req sv)"
    proof (cases "fst ?f")
      case Inl': (Inl e)
      then have "?f = (Inl e, sv_state sv)"
        using submit_Inl by (metis prod.collapse)
      then show ?thesis
        using b Inr q inv by (simp add: svc_submit_signature_def request_outcome_def holds_tasks_refl)
    next
      case Inr': (Inr u)
      obtain s' n met where "?f = (Inr (n, met), s')" using Inr' by (metis prod.collapse)
      then show ?thesis
        using b Inr q request_outcomeI [OF inv b(2) Inr'] by (simp add: svc_submit_signature_def)
    qed
    then show ?thesis using Inr q by simp
  qed
qed

lemma run_cleanup_retain:
  obtains keep where "run_cleanup cfg now kind s = retain_counting keep s"
  by (cases kind) (auto simp: run_cleanup_def cleanup_with_submitted_retention_def
      cleanup_expired_def cleanup_submitted_after_def)

lemma run_cleanup_inv: "agg_inv s \<Longrightarrow> agg_inv (snd (run_cleanup cfg now kind s))"
  by (rule run_cleanup_retain [of cfg now kind s]) (simp add: retain_counting_def Let_def agg_inv_retain)

lemma cleanup_outcome:
  assumes K: "codec_ok (dp_codec D)" and inv: "agg_inv (sv_state sv)"
    and run: "cleanup_with_persistence D c kind sv = (r, sv')"
  shows "sv_config sv' = sv_config sv \<and> (case r of
      Inr n \<Rightarrow> run_cleanup (sv_config sv) (now_of (at_call c 1)) kind (sv_state sv) = (n, sv_state sv')
    | Inl _ \<Rightarrow> holds_tasks sv' (sv_state sv))"
proof -
  obtain before where b: "svc_snapshot D (at_call c 0) sv = Inr before"
    "snapshot_of (dp_codec D) (sv_state sv) before"
    by (rule svc_snapshot_ok [OF K inv])
  obtain n tasks where rc: "run_cleanup (sv_config sv) (now_of (at_call c 1)) kind (sv_state sv) = (n, tasks)"
    by (metis surj_pair)
  let ?sv1 = "sv\<lparr>sv_state := tasks\<rparr>"
  have "agg_inv (sv_state ?sv1)"
    using run_cleanup_inv [OF inv, of "sv_config sv" "now_of (at_call c 1)" kind] rc by simp
  then obtain after where a: "svc_snapshot D (at_call c 2) ?sv1 = Inr after"
    by (rule svc_snapshot_ok [OF K])
  have undo: "holds_tasks (restore_snapshot D c' before sv0) (sv_state sv)" for c' sv0
    by (rule restore_snapshot_holds [OF inv b(2)])
  let ?gone = "filter (\<lambda>p. (p_service_id p, p_call_id p)
      \<notin> set (map (\<lambda>p. (p_service_id p, p_call_id p)) after)) before"
  obtain dr db where del: "delete_removed (dp_backend D) [] ?gone (sv_store sv) = (dr, db)"
    by (rule prod.exhaust)
  obtain fr fb where fl: "be_flush (dp_backend D) db = (fr, fb)" by (rule prod.exhaust)
  note unf = run [unfolded cleanup_with_persistence_def b(1) sum.case rc prod.case Let_def]
  show ?thesis
  proof (cases "n = 0")
    case True
    then show ?thesis using unf rc by auto
  next
    case False
    then show ?thesis
      using unf a del fl rc undo by (cases dr; cases fr) (auto split: prod.splits)
  qed
qed

lemma svc_remove_outcome:
  assumes "svc_remove_task D c sid cid sv = (r, sv')"
  shows "sv_config sv' = sv_config sv
    \<and> sv_state sv' = (if r then hm_remove (TaskId sid cid) (sv_state sv) else sv_state sv)"
  using assms
  by (auto simp: svc_remove_task_def remove_task_def get_status_def Let_def
      split: if_splits sum.splits prod.splits)

section \<open>Reachable services\<close>

inductive svc_step ::
  "('s, 'p, 'b) deps \<Rightarrow> ('s, 'p, 'b) service \<Rightarrow> ('s, 'p, 'b) service \<Rightarrow> bool"
  for D :: "('s, 'p, 'b) deps" where
  init: "(\<And>st. tc_operator_stakes cfg = Some st \<Longrightarrow> hm_wf st) \<Longrightarrow>
     svc_step D sv (snd (svc_init_task_with_message_config D c sid cid out msg sch n cfg sv))"
| submit: "svc_step D sv (snd (svc_submit_signature D c req sv))"
| mark: "svc_step D sv (snd (svc_mark_submitted D c sid cid sv))"
| remove: "svc_step D sv (snd (svc_remove_task D c sid cid sv))"
| cleanup: "svc_step D sv (snd (cleanup_with_persistence D c kind sv))"

inductive svc_reachable ::
  "('s, 'p, 'b) deps \<Rightarrow> ('s, 'p, 'b) service \<Rightarrow> ('s, 'p, 'b) service \<Rightarrow> bool"
  for D :: "('s, 'p, 'b) deps" and sv0 :: "('s, 'p, 'b) service" where
  start: "svc_reachable D sv0 sv0"
| step: "svc_reachable D sv0 sv \<Longrightarrow> svc_step D sv sv' \<Longrightarrow> svc_reachable D sv0 sv'"

text \<open>Every recorded signature verifies under the key recorded with it.\<close>

definition task_verified :: "('s, 'p) crypto \<Rightarrow> ('s, 'p) task_state \<Rightarrow> bool" where
  "task_verified X t \<longleftrightarrow>
     (\<forall>i sig pk. hm_get (ts_signatures t) i = Some sig \<longrightarrow> hm_get (ts_public_keys t) i = Some pk \<longrightarrow>
        scheme_verify X (ts_signature_scheme t) pk (ts_message t) sig)"

definition state_verified :: "('s, 'p) crypto \<Rightarrow> ('s, 'p) agg_state \<Rightarrow> bool" where
  "state_verified X s \<longleftrightarrow> (\<forall>tid t. hm_get s tid = Some t \<longrightarrow> task_verified X t)"

definition svc_inv :: "('s, 'p, 'b) deps \<Rightarrow> ('s, 'p, 'b) service \<Rightarrow> bool" where
  "svc_inv D sv \<longleftrightarrow> agg_inv (sv_state sv)
     \<and> (cf_verify_on_submit (sv_config sv) \<longrightarrow> state_verified (dp_crypto D) (sv_state sv))"

lemma state_verified_sim:
  assumes "state_sim s' s" and "state_verified X s"
  shows "state_verified X s'"
  unfolding state_verified_def
proof (intro allI impI)
  fix tid t assume t: "hm_get s' tid = Some t"
  have "rel_option task_sim (hm_get s' tid) (hm_get s tid)"
    using assms(1) by (simp add: state_sim_def)
  then obtain u where "hm_get s tid = Some u" "task_sim t u"
    unfolding t by (auto simp: option_rel_Some1)
  moreover from this(1) assms(2) have "task_verified X u" by (simp add: state_verified_def)
  ultimately show "task_verified X t" by (simp add: task_verified_def task_sim_def)
qed

lemma svc_inv_holds:
  "svc_inv D sv \<Longrightarrow> holds_tasks sv' (sv_state sv) \<Longrightarrow> sv_config sv' = sv_config sv \<Longrightarrow> svc_inv D sv'"
  by (auto simp: svc_inv_def holds_tasks_def intro: state_verified_sim)

lemma svc_inv_request:
  assumes "svc_inv D sv" and "request_outcome sv f out"
    and "\<And>a. fst f = Inr a \<Longrightarrow> agg_inv (snd f)"
    and "\<And>a. fst f = Inr a \<Longrightarrow> cf_verify_on_submit (sv_config sv) \<Longrightarrow>
      state_verified (dp_crypto D) (snd f)"
  shows "svc_inv D (snd out)"
proof (cases "fst out")
  case (Inl e)
  have "holds_tasks (snd out) (sv_state sv)" "sv_config (snd out) = sv_config sv"
    using assms(2) Inl unfolding request_outcome_def by simp_all
  with assms(1) show ?thesis by (rule svc_inv_holds)
next
  case (Inr x)
  then obtain a where "fst f = Inr a" "sv_state (snd out) = snd f" "sv_config (snd out) = sv_config sv"
    using assms(2) unfolding request_outcome_def by auto
  then show ?thesis
    using assms(3) [of a] assms(4) [of a] unfolding svc_inv_def by simp
qed

lemma state_verified_insert:
  "state_verified X s \<Longrightarrow> task_verified X t \<Longrightarrow> state_verified X (hm_insert tid t s)"
  by (auto simp: state_verified_def split: if_splits)

lemma task_verified_put:
  "task_verified X t \<Longrightarrow> scheme_verify X (ts_signature_scheme t) pk (ts_message t) sig \<Longrightarrow>
     task_verified X (put_signature i sig pk t)"
  by (auto simp: task_verified_def put_signature_def split: if_splits)

lemma state_verified_init:
  "state_verified X s \<Longrightarrow>
     state_verified X (snd (init_task_with_message_config now sid cid out msg sch n cfg s))"
  by (auto simp: init_task_with_message_config_def Let_def task_verified_def
      intro!: state_verified_insert split: option.splits)

lemma state_verified_mark:
  "state_verified X s \<Longrightarrow> state_verified X (snd (mark_submitted now sid cid s))"
  by (auto simp: mark_submitted_def Let_def intro!: state_verified_insert split: option.splits)
    (auto simp: state_verified_def task_verified_def)

lemma state_verified_retain:
  "hm_wf s \<Longrightarrow> state_verified X s \<Longrightarrow> state_verified X (hm_retain p s)"
  by (auto simp: state_verified_def hm_get_retain split: option.splits if_splits)

lemma check_submission_verified:
  assumes "check_submission D c req sv = Inr (sig, pk, status)" and "cf_verify_on_submit (sv_config sv)"
    and "hm_get (sv_state sv) (TaskId (rq_service_id req) (rq_call_id req)) = Some t"
  shows "scheme_verify (dp_crypto D) (ts_signature_scheme t) pk (ts_message t) sig"
  using assms
  by (auto simp: check_submission_def check_verified_def get_task_signature_context_def
      res_bind_Inr_iff split: if_splits)

lemma state_verified_submit:
  assumes "state_verified X s"
    and "\<And>t. hm_get s (TaskId sid cid) = Some t \<Longrightarrow>
      scheme_verify X (ts_signature_scheme t) pk (ts_message t) sig"
  shows "state_verified X (snd (submit_signature now now' sid cid i sig pk s))"
proof (cases rule: submit_cases [of now now' sid cid i sig pk s])
  case (rejected e)
  then show ?thesis using assms(1) by simp
next
  case (accepted t)
  then have "task_verified X t" using assms(1) by (simp add: state_verified_def)
  then show ?thesis
    using accepted assms by (auto intro: state_verified_insert task_verified_put)
qed

lemma svc_step_inv:
  assumes K: "codec_ok (dp_codec D)" and "svc_step D sv sv'" and inv: "svc_inv D sv"
  shows "svc_inv D sv'"
  using assms(2)
proof cases
  case (init cfg c sid cid out msg sch n)
  have "agg_inv (sv_state sv)" using inv by (simp add: svc_inv_def)
  with inv show ?thesis
    unfolding init(1)
    by (intro svc_inv_request [OF inv svc_init_outcome [OF K]] init_inv [OF _ init(2)]
        state_verified_init) (simp_all add: svc_inv_def)
next
  case (submit c req)
  have agg: "agg_inv (sv_state sv)" using inv by (simp add: svc_inv_def)
  show ?thesis
  proof (cases "check_submission D (at_call c 1) req sv")
    case (Inl e)
    then show ?thesis using svc_submit_outcome [OF K agg, of c req] submit inv by simp
  next
    case (Inr q)
    obtain sig pk status where q: "q = (sig, pk, status)" by (cases q)
    let ?f = "submit_signature (now_of (at_call c 2)) (now_of (at_call c 3))
        (rq_service_id req) (rq_call_id req) (rq_operator_index req) sig pk (sv_state sv)"
    have out: "request_outcome sv ?f (svc_submit_signature D c req sv)"
      using svc_submit_outcome [OF K agg, of c req] Inr q by simp
    have "state_verified (dp_crypto D) (snd ?f)" if "cf_verify_on_submit (sv_config sv)"
      using that inv check_submission_verified [OF Inr [unfolded q] that]
      by (intro state_verified_submit) (auto simp: svc_inv_def)
    with svc_inv_request [OF inv out] submit_inv [OF agg] show ?thesis
      unfolding submit by simp
  qed
next
  case (mark c sid cid)
  have "agg_inv (sv_state sv)" using inv by (simp add: svc_inv_def)
  with inv show ?thesis
    unfolding mark
    by (intro svc_inv_request [OF inv svc_mark_outcome [OF K]] mark_inv state_verified_mark)
      (simp_all add: svc_inv_def)
next
  case (remove c sid cid)
  then show ?thesis
    using svc_remove_outcome [OF prod.collapse [symmetric], of D c sid cid sv] inv
    by (auto simp: svc_inv_def agg_inv_remove state_verified_def split: if_splits)
next
  case (cleanup c kind)
  have agg: "agg_inv (sv_state sv)" using inv by (simp add: svc_inv_def)
  note out = cleanup_outcome [OF K agg prod.collapse [symmetric], of c kind]
  show ?thesis
  proof (cases "fst (cleanup_with_persistence D c kind sv)")
    case (Inl e)
    then show ?thesis
      using out cleanup by (intro svc_inv_holds [OF inv]) simp_all
  next
    case (Inr n)
    obtain keep where "run_cleanup (sv_config sv) (now_of (at_call c 1)) kind (sv_state sv)
        = retain_counting keep (sv_state sv)" by (rule run_cleanup_retain)
    then have "sv_state sv' = hm_retain (\<lambda>_ t. keep t) (sv_state sv)" "sv_config sv' = sv_config sv"
      using out Inr cleanup by (auto simp: retain_counting_def Let_def)
    then show ?thesis
      using inv state_verified_retain [OF agg_inv_wf [OF agg]] by (simp add: svc_inv_def agg_inv_retain)
  qed
qed


lemma svc_reachable_inv:
  assumes "svc_reachable D sv0 sv" and "codec_ok (dp_codec D)" and "svc_inv D sv0"
  shows "svc_inv D sv"
  using assms by (induction rule: svc_reachable.induct) (auto intro: svc_step_inv)

lemma svc_inv_empty: "sv_state sv = [] \<Longrightarrow> svc_inv D sv"
  by (simp add: svc_inv_def state_verified_def)

section \<open>Aggregated results verify\<close>

text \<open>What is relied on of the curve: adding the neutral point changes nothing, and the sum
  of two signatures of one message verifies under the sum of the keys (the pairing is
  bilinear).\<close>

definition bls_ok :: "('s, 'p) crypto \<Rightarrow> bool" where
  "bls_ok X \<longleftrightarrow>
     (\<forall>s. cr_sig_add X (cr_sig_zero X) s = s) \<and> (\<forall>k. cr_pk_add X (cr_pk_zero X) k = k)
     \<and> (\<forall>sch k k' m s s'. scheme_verify X sch k m s \<longrightarrow> scheme_verify X sch k' m s' \<longrightarrow>
           scheme_verify X sch (cr_pk_add X k k') m (cr_sig_add X s s'))"

lemma fold_enumerate_zip:
  assumes "length xs = length ys"
  shows "fold (\<lambda>(i, y) a. f (xs ! i) y a) (enumerate 0 ys) a = fold (\<lambda>(x, y) a. f x y a) (zip xs ys) a"
proof -
  have "zip xs ys = map (\<lambda>(i, y). (xs ! i, y)) (enumerate 0 ys)"
    by (rule nth_equalityI) (use assms in \<open>auto simp: nth_enumerate_eq\<close>)
  then show ?thesis by (simp add: fold_map case_prod_unfold comp_def)
qed

lemma aggregate_zip:
  assumes "bn254_aggregate X sigs pks = Inr (asig, apk)"
  shows "sigs \<noteq> [] \<and> length sigs = length pks
    \<and> fold (\<lambda>(s, k) (as, ak). (cr_sig_add X as s, cr_pk_add X ak k)) (zip sigs pks)
        (cr_sig_zero X, cr_pk_zero X) = (asig, apk)"
proof -
  have len: "length sigs = length pks" and ne: "sigs \<noteq> []"
    and run: "fold (\<lambda>(i, key) (as, ak). (cr_sig_add X as (sigs ! i), cr_pk_add X ak key))
        (enumerate 0 pks) (cr_sig_zero X, cr_pk_zero X) = (asig, apk)"
    using assms by (auto simp: bn254_aggregate_def split: if_splits)
  from fold_enumerate_zip [OF len, of "\<lambda>s k (as, ak). (cr_sig_add X as s, cr_pk_add X ak k)"] run
  show ?thesis using len ne by simp
qed

lemma fold_verifies:
  assumes "bls_ok X" and "\<forall>(s, k) \<in> set ps. scheme_verify X sch k m s" and "scheme_verify X sch ak m as"
  shows "case fold (\<lambda>(s, k) (as, ak). (cr_sig_add X as s, cr_pk_add X ak k)) ps (as, ak) of
    (as', ak') \<Rightarrow> scheme_verify X sch ak' m as'"
  using assms(2,3)
proof (induction ps arbitrary: as ak)
  case (Cons p ps)
  obtain s k where p: "p = (s, k)" by (cases p)
  have "scheme_verify X sch (cr_pk_add X ak k) m (cr_sig_add X as s)"
    using assms(1) Cons.prems p unfolding bls_ok_def by auto
  with Cons.IH Cons.prems(1) p show ?case by simp
qed simp

lemma aggregate_verifies:
  assumes "bls_ok X" and "bn254_aggregate X sigs pks = Inr (asig, apk)"
    and "list_all2 (\<lambda>s k. scheme_verify X sch k m s) sigs pks"
  shows "scheme_verify X sch apk m asig"
proof -
  note z = aggregate_zip [OF assms(2)]
  then obtain s k ss ks where "sigs = s # ss" "pks = k # ks"
    by (metis length_0_conv list.exhaust)
  moreover have "\<forall>(s, k) \<in> set (zip sigs pks). scheme_verify X sch k m s"
    using assms(3) by (auto simp: list_all2_iff)
  moreover have "cr_sig_add X (cr_sig_zero X) s = s" "cr_pk_add X (cr_pk_zero X) k = k"
    using assms(1) by (simp_all add: bls_ok_def)
  ultimately show ?thesis
    using z fold_verifies [OF assms(1), of "zip ss ks" sch m k s] by simp
qed

lemma res_ok_Some: "res_ok r = Some a \<longleftrightarrow> r = Inr a"
  by (simp add: res_ok_def split: sum.split)

lemma list_all2_lookup:
  assumes "map Some xs = map f is" and "map Some ys = map g is"
    and "\<And>i x y. f i = Some x \<Longrightarrow> g i = Some y \<Longrightarrow> R x y"
  shows "list_all2 R xs ys"
  using assms
proof (induction "is" arbitrary: xs ys)
  case (Cons i "is")
  then obtain x xs' y ys' where "xs = x # xs'" "ys = y # ys'" by (auto simp: map_eq_Cons_conv)
  with Cons show ?case by auto
qed simp

lemma aggregated_answer:
  assumes K: "codec_ok (dp_codec D)" and X: "bls_ok (dp_crypto D)" and inv: "svc_inv D sv"
    and verify: "cf_verify_on_submit (sv_config sv)"
    and run: "svc_get_aggregated_result D c sid cid sv = Some r"
  obtains t asig apk where "hm_get (sv_state sv) (TaskId sid cid) = Some t" "threshold_met t"
    "ar_service_id r = sid" "ar_call_id r = cid" "ar_output r = ts_output t"
    "ar_signer_bitmap r = ts_signer_bitmap t"
    "pc_sig_de (dp_codec D) (ar_signature r) = Inr asig" "pc_pk_de (dp_codec D) (ar_pubkey r) = Inr apk"
    "bn254_aggregate (dp_crypto D) (fst (get_signatures_for_aggregation t))
        (snd (get_signatures_for_aggregation t)) = Inr (asig, apk)"
    "scheme_verify (dp_crypto D) (ts_signature_scheme t) apk (ts_message t) asig"
proof -
  let ?X = "dp_crypto D" and ?K = "dp_codec D"
  from run obtain ta asig apk sb pb where
    ta: "get_for_aggregation (now_of c) sid cid (sv_state sv) = Some ta"
    and agg: "bn254_aggregate ?X (ta_signatures ta) (ta_public_keys ta) = Inr (asig, apk)"
    and ser: "pc_sig_ser ?K asig = Inr sb" "pc_pk_ser ?K apk = Inr pb"
    and r: "ar_output r = ta_output ta" "ar_signature r = sb" "ar_pubkey r = pb"
      "ar_signer_bitmap r = ta_signer_bitmap ta" "ar_service_id r = ta_service_id ta"
      "ar_call_id r = ta_call_id ta"
    by (auto simp: svc_get_aggregated_result_def res_ok_Some bind_eq_Some_conv)
  from ta obtain t where t: "hm_get (sv_state sv) (TaskId sid cid) = Some t" "threshold_met t"
    "ta_output ta = ts_output t" "ta_signer_bitmap ta = ts_signer_bitmap t"
    "ta_signatures ta = fst (get_signatures_for_aggregation t)"
    "ta_public_keys ta = snd (get_signatures_for_aggregation t)"
    by (rule get_for_aggregation_Some)
  have ids: "ta_service_id ta = ts_service_id t" "ta_call_id ta = ts_call_id t"
    using ta t(1) by (auto simp: get_for_aggregation_def split: if_splits prod.splits)
  have ti: "task_inv t" and tid: "TaskId sid cid = TaskId (ts_service_id t) (ts_call_id t)"
    using inv agg_invD [OF _ t(1)] by (simp_all add: svc_inv_def)
  have tv: "task_verified ?X t" using inv verify t(1) by (simp add: svc_inv_def state_verified_def)
  have "list_all2 (\<lambda>s k. scheme_verify ?X (ts_signature_scheme t) k (ts_message t) s)
      (ta_signatures ta) (ta_public_keys ta)"
    unfolding t(5,6)
    by (rule list_all2_lookup [OF get_signatures_for_aggregation_inv [OF ti]])
      (use tv in \<open>simp add: task_verified_def\<close>)
  then have "scheme_verify ?X (ts_signature_scheme t) apk (ts_message t) asig"
    by (rule aggregate_verifies [OF X agg])
  moreover have "pc_sig_de ?K sb = Inr asig" "pc_pk_de ?K pb = Inr apk"
    using K ser unfolding codec_ok_def by (metis sum.inject(2))+
  ultimately show thesis
    using t r agg ids tid by (intro that [of t asig apk]) simp_all
qed


text \<open>
  C24: a request that fails leaves the tasks in memory as they were (apart from the conversion of
  their times when a snapshot is restored), and the map keeps its invariant; this covers rejected
  requests and every failure of the backend while the change is being persisted.
\<close>

theorem failed_requests_keep_tasks:
  assumes "codec_ok (dp_codec D)" and "agg_inv (sv_state sv)"
  shows "(case svc_init_task_with_message_config D c sid cid out msg sch n cfg sv of
        (Inl _, sv') \<Rightarrow> holds_tasks sv' (sv_state sv) | (Inr _, _) \<Rightarrow> True)
    \<and> (case svc_submit_signature D c req sv of
        (Inl _, sv') \<Rightarrow> holds_tasks sv' (sv_state sv) | (Inr _, _) \<Rightarrow> True)
    \<and> (case svc_mark_submitted D c sid cid sv of
        (Inl _, sv') \<Rightarrow> holds_tasks sv' (sv_state sv) | (Inr _, _) \<Rightarrow> True)
    \<and> (case cleanup_with_persistence D c kind sv of
        (Inl _, sv') \<Rightarrow> holds_tasks sv' (sv_state sv) | (Inr _, _) \<Rightarrow> True)"
proof (intro conjI)
  show "case svc_init_task_with_message_config D c sid cid out msg sch n cfg sv of
        (Inl _, sv') \<Rightarrow> holds_tasks sv' (sv_state sv) | (Inr _, _) \<Rightarrow> True"
    using svc_init_outcome [OF assms, of c sid cid out msg sch n cfg]
    by (auto simp: request_outcome_def split: prod.splits sum.splits)
  show "case svc_mark_submitted D c sid cid sv of
        (Inl _, sv') \<Rightarrow> holds_tasks sv' (sv_state sv) | (Inr _, _) \<Rightarrow> True"
    using svc_mark_outcome [OF assms, of c sid cid]
    by (auto simp: request_outcome_def split: prod.splits sum.splits)
  show "case cleanup_with_persistence D c kind sv of
        (Inl _, sv') \<Rightarrow> holds_tasks sv' (sv_state sv) | (Inr _, _) \<Rightarrow> True"
    using cleanup_outcome [OF assms prod.collapse [symmetric], of c kind]
    by (auto split: prod.splits sum.splits)
  show "case svc_submit_signature D c req sv of
        (Inl _, sv') \<Rightarrow> holds_tasks sv' (sv_state sv) | (Inr _, _) \<Rightarrow> True"
    using svc_submit_outcome [OF assms, of c req] holds_tasks_refl [OF assms(2)]
    by (auto simp: request_outcome_def split: prod.splits sum.splits)
qed


section \<open>Persisting one task\<close>

lemma find_persisted_id:
  "find_persisted sid cid ps = find (\<lambda>p. persisted_id p = TaskId sid cid) ps"
  by (simp add: find_persisted_def persisted_id_def)

lemma find_persisted_Some:
  assumes "snapshot_of K s ps" and "hm_get s (TaskId sid cid) = Some t"
  obtains p where "find_persisted sid cid ps = Some p" "persists K t p" "persisted_wf p"
    "persisted_id p = TaskId sid cid"
proof -
  have "TaskId sid cid \<in> persisted_id ` set ps"
    using assms unfolding snapshot_of_def by (simp add: domIff)
  then have "find_persisted sid cid ps \<noteq> None"
    unfolding find_persisted_id find_None_iff by auto
  then obtain p where p: "find_persisted sid cid ps = Some p" by blast
  then have in_ps: "p \<in> set ps" and id: "persisted_id p = TaskId sid cid"
    unfolding find_persisted_id find_Some_iff by auto
  have "persisted_wf p" "\<exists>u. hm_get s (persisted_id p) = Some u \<and> persists K u p"
    using assms(1) in_ps unfolding snapshot_of_def by blast+
  with p id assms(2) show ?thesis by (intro that) simp_all
qed

lemma find_persisted_None:
  "snapshot_of K s ps \<Longrightarrow> hm_get s (TaskId sid cid) = None \<Longrightarrow> find_persisted sid cid ps = None"
  by (auto simp: snapshot_of_def find_persisted_id find_None_iff)

lemma persist_task_eq:
  assumes "codec_ok (dp_codec D)" and "agg_inv (sv_state sv)"
    and "hm_get (sv_state sv) (TaskId sid cid) = Some t"
  obtains p where "persists (dp_codec D) t p" "persisted_wf p" "persisted_id p = TaskId sid cid"
    "persist_task D c sid cid sv =
       (case be_save (dp_backend D) p (sv_store sv) of
          (Inl e, b) \<Rightarrow> (Inl (persistence_error e), sv\<lparr>sv_store := b\<rparr>)
        | (Inr _, b) \<Rightarrow> (case be_flush (dp_backend D) b of
            (r, b') \<Rightarrow> (res_map_err persistence_error r, sv\<lparr>sv_store := b'\<rparr>)))"
proof -
  obtain ps where ps: "svc_snapshot D c sv = Inr ps" "snapshot_of (dp_codec D) (sv_state sv) ps"
    by (rule svc_snapshot_ok [OF assms(1,2)])
  obtain p where "find_persisted sid cid ps = Some p" "persists (dp_codec D) t p" "persisted_wf p"
    "persisted_id p = TaskId sid cid"
    by (rule find_persisted_Some [OF ps(2) assms(3)])
  with ps(1) that show ?thesis by (simp add: persist_task_def)
qed

lemma persist_no_backend:
  assumes "codec_ok (dp_codec D)" and "agg_inv (sv_state sv)" and "dp_backend D = no_backend"
    and "hm_get (sv_state sv) (TaskId sid cid) \<noteq> None"
  shows "persist_or_undo D c before sid cid res sv = (Inr res, sv)"
proof -
  obtain t where "hm_get (sv_state sv) (TaskId sid cid) = Some t" using assms(4) by blast
  then have "persist_task D (at_call c 0) sid cid sv = (Inr (), sv)"
    by (rule persist_task_eq [OF assms(1,2), of _ _ _ "at_call c 0"])
      (simp add: assms(3) no_backend_def)
  then show ?thesis by (simp add: persist_or_undo_def)
qed

section \<open>A concrete service\<close>

text \<open>A signature of any message under key \<open>k\<close> is the number \<open>k\<close>.\<close>

definition demo_crypto :: "(nat, nat) crypto" where
  "demo_crypto = \<lparr>cr_verify = (\<lambda>k m s. s = k), cr_verify_tangle = (\<lambda>k m s. s = k), cr_sig_zero = 0,
     cr_sig_add = (+), cr_pk_zero = 0, cr_pk_add = (+), cr_keccak256 = (\<lambda>bs. bs)\<rparr>"

definition demo_deps :: "(nat, nat, unit) deps" where
  "demo_deps = \<lparr>dp_backend = no_backend, dp_codec = demo_codec, dp_crypto = demo_crypto\<rparr>"

definition demo_request :: submit_request where
  "demo_request = \<lparr>rq_service_id = 7, rq_call_id = 1, rq_operator_index = 1, rq_output = [9],
     rq_signature = [0, 0], rq_public_key = [0, 0]\<rparr>"

definition demo_service :: "(nat, nat, unit) service" where
  "demo_service = snd (svc_submit_signature demo_deps (demo_clock 10) demo_request
     (snd (svc_init_task demo_deps (demo_clock 0) 7 1 [9] 3 1 (service_new service_config_default))))"

lemma demo_bls_ok: "bls_ok demo_crypto"
  by (simp add: bls_ok_def demo_crypto_def scheme_verify_def split: signature_scheme.split)

lemma demo_service_reachable:
  "svc_reachable demo_deps (service_new service_config_default) demo_service"
  unfolding demo_service_def svc_init_task_def svc_init_task_with_config_def
  by (intro svc_reachable.step [OF svc_reachable.step [OF svc_reachable.start svc_step.init]
        svc_step.submit])
    (simp add: task_config_default_def)

definition demo_open_task :: "(nat, nat) task_state" where
  "demo_open_task = with_message_config 0 7 1 [9] (create_signing_message demo_crypto 7 1 [9])
     ArkworksSha256 3 (Count 1) None (Some (secs 3600))"

definition demo_open :: "(nat, nat, unit) service" where
  "demo_open = \<lparr>sv_state = [(TaskId 7 1, demo_open_task)], sv_config = service_config_default,
     sv_store = ()\<rparr>"

lemmas demo_run_defs = svc_snapshot_def snapshot_def persist_or_undo_def persist_task_def
  to_persisted_def encode_points_def find_persisted_def demo_deps_def no_backend_def Let_def

lemma demo_init_run:
  "svc_init_task demo_deps (demo_clock 0) 7 1 [9] 3 1 (service_new service_config_default)
     = (Inr (), demo_open)"
  by (simp add: demo_run_defs svc_init_task_def svc_init_task_with_config_def hm_insert_def
      svc_init_task_with_message_config_def service_new_def init_task_with_message_config_def
      demo_open_def demo_open_task_def now_of_def at_call_def demo_clock_def task_config_default_def
      service_config_default_def)

lemma demo_open_sel:
  "ts_signatures demo_open_task = []" "ts_public_keys demo_open_task = []"
  "ts_submitted demo_open_task = False" "ts_expires_at demo_open_task = Some (int (secs 3600))"
  "ts_operator_count demo_open_task = 3" "ts_signer_bitmap demo_open_task = 0"
  "ts_output demo_open_task = [9]" "ts_signature_scheme demo_open_task = ArkworksSha256"
  "ts_service_id demo_open_task = 7" "ts_call_id demo_open_task = 1"
  "ts_threshold_type demo_open_task = Count 1"
  by (simp_all add: demo_open_task_def)

lemma demo_check_run:
  "check_submission demo_deps (at_call (demo_clock 10) 1) demo_request demo_open
     = Inr (2, 2, the (get_status 10 7 1 (sv_state demo_open)))"
  by (simp add: check_submission_def check_output_def check_verified_def get_task_output_def
      get_task_signature_context_def get_status_def demo_request_def demo_open_def demo_open_sel
      demo_deps_def demo_codec_def demo_crypto_def scheme_verify_def is_expired_def secs_def
      now_of_def at_call_def demo_clock_def)

lemma demo_deps_codec: "codec_ok (dp_codec demo_deps)"
  using demo_codec_ok by (simp add: demo_deps_def)

lemma demo_deps_backend: "dp_backend demo_deps = no_backend"
  by (simp add: demo_deps_def)

lemma demo_open_inv: "agg_inv (sv_state demo_open)"
  by (auto simp: demo_open_def demo_open_task_def agg_inv_def hm_wf_def intro!: with_message_config_inv)

lemma demo_submit_run:
  "sv_state (snd (svc_submit_signature demo_deps (demo_clock 10) demo_request demo_open))
     = [(TaskId 7 1, put_signature 1 2 2 demo_open_task)]
   \<and> sv_config (snd (svc_submit_signature demo_deps (demo_clock 10) demo_request demo_open))
     = sv_config demo_open"
proof -
  have "submit_signature 10 10 7 1 1 2 2 (sv_state demo_open)
      = (Inr (1, True), [(TaskId 7 1, put_signature 1 2 2 demo_open_task)])"
    by (simp add: submit_signature_def add_signature_def demo_open_def demo_open_sel is_expired_def
        secs_def has_signed_def put_signature_def hm_insert_def signature_count_def threshold_met_def
        word_le_nat_alt)
  moreover have "now_of (at_call (demo_clock 10) k) = 10" for k
    by (simp add: now_of_def at_call_def demo_clock_def)
  moreover obtain before where "svc_snapshot demo_deps (at_call (demo_clock 10) 0) demo_open = Inr before"
    by (rule svc_snapshot_ok [OF demo_deps_codec demo_open_inv])
  moreover have "agg_inv [(TaskId 7 1, put_signature 1 2 2 demo_open_task)]"
    using submit_inv [OF demo_open_inv, of 10 10 7 1 1 2 2] calculation(1) by simp
  ultimately show ?thesis
    using demo_check_run
    by (simp add: svc_submit_signature_def demo_request_def persist_no_backend [OF demo_deps_codec]
        demo_deps_backend)
qed

lemma demo_service_state: "sv_state demo_service = [(TaskId 7 1, put_signature 1 2 2 demo_open_task)]"
  "sv_config demo_service = service_config_default"
  using demo_submit_run by (simp_all add: demo_service_def demo_init_run demo_open_def)

definition demo_answer :: aggregated_result where
  "demo_answer = \<lparr>ar_service_id = 7, ar_call_id = 1, ar_output = [9], ar_signer_bitmap = 2,
     ar_non_signer_indices = [0, 2], ar_signature = [0, 0], ar_pubkey = [0, 0]\<rparr>"

lemma demo_answer_run:
  "svc_get_aggregated_result demo_deps (demo_clock 20) 7 1 demo_service = Some demo_answer"
  by (simp add: svc_get_aggregated_result_def get_for_aggregation_def demo_service_state demo_answer_def
      threshold_met_def signature_count_def demo_open_sel is_expired_def secs_def now_of_def demo_clock_def
      get_signatures_for_aggregation_def get_signers_def get_non_signers_def operator_range_def has_signed_def put_signature_def
      bn254_aggregate_def demo_deps_def demo_crypto_def demo_codec_def res_ok_def hm_insert_def upt_rec)


lemma demo_mismatch_run:
  "svc_submit_signature demo_deps (demo_clock 10) (demo_request\<lparr>rq_output := []\<rparr>) demo_open
     = (Inl OutputMismatch, demo_open)"
  by (rule svc_snapshot_ok [OF demo_deps_codec demo_open_inv, of "at_call (demo_clock 10) 0"])
    (simp add: svc_submit_signature_def check_submission_def check_output_def get_task_output_def
      demo_request_def demo_open_sel,
     simp add: demo_open_def demo_open_sel service_config_default_def)

theorem failed_requests_keep_tasks_witness:
  "case svc_submit_signature demo_deps (demo_clock 10) (demo_request\<lparr>rq_output := []\<rparr>) demo_open of
     (Inl e, sv') \<Rightarrow> e = OutputMismatch \<and> holds_tasks sv' (sv_state demo_open) | (Inr _, _) \<Rightarrow> False"
proof -
  show ?thesis
    using failed_requests_keep_tasks [OF demo_deps_codec demo_open_inv, of "demo_clock 10" 0 0 "[]" "[]"
        ArkworksSha256 0 task_config_default "demo_request\<lparr>rq_output := []\<rparr>" All] demo_mismatch_run
    by simp
qed

end
