(* ===== verification/Agg_Durability.thy ===== *)
theory Agg_Durability
  imports Agg_Service_Correct
begin

text \<open>
  The service and its backend together: what is in memory is what is stored. The invariant
  is proved once for every backend whose flush does not fail (locale \<open>reliable_backend\<close>) and
  instantiated for the file backend under arbitrary I/O faults; a restart then finds
  the tasks again.
\<close>

section \<open>Memory and store in step\<close>

definition in_sync :: "('s, 'p) point_codec \<Rightarrow> ('s, 'p) agg_state \<Rightarrow> store \<Rightarrow> bool" where
  "in_sync K s f \<longleftrightarrow> (\<forall>tid. rel_option (persists K) (hm_get s tid) (f tid))"

definition synced ::
  "('s, 'p) point_codec \<Rightarrow> ('b \<Rightarrow> store) \<Rightarrow> ('b \<Rightarrow> bool) \<Rightarrow> ('s, 'p, 'b) service \<Rightarrow> bool" where
  "synced K stored ok sv \<longleftrightarrow>
     agg_inv (sv_state sv) \<and> ok (sv_store sv) \<and> in_sync K (sv_state sv) (stored (sv_store sv))"

lemma in_sync_same_store:
  assumes "in_sync K s f" and "same_store g f"
  shows "in_sync K s g"
  unfolding in_sync_def
proof
  fix tid
  have "rel_option (persists K) (hm_get s tid) (f tid)" "rel_option same_persisted (g tid) (f tid)"
    using assms by (simp_all add: in_sync_def same_store_def)
  then show "rel_option (persists K) (hm_get s tid) (g tid)"
    by (cases "f tid") (auto simp: option_rel_Some2 same_persisted_persists)
qed

lemma in_sync_sim:
  assumes "in_sync K s f" and "state_sim u s"
  shows "in_sync K u f"
  unfolding in_sync_def
proof
  fix tid
  have "rel_option (persists K) (hm_get s tid) (f tid)" "rel_option task_sim (hm_get u tid) (hm_get s tid)"
    using assms by (simp_all add: in_sync_def state_sim_def)
  then show "rel_option (persists K) (hm_get u tid) (f tid)"
    by (cases "hm_get s tid") (auto simp: option_rel_Some1 option_rel_Some2 intro: persists_sim)
qed

lemma in_sync_upd:
  assumes "in_sync K s f" and "persists K t p"
    and "hm_get u tid = Some t" and "\<And>tid'. tid' \<noteq> tid \<Longrightarrow> hm_get u tid' = hm_get s tid'"
  shows "in_sync K u (f(tid \<mapsto> p))"
  using assms by (auto simp: in_sync_def)

lemma in_sync_None: "in_sync K s f \<Longrightarrow> hm_get s tid = None \<Longrightarrow> f(tid := None) = f"
  by (auto simp: in_sync_def fun_eq_iff dest: spec [of _ tid])

locale reliable_backend = persistence_backend P stored ok
  for P :: "'b backend" and stored :: "'b \<Rightarrow> store" and ok :: "'b \<Rightarrow> bool" +
  assumes flush_ok: "ok b \<Longrightarrow> be_flush P b = (r, b') \<Longrightarrow> r = Inr ()"
begin

lemma flush_stored:
  assumes "ok b"
  shows "ok (snd (be_flush P b)) \<and> stored (snd (be_flush P b)) = stored b"
  using flush_keeps [OF assms prod.collapse [symmetric]] .

lemma restore_task_sync:
  assumes sync: "in_sync K s (stored (sv_store sv))" and ok: "ok (sv_store sv)"
    and before: "snapshot_of K s before" and D: "dp_backend D = P"
  shows "ok (sv_store (restore_persisted_task D before tid sv))
    \<and> in_sync K s (stored (sv_store (restore_persisted_task D before tid sv)))"
proof -
  obtain sid cid where tid: "tid = TaskId sid cid" by (cases tid)
  show ?thesis
  proof (cases "hm_get s tid")
    case None
    have find: "find_persisted sid cid before = None"
      using find_persisted_None [OF before] None tid by simp
    obtain r b where del: "be_delete P tid (sv_store sv) = (r, b)" by (rule prod.exhaust)
    show ?thesis
    proof (cases r)
      case (Inl e)
      then show ?thesis
        using delete_err [OF ok] del find tid sync D by (simp add: restore_persisted_task_def)
    next
      case (Inr u)
      have "ok b \<and> same_store (stored b) (stored (sv_store sv))"
        using delete_ok [OF ok, of tid u b] del Inr unfolding in_sync_None [OF sync None] by simp
      then show ?thesis
        using flush_stored [of b] del Inr find tid sync D
        by (auto simp: restore_persisted_task_def intro: in_sync_same_store)
    qed
  next
    case (Some t)
    obtain p where p: "find_persisted sid cid before = Some p" "persists K t p" "persisted_wf p"
      "persisted_id p = TaskId sid cid"
      using find_persisted_Some [OF before] Some tid by metis
    obtain r b where sav: "be_save P p (sv_store sv) = (r, b)" by (rule prod.exhaust)
    show ?thesis
    proof (cases r)
      case (Inl e)
      then show ?thesis
        using save_err [OF ok] sav p tid sync D by (simp add: restore_persisted_task_def)
    next
      case (Inr u)
      have "ok b \<and> same_store (stored b) ((stored (sv_store sv))(tid \<mapsto> p))"
        using save_ok [OF ok p(3)] sav Inr p(4) tid by auto
      moreover have "in_sync K s ((stored (sv_store sv))(tid \<mapsto> p))"
        by (rule in_sync_upd [OF sync p(2) Some]) simp
      ultimately show ?thesis
        using flush_stored [of b] sav Inr p tid D
        by (auto simp: restore_persisted_task_def intro: in_sync_same_store)
    qed
  qed
qed

lemma persist_or_undo_sync:
  assumes K: "codec_ok (dp_codec D)" and D: "dp_backend D = P"
    and sync: "synced (dp_codec D) stored ok sv"
    and before: "snapshot_of (dp_codec D) (sv_state sv) before"
    and inv: "agg_inv s" and found: "hm_get s (TaskId sid cid) \<noteq> None"
    and rest: "\<And>tid. tid \<noteq> TaskId sid cid \<Longrightarrow> hm_get s tid = hm_get (sv_state sv) tid"
  shows "synced (dp_codec D) stored ok
    (snd (persist_or_undo D c before sid cid res (sv\<lparr>sv_state := s\<rparr>)))"
proof -
  let ?sv = "sv\<lparr>sv_state := s\<rparr>" and ?K = "dp_codec D"
  have ok: "ok (sv_store sv)" and in_sync: "in_sync ?K (sv_state sv) (stored (sv_store sv))"
    and inv0: "agg_inv (sv_state sv)"
    using sync by (simp_all add: synced_def)
  obtain t where t: "hm_get s (TaskId sid cid) = Some t" using found by blast
  obtain p where p: "persists ?K t p" "persisted_wf p" "persisted_id p = TaskId sid cid"
    and run: "persist_task D (at_call c 0) sid cid ?sv =
       (case be_save P p (sv_store sv) of
          (Inl e, b) \<Rightarrow> (Inl (persistence_error e), ?sv\<lparr>sv_store := b\<rparr>)
        | (Inr _, b) \<Rightarrow> (case be_flush P b of
            (r, b') \<Rightarrow> (res_map_err persistence_error r, ?sv\<lparr>sv_store := b'\<rparr>)))"
    using persist_task_eq [of D ?sv sid cid t "at_call c 0"] K inv t D by auto
  obtain r b where sav: "be_save P p (sv_store sv) = (r, b)" by (rule prod.exhaust)
  show ?thesis
  proof (cases r)
    case (Inl e)
    let ?sv1 = "?sv\<lparr>sv_store := b\<rparr>"
    have "ok b \<and> stored b = stored (sv_store sv)"
      using save_err [OF ok] sav Inl by blast
    then have undo: "ok (sv_store (restore_persisted_task D before (TaskId sid cid) ?sv1))
        \<and> in_sync ?K (sv_state sv) (stored (sv_store (restore_persisted_task D before (TaskId sid cid) ?sv1)))"
      by (intro restore_task_sync [OF _ _ before D]) (use in_sync in simp_all)
    let ?sv2 = "restore_snapshot D (at_call c 1) before
        (restore_persisted_task D before (TaskId sid cid) ?sv1)"
    have "holds_tasks ?sv2 (sv_state sv)"
      by (rule restore_snapshot_holds [OF inv0 before])
    then have "synced ?K stored ok ?sv2"
      using undo by (auto simp: synced_def holds_tasks_def restore_snapshot_def intro: in_sync_sim)
    then show ?thesis using run sav Inl by (simp add: persist_or_undo_def)
  next
    case (Inr u)
    obtain fr b' where fl: "be_flush P b = (fr, b')" by (rule prod.exhaust)
    have b: "ok b \<and> same_store (stored b) ((stored (sv_store sv))(TaskId sid cid \<mapsto> p))"
      using save_ok [OF ok p(2)] sav Inr p(3) by auto
    then have "fr = Inr ()" "ok b'" "stored b' = stored b"
      using flush_ok fl flush_keeps by blast+
    moreover have "in_sync ?K s ((stored (sv_store sv))(TaskId sid cid \<mapsto> p))"
      by (rule in_sync_upd [OF in_sync p(1) t rest])
    ultimately have "synced ?K stored ok (?sv\<lparr>sv_store := b'\<rparr>)" "fr = Inr ()"
      using b inv by (auto simp: synced_def intro: in_sync_same_store)
    then show ?thesis using run sav Inr fl by (simp add: persist_or_undo_def)
  qed
qed

lemma init_sync:
  assumes K: "codec_ok (dp_codec D)" and D: "dp_backend D = P"
    and sync: "synced (dp_codec D) stored ok sv"
    and cfg: "\<And>st. tc_operator_stakes cfg = Some st \<Longrightarrow> hm_wf st"
  shows "synced (dp_codec D) stored ok
    (snd (svc_init_task_with_message_config D c sid cid out msg sch n cfg sv))"
proof -
  let ?f = "init_task_with_message_config (now_of (at_call c 1)) sid cid out msg sch n cfg (sv_state sv)"
  have inv: "agg_inv (sv_state sv)" using sync by (simp add: synced_def)
  obtain before where b: "svc_snapshot D (at_call c 0) sv = Inr before"
    "snapshot_of (dp_codec D) (sv_state sv) before"
    by (rule svc_snapshot_ok [OF K inv])
  obtain r s where f: "?f = (r, s)" by (rule prod.exhaust)
  show ?thesis
  proof (cases r)
    case (Inl e)
    then have "s = sv_state sv" using init_Inl_state f by blast
    then show ?thesis
      using b f Inl sync by (simp add: svc_init_task_with_message_config_def)
  next
    case (Inr u)
    have "agg_inv s" using init_inv [OF inv cfg] f by (metis snd_conv)
    moreover have "hm_get s (TaskId sid cid) \<noteq> None"
      and "\<And>tid. tid \<noteq> TaskId sid cid \<Longrightarrow> hm_get s tid = hm_get (sv_state sv) tid"
      using f by (auto simp: init_task_with_message_config_def Let_def split: option.splits)
    ultimately have "synced (dp_codec D) stored ok
        (snd (persist_or_undo D (at_call c 2) before sid cid () (sv\<lparr>sv_state := s\<rparr>)))"
      by (rule persist_or_undo_sync [OF K D sync b(2)])
    then show ?thesis
      using b f Inr by (simp add: svc_init_task_with_message_config_def)
  qed
qed

lemma mark_sync:
  assumes K: "codec_ok (dp_codec D)" and D: "dp_backend D = P"
    and sync: "synced (dp_codec D) stored ok sv"
  shows "synced (dp_codec D) stored ok (snd (svc_mark_submitted D c sid cid sv))"
proof -
  let ?f = "mark_submitted (now_of (at_call c 1)) sid cid (sv_state sv)"
  have inv: "agg_inv (sv_state sv)" using sync by (simp add: synced_def)
  obtain before where b: "svc_snapshot D (at_call c 0) sv = Inr before"
    "snapshot_of (dp_codec D) (sv_state sv) before"
    by (rule svc_snapshot_ok [OF K inv])
  obtain r s where f: "?f = (r, s)" by (rule prod.exhaust)
  show ?thesis
  proof (cases r)
    case (Inl e)
    then have "s = sv_state sv" using mark_Inl_state f by blast
    then show ?thesis using b f Inl sync by (simp add: svc_mark_submitted_def)
  next
    case (Inr u)
    have "agg_inv s" using mark_inv [OF inv, of "now_of (at_call c 1)" sid cid] f by simp
    moreover have "hm_get s (TaskId sid cid) \<noteq> None"
      and "\<And>tid. tid \<noteq> TaskId sid cid \<Longrightarrow> hm_get s tid = hm_get (sv_state sv) tid"
      using f Inr by (auto simp: mark_submitted_def Let_def split: option.splits)
    ultimately have "synced (dp_codec D) stored ok
        (snd (persist_or_undo D (at_call c 2) before sid cid () (sv\<lparr>sv_state := s\<rparr>)))"
      by (rule persist_or_undo_sync [OF K D sync b(2)])
    then show ?thesis using b f Inr by (simp add: svc_mark_submitted_def)
  qed
qed

lemma submit_sync:
  assumes K: "codec_ok (dp_codec D)" and D: "dp_backend D = P"
    and sync: "synced (dp_codec D) stored ok sv"
  shows "synced (dp_codec D) stored ok (snd (svc_submit_signature D c req sv))"
proof -
  let ?sid = "rq_service_id req" and ?cid = "rq_call_id req"
  have inv: "agg_inv (sv_state sv)" using sync by (simp add: synced_def)
  obtain before where b: "svc_snapshot D (at_call c 0) sv = Inr before"
    "snapshot_of (dp_codec D) (sv_state sv) before"
    by (rule svc_snapshot_ok [OF K inv])
  show ?thesis
  proof (cases "check_submission D (at_call c 1) req sv")
    case (Inl e)
    then show ?thesis using b sync by (simp add: svc_submit_signature_def)
  next
    case (Inr q)
    obtain sig pk status where q: "q = (sig, pk, status)" by (cases q)
    let ?f = "submit_signature (now_of (at_call c 2)) (now_of (at_call c 3)) ?sid ?cid
        (rq_operator_index req) sig pk (sv_state sv)"
    obtain r s where f: "?f = (r, s)" by (rule prod.exhaust)
    show ?thesis
    proof (cases r)
      case Inl': (Inl e)
      then have "s = sv_state sv" using submit_Inl f by metis
      then show ?thesis using b f Inr q Inl' sync by (simp add: svc_submit_signature_def)
    next
      case Inr': (Inr u)
      obtain n met where u: "u = (n, met)" by (cases u)
      have "agg_inv s"
        using submit_inv [OF inv, of "now_of (at_call c 2)" "now_of (at_call c 3)" ?sid ?cid
            "rq_operator_index req" sig pk] f by simp
      moreover have "hm_get s (TaskId ?sid ?cid) \<noteq> None"
        and "\<And>tid. tid \<noteq> TaskId ?sid ?cid \<Longrightarrow> hm_get s tid = hm_get (sv_state sv) tid"
        using f Inr' by (auto simp: submit_Inr_iff)
      ultimately have "synced (dp_codec D) stored ok
          (snd (persist_or_undo D c' before ?sid ?cid res (sv\<lparr>sv_state := s\<rparr>)))"
        for c' and res :: submit_response
        by (rule persist_or_undo_sync [OF K D sync b(2)])
      then show ?thesis using b f Inr q Inr' u by (simp add: svc_submit_signature_def)
    qed
  qed
qed

lemma remove_sync:
  assumes K: "codec_ok (dp_codec D)" and D: "dp_backend D = P"
    and sync: "synced (dp_codec D) stored ok sv"
  shows "synced (dp_codec D) stored ok (snd (svc_remove_task D c sid cid sv))"
proof -
  let ?K = "dp_codec D" and ?tid = "TaskId sid cid"
  have inv: "agg_inv (sv_state sv)" and ok: "ok (sv_store sv)"
    and in_sync: "in_sync ?K (sv_state sv) (stored (sv_store sv))"
    using sync by (simp_all add: synced_def)
  obtain before where b: "svc_snapshot D (at_call c 0) sv = Inr before"
    "snapshot_of ?K (sv_state sv) before"
    by (rule svc_snapshot_ok [OF K inv])
  obtain r b1 where del: "be_delete P ?tid (sv_store sv) = (r, b1)" by (rule prod.exhaust)
  show ?thesis
  proof (cases "get_status (now_of (at_call c 1)) sid cid (sv_state sv) = None")
    case True
    then show ?thesis using b sync by (simp add: svc_remove_task_def)
  next
    case found: False
    show ?thesis
    proof (cases r)
      case (Inl e)
      have "ok b1 \<and> stored b1 = stored (sv_store sv)"
        using delete_err [OF ok] del Inl by blast
      then have "ok (sv_store (restore_persisted_task D before ?tid (sv\<lparr>sv_store := b1\<rparr>)))
          \<and> in_sync ?K (sv_state sv) (stored (sv_store (restore_persisted_task D before ?tid (sv\<lparr>sv_store := b1\<rparr>))))"
        by (intro restore_task_sync [OF _ _ b(2) D]) (use in_sync in simp_all)
      then have "synced ?K stored ok (restore_persisted_task D before ?tid (sv\<lparr>sv_store := b1\<rparr>))"
        using inv by (simp add: synced_def)
      then show ?thesis
        using b(1) found del Inl D by (auto simp: svc_remove_task_def)
    next
      case (Inr u)
      obtain fr b2 where fl: "be_flush P b1 = (fr, b2)" by (rule prod.exhaust)
      have b1: "ok b1 \<and> same_store (stored b1) ((stored (sv_store sv))(?tid := None))"
        using delete_ok [OF ok, of ?tid u b1] del Inr by simp
      then have b2: "fr = Inr ()" "ok b2" "stored b2 = stored b1"
        using flush_ok fl flush_keeps by blast+
      have "in_sync ?K (hm_remove ?tid (sv_state sv)) ((stored (sv_store sv))(?tid := None))"
        using in_sync by (auto simp: in_sync_def)
      then have "synced ?K stored ok (sv\<lparr>sv_store := b2, sv_state := hm_remove ?tid (sv_state sv)\<rparr>)"
        using b1 b2 inv by (auto simp: synced_def agg_inv_remove intro: in_sync_same_store)
      then show ?thesis
        using b(1) found del Inr D fl b2(1) by (auto simp: svc_remove_task_def remove_task_def Let_def)
    qed
  qed
qed

lemma delete_removed_ok:
  "delete_removed P tried ps b = (Inr u, b') \<Longrightarrow> ok b \<Longrightarrow>
     ok b' \<and> same_store (stored b') (\<lambda>tid. if tid \<in> persisted_id ` set ps then None else stored b tid)"
proof (induction ps arbitrary: tried b)
  case (Cons p ps)
  obtain r b1 where del: "be_delete P (persisted_id p) b = (r, b1)" by (rule prod.exhaust)
  with Cons.prems(1) obtain v where r: "r = Inr v" and rec: "delete_removed P (tried @ [p]) ps b1 = (Inr u, b')"
    by (auto simp: persisted_id_def split: sum.splits)
  have b1: "ok b1 \<and> same_store (stored b1) ((stored b)(persisted_id p := None))"
    using delete_ok [OF Cons.prems(2), of "persisted_id p" v b1] del r by simp
  with Cons.IH [OF rec] have "ok b'"
    "same_store (stored b') (\<lambda>tid. if tid \<in> persisted_id ` set ps then None else stored b1 tid)" by blast+
  moreover have "same_store (\<lambda>tid. if tid \<in> persisted_id ` set ps then None else stored b1 tid)
      (\<lambda>tid. if tid \<in> persisted_id ` set (p # ps) then None else stored b tid)"
    unfolding same_store_def
  proof
    fix tid
    have "rel_option same_persisted (stored b1 tid) (((stored b)(persisted_id p := None)) tid)"
      using b1 by (simp add: same_store_def)
    then show "rel_option same_persisted
        (if tid \<in> persisted_id ` set ps then None else stored b1 tid)
        (if tid \<in> persisted_id ` set (p # ps) then None else stored b tid)"
      by (auto split: if_splits)
  qed
  ultimately show ?case by (blast intro: same_store_trans)
qed simp

lemma cleanup_sync:
  assumes K: "codec_ok (dp_codec D)" and D: "dp_backend D = P"
    and sync: "synced (dp_codec D) stored ok sv"
    and run: "cleanup_with_persistence D c kind sv = (Inr n, sv')"
  shows "synced (dp_codec D) stored ok sv'"
proof -
  let ?K = "dp_codec D"
  have inv: "agg_inv (sv_state sv)" and ok: "ok (sv_store sv)"
    and in_sync: "in_sync ?K (sv_state sv) (stored (sv_store sv))"
    using sync by (simp_all add: synced_def)
  obtain before where b: "svc_snapshot D (at_call c 0) sv = Inr before"
    "snapshot_of ?K (sv_state sv) before"
    by (rule svc_snapshot_ok [OF K inv])
  obtain m s where rc: "run_cleanup (sv_config sv) (now_of (at_call c 1)) kind (sv_state sv) = (m, s)"
    by (rule prod.exhaust)
  obtain keep where keep: "run_cleanup (sv_config sv) (now_of (at_call c 1)) kind (sv_state sv)
      = retain_counting keep (sv_state sv)" by (rule run_cleanup_retain)
  note ex = retain_counting_exact [OF agg_inv_wf [OF inv], of keep m s]
  have s: "hm_get s tid = (case hm_get (sv_state sv) tid of None \<Rightarrow> None | Some t \<Rightarrow> if keep t then Some t else None)" for tid
    using ex(1) rc keep by simp
  have inv': "agg_inv s" using run_cleanup_inv [OF inv] rc by (metis snd_conv)
  let ?sv1 = "sv\<lparr>sv_state := s\<rparr>"
  obtain after where a: "svc_snapshot D (at_call c 2) ?sv1 = Inr after" "snapshot_of ?K s after"
    using svc_snapshot_ok [OF K, of ?sv1 "at_call c 2"] inv' by auto
  let ?gone = "filter (\<lambda>p. (p_service_id p, p_call_id p)
      \<notin> set (map (\<lambda>p. (p_service_id p, p_call_id p)) after)) before"
  have gone: "tid \<in> persisted_id ` set ?gone \<longleftrightarrow> hm_get (sv_state sv) tid \<noteq> None \<and> hm_get s tid = None" for tid
  proof -
    have pair: "(p_service_id p, p_call_id p) \<in> set (map (\<lambda>p. (p_service_id p, p_call_id p)) after)
        \<longleftrightarrow> persisted_id p \<in> persisted_id ` set after" for p
      by (auto simp: persisted_id_def image_iff)
    have "persisted_id ` set ?gone = persisted_id ` set before - persisted_id ` set after"
      unfolding set_filter pair by auto
    then show ?thesis using b(2) a(2) by (auto simp: snapshot_of_def)
  qed
  obtain dr db where del: "delete_removed P [] ?gone (sv_store sv) = (dr, db)" by (rule prod.exhaust)
  obtain fr fb where fl: "be_flush P db = (fr, fb)" by (rule prod.exhaust)
  note unf = run [unfolded cleanup_with_persistence_def b(1) sum.case rc prod.case Let_def D]
  show ?thesis
  proof (cases "m = 0")
    case True
    have "finite {tid. \<exists>t. hm_get (sv_state sv) tid = Some t \<and> \<not> keep t}"
      by (rule finite_subset [OF _ finite_dom_map_of [of "sv_state sv"]]) auto
    then have "{tid. \<exists>t. hm_get (sv_state sv) tid = Some t \<and> \<not> keep t} = {}"
      using ex(2) rc keep True by simp
    then have "hm_get s tid = hm_get (sv_state sv) tid" for tid
      using s by (auto split: option.splits)
    then show ?thesis
      using unf True inv' ok in_sync by (auto simp: synced_def in_sync_def)
  next
    case False
    then have dr: "dr = Inr ()" and sv': "sv' = ?sv1\<lparr>sv_store := fb\<rparr>"
      using unf a(1) del fl by (cases dr; cases fr; auto split: prod.splits)+
    have db: "ok db" "same_store (stored db)
        (\<lambda>tid. if tid \<in> persisted_id ` set ?gone then None else stored (sv_store sv) tid)"
      using delete_removed_ok [OF del [unfolded dr] ok] by blast+
    have fb: "ok fb" "stored fb = stored db" using flush_keeps [OF db(1) fl] by blast+
    have "in_sync ?K s (\<lambda>tid. if tid \<in> persisted_id ` set ?gone then None else stored (sv_store sv) tid)"
      unfolding in_sync_def gone
    proof
      fix tid
      have "rel_option (persists ?K) (hm_get (sv_state sv) tid) (stored (sv_store sv) tid)"
        using in_sync by (simp add: in_sync_def)
      then show "rel_option (persists ?K) (hm_get s tid)
          (if hm_get (sv_state sv) tid \<noteq> None \<and> hm_get s tid = None then None
           else stored (sv_store sv) tid)"
        unfolding s by (auto split: option.splits)
    qed
    from in_sync_same_store [OF this db(2)] show ?thesis
      using sv' fb inv' by (simp add: synced_def)
  qed
qed

lemma load_snapshot:
  assumes "synced K stored ok sv" and "be_load_all P (sv_store sv) = (Inr ps, b')"
  shows "snapshot_of K (sv_state sv) ps"
proof -
  have ok: "ok (sv_store sv)" and in_sync: "in_sync K (sv_state sv) (stored (sv_store sv))"
    using assms(1) by (simp_all add: synced_def)
  note l = load_all_ok [OF ok assms(2)]
  have rel: "rel_option (persists K) (hm_get (sv_state sv) tid) (stored (sv_store sv) tid)" for tid
    using in_sync by (simp add: in_sync_def)
  have st: "stored (sv_store sv) (persisted_id p) = Some p" if "p \<in> set ps" for p
    using l that by blast
  have "tid \<in> persisted_id ` set ps \<longleftrightarrow> hm_get (sv_state sv) tid \<noteq> None" for tid
  proof -
    have "tid \<in> persisted_id ` set ps \<longleftrightarrow> stored (sv_store sv) tid \<noteq> None"
      using l by auto
    also have "\<dots> \<longleftrightarrow> hm_get (sv_state sv) tid \<noteq> None"
      using rel [of tid] by (auto elim: option.rel_cases)
    finally show ?thesis .
  qed
  moreover have "\<exists>t. hm_get (sv_state sv) (persisted_id p) = Some t \<and> persists K t p" if "p \<in> set ps" for p
    using rel [of "persisted_id p"] unfolding st [OF that] option_rel_Some2 by blast
  ultimately show ?thesis
    using l by (auto simp: snapshot_of_def)
qed

lemma restart_recovers:
  assumes "codec_ok (dp_codec D)" and "dp_backend D = P"
    and sync: "synced (dp_codec D) stored ok sv"
    and load: "be_load_all P (sv_store sv) = (Inr ps, b')"
  shows "\<exists>sv'. service_with_persistence D c cfg (sv_store sv) = Inr sv' \<and> holds_tasks sv' (sv_state sv)
    \<and> synced (dp_codec D) stored ok sv'"
proof -
  have inv: "agg_inv (sv_state sv)" and ok: "ok (sv_store sv)"
    and in_sync: "in_sync (dp_codec D) (sv_state sv) (stored (sv_store sv))"
    using sync by (simp_all add: synced_def)
  obtain s' where s': "restore (dp_codec D) c ps [] = (Inr (), s')" "agg_inv s'" "state_sim s' (sv_state sv)"
    by (rule restore_ok [OF inv load_snapshot [OF sync load]])
  let ?sv = "\<lparr>sv_state = s', sv_config = cfg, sv_store = b'\<rparr>"
  have "ok b'" "stored b' = stored (sv_store sv)" using load_all_ok [OF ok load] by blast+
  then have "synced (dp_codec D) stored ok ?sv"
    using s' in_sync_sim [OF in_sync s'(3)] by (simp add: synced_def)
  moreover have "service_with_persistence D c cfg (sv_store sv) = Inr ?sv"
    using load s'(1) assms(2) by (simp add: service_with_persistence_def)
  moreover have "holds_tasks ?sv (sv_state sv)" using s' by (simp add: holds_tasks_def)
  ultimately show ?thesis by blast
qed

end

sublocale file_store \<subseteq> fr: reliable_backend "file_backend js env" "file_stored js" "file_ok js"
  by unfold_locales (auto simp: file_backend_def file_flush_def)

context file_store
begin

lemma reliable: "reliable_backend (file_backend js env) (file_stored js) (file_ok js)"
  by (rule fr.reliable_backend_axioms)

end

section \<open>Runs of a service over a file\<close>

text \<open>Requests with any outcome, and clean-ups that do not report an error.\<close>

inductive durable_step ::
  "('s, 'p, 'b) deps \<Rightarrow> ('s, 'p, 'b) service \<Rightarrow> ('s, 'p, 'b) service \<Rightarrow> bool"
  for D :: "('s, 'p, 'b) deps" where
  init: "(\<And>st. tc_operator_stakes cfg = Some st \<Longrightarrow> hm_wf st) \<Longrightarrow>
     durable_step D sv (snd (svc_init_task_with_message_config D c sid cid out msg sch n cfg sv))"
| submit: "durable_step D sv (snd (svc_submit_signature D c req sv))"
| mark: "durable_step D sv (snd (svc_mark_submitted D c sid cid sv))"
| remove: "durable_step D sv (snd (svc_remove_task D c sid cid sv))"
| cleanup: "cleanup_with_persistence D c kind sv = (Inr n, sv') \<Longrightarrow> durable_step D sv sv'"

context reliable_backend
begin

lemma durable_step_sync:
  assumes "durable_step D sv sv'" and "codec_ok (dp_codec D)" and "dp_backend D = P"
    and "synced (dp_codec D) stored ok sv"
  shows "synced (dp_codec D) stored ok sv'"
  using assms(1)
proof cases
  case (init cfg c sid cid out msg sch n)
  then show ?thesis using init_sync [OF assms(2,3,4)] by simp
next
  case (submit c req)
  then show ?thesis using submit_sync [OF assms(2,3,4)] by simp
next
  case (mark c sid cid)
  then show ?thesis using mark_sync [OF assms(2,3,4)] by simp
next
  case (remove c sid cid)
  then show ?thesis using remove_sync [OF assms(2,3,4)] by simp
next
  case (cleanup c kind n)
  then show ?thesis using cleanup_sync [OF assms(2,3,4)] by simp
qed

lemma durable_steps_sync:
  assumes "(durable_step D)\<^sup>*\<^sup>* sv sv'" and "codec_ok (dp_codec D)" and "dp_backend D = P"
    and "synced (dp_codec D) stored ok sv"
  shows "synced (dp_codec D) stored ok sv'"
  using assms by (induction rule: rtranclp_induct) (auto intro: durable_step_sync)

end

lemma synced_empty:
  "sv_state sv = [] \<Longrightarrow> fs_file (sv_store sv) = None \<Longrightarrow> synced K (file_stored js) (file_ok js) sv"
  by (simp add: synced_def in_sync_def file_stored_def file_ok_def file_contents_def entries_ok_def
      hm_wf_def)


definition demo_file_deps :: "(nat, nat, (string, persisted) hmap option file_system) deps" where
  "demo_file_deps = \<lparr>dp_backend = file_backend demo_json demo_env, dp_codec = demo_codec,
     dp_crypto = demo_crypto\<rparr>"

definition demo_file_start :: "(nat, nat, (string, persisted) hmap option file_system) service" where
  "demo_file_start = \<lparr>sv_state = [], sv_config = service_config_default,
     sv_store = \<lparr>fs_file = None, fs_tmp = None, fs_tick = 0\<rparr>\<rparr>"

definition demo_file_service :: "(nat, nat, (string, persisted) hmap option file_system) service" where
  "demo_file_service = snd (svc_submit_signature demo_file_deps (demo_clock 10) demo_request
     (snd (svc_init_task demo_file_deps (demo_clock 0) 7 1 [9] 3 1 demo_file_start)))"


end
