(* ===== verification/Agg_Api.thy ===== *)
theory Agg_Api
  imports Agg_Durability
begin

text \<open>
  The HTTP handlers, \<open>crates/tangle-aggregation-svc/src/api.rs\<close>, over decoded requests: the
  JSON extraction and the router of \<open>axum\<close> are not modelled. A response is a status code with
  a body.
\<close>

datatype threshold_config =
    CountConfig u32
  | StakeWeightedConfig u32 "(u32 \<times> u64) list"

record init_request =
  iq_service_id :: u64
  iq_call_id :: u64
  iq_operator_count :: u32
  iq_threshold :: threshold_config
  iq_output :: bytes
  iq_message :: bytes
  iq_signature_scheme :: signature_scheme

record init_response =
  ip_success :: bool
  ip_error :: "string option"

definition status_ok :: nat where "status_ok = 200"

definition status_bad_request :: nat where "status_bad_request = 400"

definition status_not_found :: nat where "status_not_found = 404"

definition api_health :: string where
  "api_health = ''ok''"

definition api_task_config :: "threshold_config \<Rightarrow> task_config" where
  "api_task_config threshold =
     (let (threshold_type, operator_stakes) =
        (case threshold of
           CountConfig required_signers \<Rightarrow> (Count required_signers, None)
         | StakeWeightedConfig threshold_bps stakes \<Rightarrow>
             (StakeWeighted threshold_bps, Some (hm_collect stakes)))
      in task_config_default\<lparr>tc_threshold_type := threshold_type,
                             tc_operator_stakes := operator_stakes\<rparr>)"

definition api_init_task ::
  "('s, 'p, 'b) deps \<Rightarrow> clock \<Rightarrow> init_request \<Rightarrow> ('s, 'p, 'b) service \<Rightarrow>
   init_response \<times> ('s, 'p, 'b) service" where
  "api_init_task D c req sv =
     (let config = api_task_config (iq_threshold req) in
      case (if iq_message req = []
            then svc_init_task_with_config D c (iq_service_id req) (iq_call_id req) (iq_output req)
                   (iq_operator_count req) config sv
            else svc_init_task_with_message_config D c (iq_service_id req) (iq_call_id req)
                   (iq_output req) (iq_message req) (iq_signature_scheme req)
                   (iq_operator_count req) config sv) of
        (Inr _, sv') \<Rightarrow> (\<lparr>ip_success = True, ip_error = None\<rparr>, sv')
      | (Inl e, sv') \<Rightarrow> (\<lparr>ip_success = False, ip_error = Some (show_service_error e)\<rparr>, sv'))"

definition api_submit_signature ::
  "('s, 'p, 'b) deps \<Rightarrow> clock \<Rightarrow> submit_request \<Rightarrow> ('s, 'p, 'b) service \<Rightarrow>
   (nat \<times> submit_response) \<times> ('s, 'p, 'b) service" where
  "api_submit_signature D c req sv =
     (case svc_submit_signature D c req sv of
        (Inr response, sv') \<Rightarrow> ((status_ok, response), sv')
      | (Inl e, sv') \<Rightarrow>
          ((status_bad_request,
            \<lparr>rs_accepted = False, rs_signatures_collected = 0, rs_threshold_required = 0,
             rs_threshold_met = False, rs_error = Some (show_service_error e)\<rparr>), sv'))"

definition api_get_status ::
  "clock \<Rightarrow> u64 \<Rightarrow> u64 \<Rightarrow> ('s, 'p, 'b) service \<Rightarrow> status_response" where
  "api_get_status c sid cid sv = svc_get_status c sid cid sv"

definition api_get_aggregated ::
  "('s, 'p, 'b) deps \<Rightarrow> clock \<Rightarrow> u64 \<Rightarrow> u64 \<Rightarrow> ('s, 'p, 'b) service \<Rightarrow>
   nat \<times> aggregated_result option" where
  "api_get_aggregated D c sid cid sv =
     (case svc_get_aggregated_result D c sid cid sv of
        Some result \<Rightarrow> (status_ok, Some result)
      | None \<Rightarrow> (status_not_found, None))"

definition api_get_stats :: "clock \<Rightarrow> ('s, 'p, 'b) service \<Rightarrow> task_counts" where
  "api_get_stats c sv = svc_get_stats c sv"

definition api_mark_submitted ::
  "('s, 'p, 'b) deps \<Rightarrow> clock \<Rightarrow> u64 \<Rightarrow> u64 \<Rightarrow> ('s, 'p, 'b) service \<Rightarrow>
   (nat \<times> bool \<times> string option) \<times> ('s, 'p, 'b) service" where
  "api_mark_submitted D c sid cid sv =
     (case svc_mark_submitted D c sid cid sv of
        (Inr _, sv') \<Rightarrow> ((status_ok, True, None), sv')
      | (Inl e, sv') \<Rightarrow> ((status_bad_request, False, Some (show_service_error e)), sv'))"

section \<open>What the handlers promise\<close>

lemma api_task_config_stakes:
  "tc_operator_stakes (api_task_config th) = Some st \<Longrightarrow> hm_wf st"
  by (auto simp: api_task_config_def task_config_default_def hm_collect_wf
      split: threshold_config.splits)

lemma api_task_config_ttl [simp]: "tc_ttl (api_task_config th) = None"
  by (simp add: api_task_config_def task_config_default_def split: threshold_config.split)

lemma svc_init_new:
  assumes K: "codec_ok (dp_codec D)" and inv: "agg_inv (sv_state sv)"
    and new: "hm_get (sv_state sv) (TaskId sid cid) = None"
    and run: "svc_init_task_with_message_config D c sid cid out msg sch n cfg sv = (Inr u, sv')"
  shows "hm_get (sv_state sv') (TaskId sid cid) =
    Some (with_message_config (now_of (at_call c 1)) sid cid out msg sch n (tc_threshold_type cfg)
      (tc_operator_stakes cfg) (tc_ttl cfg))"
proof -
  have "request_outcome sv
    (init_task_with_message_config (now_of (at_call c 1)) sid cid out msg sch n cfg (sv_state sv)) (Inr u, sv')"
    using svc_init_outcome [OF K inv, of c sid cid out msg sch n cfg] run by simp
  then have "sv_state sv' = snd (init_task_with_message_config (now_of (at_call c 1)) sid cid out msg
      sch n cfg (sv_state sv))"
    by (simp add: request_outcome_def)
  then show ?thesis
    using new by (simp add: init_task_with_message_config_def Let_def)
qed

text \<open>
  A task created over HTTP never expires: whatever default time-to-live the service
  is configured with, a successful initialisation of a new task gives it no expiry, so that it is
  live at every later time and the clean-up of expired tasks never removes it.
\<close>

theorem http_tasks_never_expire:
  assumes "codec_ok (dp_codec D)" and "agg_inv (sv_state sv)"
    and "hm_get (sv_state sv) (TaskId (iq_service_id req) (iq_call_id req)) = None"
    and "api_init_task D c req sv = (resp, sv')" and "ip_success resp"
  shows "\<exists>t. hm_get (sv_state sv') (TaskId (iq_service_id req) (iq_call_id req)) = Some t
    \<and> ts_expires_at t = None \<and> (\<forall>now. \<not> is_expired now t)"
proof -
  obtain msg sch u where
    "svc_init_task_with_message_config D c (iq_service_id req) (iq_call_id req) (iq_output req) msg sch
       (iq_operator_count req) (api_task_config (iq_threshold req)) sv = (Inr u, sv')"
    using assms(4,5)
    by (auto simp: api_init_task_def svc_init_task_with_config_def Let_def split: sum.splits
        prod.splits if_splits)
  from svc_init_new [OF assms(1-3) this] show ?thesis
    by (simp add: is_expired_def)
qed


section \<open>Concrete requests\<close>

definition demo_init_request :: init_request where
  "demo_init_request = \<lparr>iq_service_id = 7, iq_call_id = 1, iq_operator_count = 3,
     iq_threshold = CountConfig 2, iq_output = [9], iq_message = [8],
     iq_signature_scheme = TangleKeccak256\<rparr>"

theorem http_tasks_never_expire_witness:
  "cf_default_task_ttl service_config_default \<noteq> None
   \<and> (\<exists>t. hm_get (sv_state (snd (api_init_task demo_deps (demo_clock 0) demo_init_request
        (service_new service_config_default)))) (TaskId 7 1) = Some t \<and> ts_expires_at t = None)"
proof -
  let ?sv = "service_new service_config_default :: (nat, nat, unit) service"
  let ?cfg = "api_task_config (CountConfig 2)"
  let ?t = "with_message_config 0 7 1 [9] [8] TangleKeccak256 3 (Count 2) None None :: (nat, nat) task_state"
  have cfg: "tc_threshold_type ?cfg = Count 2" "tc_operator_stakes ?cfg = None"
    by (simp_all add: api_task_config_def task_config_default_def)
  have inv: "agg_inv (sv_state ?sv)" by (simp add: service_new_def)
  have inv': "agg_inv [(TaskId 7 1, ?t)]"
    by (auto simp: agg_inv_def hm_wf_def intro!: with_message_config_inv)
  obtain before where "svc_snapshot demo_deps (at_call (demo_clock 0) 0) ?sv = Inr before"
    by (rule svc_snapshot_ok [OF demo_deps_codec inv])
  moreover have "now_of (at_call (demo_clock 0) 1) = 0"
    by (simp add: now_of_def at_call_def demo_clock_def)
  ultimately have "svc_init_task_with_message_config demo_deps (demo_clock 0) 7 1 [9] [8] TangleKeccak256 3
      ?cfg ?sv = (Inr (), ?sv\<lparr>sv_state := [(TaskId 7 1, ?t)]\<rparr>)"
    using inv' cfg persist_no_backend [OF demo_deps_codec, of "?sv\<lparr>sv_state := [(TaskId 7 1, ?t)]\<rparr>" 7 1]
    by (simp add: svc_init_task_with_message_config_def init_task_with_message_config_def
        service_new_def hm_insert_def demo_deps_backend)
  then have run: "api_init_task demo_deps (demo_clock 0) demo_init_request ?sv
      = (\<lparr>ip_success = True, ip_error = None\<rparr>, ?sv\<lparr>sv_state := [(TaskId 7 1, ?t)]\<rparr>)"
    by (simp add: api_init_task_def demo_init_request_def Let_def)
  have "hm_get (sv_state ?sv) (TaskId (iq_service_id demo_init_request) (iq_call_id demo_init_request)) = None"
    by (simp add: service_new_def)
  from http_tasks_never_expire [OF demo_deps_codec inv this run] show ?thesis
    unfolding run by (simp add: demo_init_request_def service_config_default_def)
qed


end
