(* ===== verification/Gossip_Dedup.thy ===== *)
theory Gossip_Dedup
  imports Hash_Map "HOL-Library.AList"
begin

text \<open>
  Message deduplication, \<open>crates/networking/extensions/gossip-primitives/src/dedup.rs\<close>. The cache of
  the \<open>lru\<close> crate is the parameter \<open>lru\<close>, a record of the operations the code calls; what is
  documented of it is \<open>lru_ok\<close>, stated over the crate's own iteration order (most recently used
  first). A message hash is its bytes.
\<close>

type_synonym message_hash = bytes

section \<open>The cache of the lru crate\<close>

record ('k, 'e, 'c) lru =
  lr_new :: "nat \<Rightarrow> 'c"
  lr_get :: "'k \<Rightarrow> 'c \<Rightarrow> 'e option \<times> 'c"
  lr_modify :: "'k \<Rightarrow> ('e \<Rightarrow> 'e) \<Rightarrow> 'c \<Rightarrow> 'c"
  lr_put :: "'k \<Rightarrow> 'e \<Rightarrow> 'c \<Rightarrow> 'c"
  lr_pop :: "'k \<Rightarrow> 'c \<Rightarrow> 'c"
  lr_iter :: "'c \<Rightarrow> ('k \<times> 'e) list"
  lr_cap :: "'c \<Rightarrow> nat"
  lr_clear :: "'c \<Rightarrow> 'c"

definition without :: "'k \<Rightarrow> ('k \<times> 'e) list \<Rightarrow> ('k \<times> 'e) list" where
  "without k xs = filter (\<lambda>(k', _). k' \<noteq> k) xs"

text \<open>Documented behaviour: keys are unique and at most \<open>cap\<close> many; a lookup promotes the entry it
  finds to the front; \<open>put\<close> puts the entry in front and drops the last one when full.\<close>

definition lru_ok :: "('k, 'e, 'c) lru \<Rightarrow> bool" where
  "lru_ok L \<longleftrightarrow>
     (\<forall>c. distinct (map fst (lr_iter L c)) \<and> length (lr_iter L c) \<le> lr_cap L c)
     \<and> (\<forall>n. lr_iter L (lr_new L n) = [] \<and> lr_cap L (lr_new L n) = n)
     \<and> (\<forall>k c. fst (lr_get L k c) = map_of (lr_iter L c) k
          \<and> lr_cap L (snd (lr_get L k c)) = lr_cap L c
          \<and> lr_iter L (snd (lr_get L k c)) =
              (case map_of (lr_iter L c) k of
                 None \<Rightarrow> lr_iter L c | Some e \<Rightarrow> (k, e) # without k (lr_iter L c)))
     \<and> (\<forall>k f c. lr_cap L (lr_modify L k f c) = lr_cap L c
          \<and> lr_iter L (lr_modify L k f c) =
              (case map_of (lr_iter L c) k of
                 None \<Rightarrow> lr_iter L c | Some e \<Rightarrow> (k, f e) # without k (lr_iter L c)))
     \<and> (\<forall>k e c. 0 < lr_cap L c \<longrightarrow> lr_cap L (lr_put L k e c) = lr_cap L c
          \<and> lr_iter L (lr_put L k e c) = (k, e) # take (lr_cap L c - 1) (without k (lr_iter L c)))
     \<and> (\<forall>k c. lr_cap L (lr_pop L k c) = lr_cap L c
          \<and> lr_iter L (lr_pop L k c) = without k (lr_iter L c))
     \<and> (\<forall>c. lr_cap L (lr_clear L c) = lr_cap L c \<and> lr_iter L (lr_clear L c) = [])"

section \<open>The deduplication cache\<close>

record gossip_config =
  gc_max_seen_messages :: nat
  gc_message_ttl :: duration
  gc_enable_stats :: bool

definition gossip_config_default :: gossip_config where
  "gossip_config_default =
     \<lparr>gc_max_seen_messages = 10000, gc_message_ttl = 300 * 10 ^ 9, gc_enable_stats = True\<rparr>"

definition gossip_config_for_testing :: gossip_config where
  "gossip_config_for_testing =
     \<lparr>gc_max_seen_messages = 100, gc_message_ttl = 30 * 10 ^ 9, gc_enable_stats = True\<rparr>"

record cache_entry =
  ce_first_seen :: instant
  ce_seen_count :: u32

record 'c dedup_cache =
  dc_cache :: 'c
  dc_ttl :: duration

type_synonym 'c hash_lru = "(message_hash, cache_entry, 'c) lru"

definition sat_inc :: "u32 \<Rightarrow> u32" where
  "sat_inc n = (if n = - 1 then n else n + 1)"

definition entry_expired :: "duration \<Rightarrow> instant \<Rightarrow> cache_entry \<Rightarrow> bool" where
  "entry_expired ttl now e \<longleftrightarrow> nat (now - ce_first_seen e) > ttl"

definition dedup_new :: "'c hash_lru \<Rightarrow> nat \<Rightarrow> duration \<Rightarrow> 'c dedup_cache" where
  "dedup_new L capacity ttl =
     \<lparr>dc_cache = lr_new L (if capacity = 0 then 1 else capacity), dc_ttl = ttl\<rparr>"

definition should_process ::
  "'c hash_lru \<Rightarrow> instant \<Rightarrow> message_hash \<Rightarrow> 'c dedup_cache \<Rightarrow> bool \<times> 'c dedup_cache" where
  "should_process L now h d =
     (case lr_get L h (dc_cache d) of
        (Some e, c) \<Rightarrow>
          if entry_expired (dc_ttl d) now e
          then (True, d\<lparr>dc_cache := lr_pop L h c\<rparr>)
          else (False, d\<lparr>dc_cache := c\<rparr>)
      | (None, c) \<Rightarrow> (True, d\<lparr>dc_cache := c\<rparr>))"

definition mark_seen ::
  "'c hash_lru \<Rightarrow> instant \<Rightarrow> message_hash \<Rightarrow> 'c dedup_cache \<Rightarrow> 'c dedup_cache" where
  "mark_seen L now h d =
     (case lr_get L h (dc_cache d) of
        (Some e, c) \<Rightarrow>
          d\<lparr>dc_cache := lr_modify L h (\<lambda>e. e\<lparr>ce_seen_count := sat_inc (ce_seen_count e)\<rparr>) c\<rparr>
      | (None, c) \<Rightarrow>
          d\<lparr>dc_cache := lr_put L h \<lparr>ce_first_seen = now, ce_seen_count = 1\<rparr> c\<rparr>)"

text \<open>Two clock readings: the age of the entry and the time of a new one.\<close>

definition check_and_mark ::
  "'c hash_lru \<Rightarrow> instant \<Rightarrow> instant \<Rightarrow> message_hash \<Rightarrow> 'c dedup_cache \<Rightarrow> bool \<times> 'c dedup_cache" where
  "check_and_mark L now now' h d =
     (case lr_get L h (dc_cache d) of
        (Some e, c) \<Rightarrow>
          if entry_expired (dc_ttl d) now e
          then (True, d\<lparr>dc_cache :=
                  lr_modify L h (\<lambda>_. \<lparr>ce_first_seen = now', ce_seen_count = 1\<rparr>) c\<rparr>)
          else (False, d\<lparr>dc_cache :=
                  lr_modify L h (\<lambda>e. e\<lparr>ce_seen_count := sat_inc (ce_seen_count e)\<rparr>) c\<rparr>)
      | (None, c) \<Rightarrow>
          (True, d\<lparr>dc_cache := lr_put L h \<lparr>ce_first_seen = now', ce_seen_count = 1\<rparr> c\<rparr>))"

definition dedup_len :: "'c hash_lru \<Rightarrow> 'c dedup_cache \<Rightarrow> nat" where
  "dedup_len L d = length (lr_iter L (dc_cache d))"

definition dedup_is_empty :: "'c hash_lru \<Rightarrow> 'c dedup_cache \<Rightarrow> bool" where
  "dedup_is_empty L d \<longleftrightarrow> lr_iter L (dc_cache d) = []"

definition dedup_clear :: "'c hash_lru \<Rightarrow> 'c dedup_cache \<Rightarrow> 'c dedup_cache" where
  "dedup_clear L d = d\<lparr>dc_cache := lr_clear L (dc_cache d)\<rparr>"

definition dedup_gc :: "'c hash_lru \<Rightarrow> instant \<Rightarrow> 'c dedup_cache \<Rightarrow> 'c dedup_cache" where
  "dedup_gc L now d =
     (let expired = map fst (filter (\<lambda>(_, e). entry_expired (dc_ttl d) now e)
                              (lr_iter L (dc_cache d)))
      in d\<lparr>dc_cache := fold (lr_pop L) expired (dc_cache d)\<rparr>)"

section \<open>The manager\<close>

record gossip_stats =
  gs_messages_processed :: u64
  gs_duplicates_rejected :: u64
  gs_messages_regossiped :: u64
  gs_send_failures :: u64

record 'c gossip_manager =
  gm_cache :: "'c dedup_cache"
  gm_config :: gossip_config
  gm_stats :: "gossip_stats option"

definition manager_new :: "'c hash_lru \<Rightarrow> gossip_config \<Rightarrow> 'c gossip_manager" where
  "manager_new L config =
     \<lparr>gm_cache = dedup_new L (gc_max_seen_messages config) (gc_message_ttl config),
      gm_config = config,
      gm_stats = (if gc_enable_stats config
                  then Some \<lparr>gs_messages_processed = 0, gs_duplicates_rejected = 0,
                             gs_messages_regossiped = 0, gs_send_failures = 0\<rparr>
                  else None)\<rparr>"

definition manager_should_process ::
  "'c hash_lru \<Rightarrow> instant \<Rightarrow> message_hash \<Rightarrow> 'c gossip_manager \<Rightarrow> bool \<times> 'c gossip_manager" where
  "manager_should_process L now h g =
     (let (r, d) = should_process L now h (gm_cache g) in (r, g\<lparr>gm_cache := d\<rparr>))"

definition mark_processed ::
  "'c hash_lru \<Rightarrow> instant \<Rightarrow> message_hash \<Rightarrow> 'c gossip_manager \<Rightarrow> 'c gossip_manager" where
  "mark_processed L now h g =
     g\<lparr>gm_cache := mark_seen L now h (gm_cache g),
       gm_stats := map_option (\<lambda>s. s\<lparr>gs_messages_processed := gs_messages_processed s + 1\<rparr>) (gm_stats g)\<rparr>"

definition record_duplicate :: "'c gossip_manager \<Rightarrow> 'c gossip_manager" where
  "record_duplicate g =
     g\<lparr>gm_stats := map_option (\<lambda>s. s\<lparr>gs_duplicates_rejected := gs_duplicates_rejected s + 1\<rparr>) (gm_stats g)\<rparr>"

definition record_regossip :: "'c gossip_manager \<Rightarrow> 'c gossip_manager" where
  "record_regossip g =
     g\<lparr>gm_stats := map_option (\<lambda>s. s\<lparr>gs_messages_regossiped := gs_messages_regossiped s + 1\<rparr>) (gm_stats g)\<rparr>"

definition record_send_failure :: "'c gossip_manager \<Rightarrow> 'c gossip_manager" where
  "record_send_failure g =
     g\<lparr>gm_stats := map_option (\<lambda>s. s\<lparr>gs_send_failures := gs_send_failures s + 1\<rparr>) (gm_stats g)\<rparr>"

definition manager_gc :: "'c hash_lru \<Rightarrow> instant \<Rightarrow> 'c gossip_manager \<Rightarrow> 'c gossip_manager" where
  "manager_gc L now g = g\<lparr>gm_cache := dedup_gc L now (gm_cache g)\<rparr>"

section \<open>Runs\<close>

datatype dedup_op =
    ShouldProcess instant message_hash
  | MarkSeen instant message_hash
  | CheckAndMark instant instant message_hash
  | Gc instant

primrec dedup_run :: "'c hash_lru \<Rightarrow> dedup_op \<Rightarrow> 'c dedup_cache \<Rightarrow> 'c dedup_cache" where
  "dedup_run L (ShouldProcess now h) d = snd (should_process L now h d)"
| "dedup_run L (MarkSeen now h) d = mark_seen L now h d"
| "dedup_run L (CheckAndMark now now' h) d = snd (check_and_mark L now now' h d)"
| "dedup_run L (Gc now) d = dedup_gc L now d"

primrec op_time :: "dedup_op \<Rightarrow> instant" where
  "op_time (ShouldProcess now h) = now"
| "op_time (MarkSeen now h) = now"
| "op_time (CheckAndMark now now' h) = now"
| "op_time (Gc now) = now"

primrec op_hashes :: "dedup_op \<Rightarrow> message_hash set" where
  "op_hashes (ShouldProcess now h) = {h}"
| "op_hashes (MarkSeen now h) = {h}"
| "op_hashes (CheckAndMark now now' h) = {h}"
| "op_hashes (Gc now) = {}"


section \<open>What the cache remembers\<close>

definition ahead :: "'k \<Rightarrow> ('k \<times> 'e) list \<Rightarrow> ('k \<times> 'e) list" where
  "ahead h xs = takeWhile (\<lambda>(k, _). k \<noteq> h) xs"

lemma without_simps [simp]:
  "without k [] = []"
  "without k ((k', v) # xs) = (if k' = k then without k xs else (k', v) # without k xs)"
  by (simp_all add: without_def)

lemma without_map_of [simp]: "map_of (without k xs) h = (if h = k then None else map_of xs h)"
  by (induction xs) auto

lemma without_keys: "fst ` set (without k xs) = fst ` set xs - {k}"
  by (force simp: without_def)

lemma without_distinct: "distinct (map fst xs) \<Longrightarrow> distinct (map fst (without k xs))"
  by (simp add: without_def distinct_map_filter)

lemma without_length: "length (without k xs) \<le> length xs"
  by (simp add: without_def)

lemma ahead_simps [simp]:
  "ahead h [] = []"
  "ahead h ((k, v) # xs) = (if k = h then [] else (k, v) # ahead h xs)"
  by (simp_all add: ahead_def)

lemma ahead_without: "h \<noteq> k \<Longrightarrow> ahead h (without k xs) = without k (ahead h xs)"
  by (induction xs) auto

lemma ahead_take_map_of:
  "length (ahead h xs) < n \<Longrightarrow> map_of (take n xs) h = map_of xs h"
proof (induction xs arbitrary: n)
  case (Cons x xs)
  then show ?case by (cases x; cases n) auto
qed simp

lemma ahead_take: "fst ` set (ahead h (take n xs)) \<subseteq> fst ` set (ahead h xs)"
proof (induction xs arbitrary: n)
  case (Cons x xs)
  then show ?case by (cases x; cases n) auto
qed simp

lemma ahead_length:
  assumes "distinct (map fst xs)" and "fst ` set (ahead h xs) \<subseteq> T" and "finite T"
  shows "length (ahead h xs) \<le> card T"
proof -
  have "distinct (map fst (ahead h xs))"
    using assms(1) by (metis ahead_def map_append distinct_append takeWhile_dropWhile_id)
  then have "length (ahead h xs) = card (fst ` set (ahead h xs))"
    by (metis distinct_card length_map set_map)
  then show ?thesis using assms(2,3) by (simp add: card_mono)
qed

lemma ahead_filter: "\<forall>v. P (h, v) \<Longrightarrow> ahead h (filter P xs) = filter P (ahead h xs)"
  by (induction xs) auto

lemma map_of_filter_key: "\<forall>v. P (h, v) \<Longrightarrow> map_of (filter P xs) h = map_of xs h"
  by (induction xs) auto

text \<open>The cache holds \<open>h\<close>, first seen at \<open>t\<close>, with only the hashes of \<open>T\<close> used more recently.\<close>

definition remembers ::
  "'c hash_lru \<Rightarrow> message_hash \<Rightarrow> instant \<Rightarrow> message_hash set \<Rightarrow> 'c dedup_cache \<Rightarrow> bool" where
  "remembers L h t T d \<longleftrightarrow>
     (\<exists>e. map_of (lr_iter L (dc_cache d)) h = Some e \<and> ce_first_seen e = t)
     \<and> fst ` set (ahead h (lr_iter L (dc_cache d))) \<subseteq> T"

lemma lru_distinct: "lru_ok L \<Longrightarrow> distinct (map fst (lr_iter L c))"
  by (simp add: lru_ok_def)

lemma lru_get:
  assumes "lru_ok L"
  obtains c' where "lr_get L k c = (map_of (lr_iter L c) k, c')" "lr_cap L c' = lr_cap L c"
    "lr_iter L c' = (case map_of (lr_iter L c) k of
       None \<Rightarrow> lr_iter L c | Some e \<Rightarrow> (k, e) # without k (lr_iter L c))"
proof
  have *: "fst (lr_get L k c) = map_of (lr_iter L c) k
          \<and> lr_cap L (snd (lr_get L k c)) = lr_cap L c
          \<and> lr_iter L (snd (lr_get L k c)) =
              (case map_of (lr_iter L c) k of
                 None \<Rightarrow> lr_iter L c | Some e \<Rightarrow> (k, e) # without k (lr_iter L c))"
    using assms unfolding lru_ok_def by blast
  show "lr_get L k c = (map_of (lr_iter L c) k, snd (lr_get L k c))"
    using * by (simp add: prod_eq_iff)
  show "lr_cap L (snd (lr_get L k c)) = lr_cap L c" using * by simp
  show "lr_iter L (snd (lr_get L k c)) =
              (case map_of (lr_iter L c) k of
                 None \<Rightarrow> lr_iter L c | Some e \<Rightarrow> (k, e) # without k (lr_iter L c))"
    using * by simp
qed

lemma lru_modify:
  assumes "lru_ok L"
  shows "lr_cap L (lr_modify L k f c) = lr_cap L c"
    and "lr_iter L (lr_modify L k f c) =
              (case map_of (lr_iter L c) k of
                 None \<Rightarrow> lr_iter L c | Some e \<Rightarrow> (k, f e) # without k (lr_iter L c))"
  using assms unfolding lru_ok_def by blast+

lemma lru_put:
  assumes "lru_ok L" and "0 < lr_cap L c"
  shows "lr_cap L (lr_put L k e c) = lr_cap L c"
    and "lr_iter L (lr_put L k e c) = (k, e) # take (lr_cap L c - 1) (without k (lr_iter L c))"
  using assms unfolding lru_ok_def by blast+

lemma lru_pop:
  assumes "lru_ok L"
  shows "lr_cap L (lr_pop L k c) = lr_cap L c" and "lr_iter L (lr_pop L k c) = without k (lr_iter L c)"
  using assms unfolding lru_ok_def by blast+

lemma lru_pops:
  assumes "lru_ok L"
  shows "lr_cap L (fold (lr_pop L) ks c) = lr_cap L c
    \<and> lr_iter L (fold (lr_pop L) ks c) = filter (\<lambda>(k, _). k \<notin> set ks) (lr_iter L c)"
  by (induction ks arbitrary: c)
    (auto simp: lru_pop[OF assms] without_def filter_filter intro!: filter_cong)

text \<open>Bringing another hash to the front keeps \<open>h\<close>.\<close>

lemma without_idem [simp]: "without k (without k xs) = without k xs"
  by (simp add: without_def)

lemma remembers_front:
  assumes "remembers L h t T d" and "k \<noteq> h"
    and "lr_iter L c = (k, v) # without k (lr_iter L (dc_cache d))"
  shows "remembers L h t (insert k T) (d\<lparr>dc_cache := c\<rparr>)"
  using assms by (auto simp: remembers_def ahead_without without_keys)

lemma remembers_pop:
  assumes "remembers L h t T d" and "k \<noteq> h"
    and "lr_iter L c = without k (lr_iter L (dc_cache d))"
  shows "remembers L h t T (d\<lparr>dc_cache := c\<rparr>)"
  using assms by (auto simp: remembers_def ahead_without without_keys)

lemma remembers_put:
  assumes "lru_ok L" and "remembers L h t T d" and "k \<noteq> h" and "finite T"
    and "card (insert k T) < lr_cap L (dc_cache d)"
  shows "remembers L h t (insert k T) (d\<lparr>dc_cache := lr_put L k e (dc_cache d)\<rparr>)"
proof -
  define xs where "xs = lr_iter L (dc_cache d)"
  have sub: "fst ` set (ahead h (without k xs)) \<subseteq> T - {k}"
    using assms(2,3) by (auto simp: remembers_def ahead_without without_keys xs_def)
  have "length (ahead h (without k xs)) \<le> card (T - {k})"
    by (rule ahead_length[OF without_distinct sub])
      (simp_all add: xs_def lru_distinct[OF assms(1)] assms(4))
  also have "card (T - {k}) < lr_cap L (dc_cache d) - 1"
    using assms(4,5) card_gt_0_iff[of T]
    by (cases "k \<in> T") (auto simp: card_insert_if card_Diff_singleton insert_absorb)
  finally have len: "length (ahead h (without k xs)) < lr_cap L (dc_cache d) - 1" .
  have cap: "0 < lr_cap L (dc_cache d)" using assms(5) by simp
  show ?thesis
    using ahead_take_map_of[OF len] ahead_take[of h "lr_cap L (dc_cache d) - 1" "without k xs"]
      sub assms(2,3)
    by (auto simp: remembers_def lru_put[OF assms(1) cap] xs_def[symmetric])
qed

lemma remembers_same:
  assumes "remembers L h t T d"
    and "lr_iter L c = (h, e) # without h (lr_iter L (dc_cache d))" and "ce_first_seen e = t"
  shows "remembers L h t T (d\<lparr>dc_cache := c\<rparr>)"
  using assms by (simp add: remembers_def)


lemma remembers_mono: "remembers L h t T d \<Longrightarrow> T \<subseteq> U \<Longrightarrow> remembers L h t U d"
  by (auto simp: remembers_def)

lemma not_expired: "nat (now - ce_first_seen e) \<le> ttl \<Longrightarrow> \<not> entry_expired ttl now e"
  by (simp add: entry_expired_def)

lemma remembers_get:
  assumes "lru_ok L" and "remembers L h t T d" and "lr_get L k (dc_cache d) = (r, c)"
  shows "r = map_of (lr_iter L (dc_cache d)) k" and "lr_cap L c = lr_cap L (dc_cache d)"
    and "remembers L h t (T \<union> ({k} - {h})) (d\<lparr>dc_cache := c\<rparr>)"
    and "r = None \<Longrightarrow> lr_iter L c = lr_iter L (dc_cache d)"
    and "r = Some e \<Longrightarrow> lr_iter L c = (k, e) # without k (lr_iter L (dc_cache d))"
proof -
  obtain c' where c: "lr_get L k (dc_cache d) = (map_of (lr_iter L (dc_cache d)) k, c')"
      "lr_cap L c' = lr_cap L (dc_cache d)"
    "lr_iter L c' = (case map_of (lr_iter L (dc_cache d)) k of None \<Rightarrow> lr_iter L (dc_cache d)
       | Some e \<Rightarrow> (k, e) # without k (lr_iter L (dc_cache d)))"
    using lru_get[OF assms(1), of k "dc_cache d"] by blast
  have eqs: "r = map_of (lr_iter L (dc_cache d)) k" "c = c'" using c(1) assms(3) by simp_all
  show "r = map_of (lr_iter L (dc_cache d)) k" and "lr_cap L c = lr_cap L (dc_cache d)"
    and "r = None \<Longrightarrow> lr_iter L c = lr_iter L (dc_cache d)"
    and "r = Some e \<Longrightarrow> lr_iter L c = (k, e) # without k (lr_iter L (dc_cache d))"
    using eqs c by simp_all
  show "remembers L h t (T \<union> ({k} - {h})) (d\<lparr>dc_cache := c\<rparr>)"
  proof (cases r)
    case None
    then show ?thesis using eqs c assms(2) by (auto simp: remembers_def)
  next
    case (Some e)
    then have it: "lr_iter L c = (k, e) # without k (lr_iter L (dc_cache d))" using eqs c by simp
    show ?thesis
    proof (cases "k = h")
      case True
      then have "ce_first_seen e = t" using assms(2) Some eqs by (auto simp: remembers_def)
      then show ?thesis using remembers_same[OF assms(2), of c e] it True by simp
    next
      case False
      then show ?thesis using remembers_front[OF assms(2) False it] by simp
    qed
  qed
qed

lemma remembers_modify:
  assumes "lru_ok L" and "remembers L h t T d" and "k = h \<longrightarrow> (\<forall>e. ce_first_seen (f e) = ce_first_seen e)"
  shows "remembers L h t (T \<union> ({k} - {h})) (d\<lparr>dc_cache := lr_modify L k f (dc_cache d)\<rparr>)"
proof (cases "map_of (lr_iter L (dc_cache d)) k")
  case None
  then show ?thesis using assms(2) by (auto simp: remembers_def lru_modify[OF assms(1)])
next
  case (Some e)
  then have it: "lr_iter L (lr_modify L k f (dc_cache d)) = (k, f e) # without k (lr_iter L (dc_cache d))"
    by (simp add: lru_modify[OF assms(1)])
  show ?thesis
  proof (cases "k = h")
    case True
    then have "ce_first_seen (f e) = t" using assms(2,3) Some by (auto simp: remembers_def)
    then show ?thesis using remembers_same[OF assms(2), of _ "f e"] it True by simp
  next
    case False
    then show ?thesis using remembers_front[OF assms(2) False it] by simp
  qed
qed

lemma remembers_hit:
  assumes "remembers L h t T d" and "nat (now - t) \<le> dc_ttl d"
  obtains e where "map_of (lr_iter L (dc_cache d)) h = Some e" "\<not> entry_expired (dc_ttl d) now e"
  using assms by (auto simp: remembers_def entry_expired_def)

definition dedup_cap :: "'c hash_lru \<Rightarrow> 'c dedup_cache \<Rightarrow> nat" where
  "dedup_cap L d = lr_cap L (dc_cache d)"

text \<open>One operation within the time to live of \<open>h\<close> keeps \<open>h\<close>, while there is room.\<close>

definition keeps ::
  "'c hash_lru \<Rightarrow> message_hash \<Rightarrow> instant \<Rightarrow> message_hash set \<Rightarrow> 'c dedup_cache \<Rightarrow> 'c dedup_cache \<Rightarrow> bool"
  where "keeps L h t T d d' \<longleftrightarrow>
    remembers L h t T d' \<and> dc_ttl d' = dc_ttl d \<and> dedup_cap L d' = dedup_cap L d"

lemma remembers_put_new:
  assumes L: "lru_ok L" and rem: "remembers L h t T d" and fin: "finite T"
    and get: "lr_get L k (dc_cache d) = (None, c)" and room: "card (T \<union> ({k} - {h})) < dedup_cap L d"
  shows "keeps L h t (T \<union> ({k} - {h})) d (d\<lparr>dc_cache := lr_put L k e c\<rparr>)"
proof -
  have kh: "k \<noteq> h" using remembers_get(1)[OF L rem get] rem by (auto simp: remembers_def)
  have it: "lr_iter L c = lr_iter L (dc_cache d)" using remembers_get(4)[OF L rem get] by simp
  have cap: "lr_cap L c = lr_cap L (dc_cache d)" by (rule remembers_get(2)[OF L rem get])
  have rem': "remembers L h t T (d\<lparr>dc_cache := c\<rparr>)" using rem it by (simp add: remembers_def)
  have "card (insert k T) < lr_cap L c" using room kh cap by (simp add: dedup_cap_def)
  then show ?thesis
    using remembers_put[OF L rem' kh fin, of e] kh lru_put(1)[OF L, of c k e] cap
    by (simp add: keeps_def dedup_cap_def)
qed

lemma dedup_run_keeps:
  assumes L: "lru_ok L" and rem: "remembers L h t T d" and fin: "finite T"
    and time: "nat (op_time op - t) \<le> dc_ttl d"
    and room: "card (T \<union> (op_hashes op - {h})) < dedup_cap L d"
  shows "keeps L h t (T \<union> (op_hashes op - {h})) d (dedup_run L op d)"
proof (cases op)
  case (ShouldProcess now k)
  obtain r c where get: "lr_get L k (dc_cache d) = (r, c)" by (rule prod.exhaust)
  note g = remembers_get[OF L rem get]
  show ?thesis
  proof (cases r)
    case None
    then show ?thesis using g(2,3) get ShouldProcess
      by (simp add: should_process_def keeps_def dedup_cap_def)
  next
    case (Some e)
    have exp: "k \<noteq> h" if "entry_expired (dc_ttl d) now e"
      using that g(1) Some rem time ShouldProcess by (auto simp: remembers_def entry_expired_def)
    show ?thesis
      using g(2,3) get ShouldProcess Some remembers_pop[OF g(3), of k "lr_pop L k c"] exp
      by (auto simp: should_process_def keeps_def dedup_cap_def lru_pop[OF L])
  qed
next
  case (MarkSeen now k)
  obtain r c where get: "lr_get L k (dc_cache d) = (r, c)" by (rule prod.exhaust)
  note g = remembers_get[OF L rem get]
  show ?thesis
  proof (cases r)
    case None
    then show ?thesis using remembers_put_new[OF L rem fin, of k c] get room MarkSeen
      by (simp add: mark_seen_def)
  next
    case (Some e)
    let ?f = "\<lambda>e. e\<lparr>ce_seen_count := sat_inc (ce_seen_count e)\<rparr>"
    show ?thesis using remembers_modify[OF L g(3), of k ?f] g(2) Some get MarkSeen
      by (simp add: mark_seen_def keeps_def dedup_cap_def lru_modify[OF L] Un_assoc)
  qed
next
  case (CheckAndMark now now' k)
  obtain r c where get: "lr_get L k (dc_cache d) = (r, c)" by (rule prod.exhaust)
  note g = remembers_get[OF L rem get]
  show ?thesis
  proof (cases r)
    case None
    then show ?thesis using remembers_put_new[OF L rem fin, of k c] get room CheckAndMark
      by (simp add: check_and_mark_def)
  next
    case (Some e)
    let ?f = "\<lambda>e. e\<lparr>ce_seen_count := sat_inc (ce_seen_count e)\<rparr>"
      and ?g = "\<lambda>_. \<lparr>ce_first_seen = now', ce_seen_count = 1\<rparr>"
    have exp: "k \<noteq> h" if "entry_expired (dc_ttl d) now e"
      using that g(1) Some rem time CheckAndMark by (auto simp: remembers_def entry_expired_def)
    show ?thesis
      using remembers_modify[OF L g(3), of k ?f] remembers_modify[OF L g(3), of k ?g] exp
        g(2) Some get CheckAndMark
      by (auto simp: check_and_mark_def keeps_def dedup_cap_def lru_modify[OF L] Un_assoc)
  qed
next
  case (Gc now)
  let ?xs = "lr_iter L (dc_cache d)"
  let ?ks = "map fst (filter (\<lambda>(_, e). entry_expired (dc_ttl d) now e) ?xs)"
  have "h \<notin> set ?ks"
  proof
    assume "h \<in> set ?ks"
    then obtain e where e: "(h, e) \<in> set ?xs" "entry_expired (dc_ttl d) now e" by auto
    then have "map_of ?xs h = Some e" using lru_distinct[OF L] by simp
    then show False using rem time Gc e(2) by (auto simp: remembers_def entry_expired_def)
  qed
  then have "map_of (filter (\<lambda>(k, _). k \<notin> set ?ks) ?xs) h = map_of ?xs h"
    "fst ` set (ahead h (filter (\<lambda>(k, _). k \<notin> set ?ks) ?xs)) \<subseteq> fst ` set (ahead h ?xs)"
    using map_of_filter_key[where h = h and P = "\<lambda>(k, _). k \<notin> set ?ks" and xs = ?xs]
      ahead_filter[where h = h and P = "\<lambda>(k, _). k \<notin> set ?ks" and xs = ?xs]
    by auto
  then show ?thesis using rem lru_pops[OF L, of ?ks "dc_cache d"] Gc
    by (auto simp: dedup_gc_def keeps_def dedup_cap_def remembers_def)
qed

section \<open>A concrete cache\<close>

text \<open>An instance of the documented behaviour: a capacity and a list, of which the first entry
  of each key counts.\<close>

definition list_iter :: "nat \<times> ('k \<times> 'e) list \<Rightarrow> ('k \<times> 'e) list" where
  "list_iter c = take (fst c) (AList.clearjunk (snd c))"

definition list_lru :: "('k, 'e, nat \<times> ('k \<times> 'e) list) lru" where
  "list_lru =
     \<lparr>lr_new = (\<lambda>n. (n, [])),
      lr_get = (\<lambda>k c. case map_of (list_iter c) k of
                  None \<Rightarrow> (None, c)
                | Some e \<Rightarrow> (Some e, (fst c, (k, e) # without k (list_iter c)))),
      lr_modify = (\<lambda>k f c. case map_of (list_iter c) k of
                  None \<Rightarrow> c | Some e \<Rightarrow> (fst c, (k, f e) # without k (list_iter c))),
      lr_put = (\<lambda>k e c. (fst c, (k, e) # take (fst c - 1) (without k (list_iter c)))),
      lr_pop = (\<lambda>k c. (fst c, without k (list_iter c))),
      lr_iter = list_iter,
      lr_cap = fst,
      lr_clear = (\<lambda>c. (fst c, []))\<rparr>"

lemma list_iter_distinct: "distinct (map fst (list_iter c))"
  by (simp add: list_iter_def take_map[symmetric] distinct_clearjunk)

lemma list_iter_length: "length (list_iter c) \<le> fst c"
  by (simp add: list_iter_def)

lemma clearjunk_distinct: "distinct (map fst xs) \<Longrightarrow> AList.clearjunk xs = xs"
proof (induction xs)
  case (Cons x xs)
  obtain k v where x: "x = (k, v)" by (rule prod.exhaust)
  then have "k \<notin> fst ` set xs" using Cons(2) by (force simp: image_iff)
  then have "AList.delete k xs = xs" by (simp add: AList.delete_idem)
  then show ?case using Cons x by (simp add: x)
qed simp

lemma list_iter_id: "distinct (map fst xs) \<Longrightarrow> length xs \<le> n \<Longrightarrow> list_iter (n, xs) = xs"
  by (simp add: list_iter_def clearjunk_distinct)

lemma list_iter_front:
  assumes "map_of (list_iter c) k = Some e"
  shows "list_iter (fst c, (k, e') # without k (list_iter c)) = (k, e') # without k (list_iter c)"
proof (rule list_iter_id)
  show "distinct (map fst ((k, e') # without k (list_iter c)))"
    using without_distinct[OF list_iter_distinct, of k c] by (auto simp: without_keys)
  have "(k, e) \<in> set (list_iter c)" using assms by (simp add: map_of_SomeD)
  then have "length (without k (list_iter c)) < length (list_iter c)"
    unfolding without_def by (rule length_filter_less) simp
  then show "length ((k, e') # without k (list_iter c)) \<le> fst c"
    using list_iter_length[of c] by simp
qed

lemma list_iter_put:
  assumes "0 < fst c"
  shows "list_iter (fst c, (k, e) # take (fst c - 1) (without k (list_iter c)))
    = (k, e) # take (fst c - 1) (without k (list_iter c))"
proof (rule list_iter_id)
  show "distinct (map fst ((k, e) # take (fst c - 1) (without k (list_iter c))))"
    using without_distinct[OF list_iter_distinct, of k c] without_keys[of k "list_iter c"]
    by (auto simp: take_map[symmetric] dest: in_set_takeD)
qed (use assms in auto)

lemma list_iter_without: "list_iter (fst c, without k (list_iter c)) = without k (list_iter c)"
  using without_distinct[OF list_iter_distinct, of k c] without_length[of k "list_iter c"]
    list_iter_length[of c]
  by (intro list_iter_id) auto

lemma list_lru_ok: "lru_ok list_lru"
  unfolding lru_ok_def
proof (intro conjI allI impI)
  fix c :: "nat \<times> ('a \<times> 'b) list" and k e f n
  note list_lru_def [simp]
  show "distinct (map fst (lr_iter list_lru c))" by (simp add: list_iter_distinct)
  show "length (lr_iter list_lru c) \<le> lr_cap list_lru c" by (simp add: list_iter_length)
  show "lr_iter list_lru (lr_new list_lru n) = []" by (simp add: list_iter_def)
  show "lr_cap list_lru (lr_new list_lru n) = n" by simp
  show "fst (lr_get list_lru k c) = map_of (lr_iter list_lru c) k"
    by (simp split: option.split)
  show "lr_cap list_lru (snd (lr_get list_lru k c)) = lr_cap list_lru c"
    by (simp split: option.split)
  show "lr_iter list_lru (snd (lr_get list_lru k c)) = (case map_of (lr_iter list_lru c) k of
      None \<Rightarrow> lr_iter list_lru c | Some e \<Rightarrow> (k, e) # without k (lr_iter list_lru c))"
    by (simp add: list_iter_front split: option.split)
  show "lr_cap list_lru (lr_modify list_lru k f c) = lr_cap list_lru c"
    by (simp split: option.split)
  show "lr_iter list_lru (lr_modify list_lru k f c) = (case map_of (lr_iter list_lru c) k of
      None \<Rightarrow> lr_iter list_lru c | Some e \<Rightarrow> (k, f e) # without k (lr_iter list_lru c))"
    by (simp add: list_iter_front split: option.split)
  show "lr_cap list_lru (lr_put list_lru k e c) = lr_cap list_lru c" by simp
  show "lr_cap list_lru (lr_pop list_lru k c) = lr_cap list_lru c" by simp
  show "lr_iter list_lru (lr_pop list_lru k c) = without k (lr_iter list_lru c)"
    by (simp add: list_iter_without)
  show "lr_cap list_lru (lr_clear list_lru c) = lr_cap list_lru c" by simp
  show "lr_iter list_lru (lr_clear list_lru c) = []" by (simp add: list_iter_def)
  show "lr_iter list_lru (lr_put list_lru k e c) =
      (k, e) # take (lr_cap list_lru c - 1) (without k (lr_iter list_lru c))"
    if "0 < lr_cap list_lru c"
    using that list_iter_put[of c k e] by simp
qed

section \<open>At most once\<close>

lemma dedup_runs_keep:
  assumes "lru_ok L" and "remembers L h t T d" and "finite T"
    and "\<forall>op\<in>set ops. nat (op_time op - t) \<le> dc_ttl d"
    and "card (T \<union> (\<Union> (op_hashes ` set ops) - {h})) < dedup_cap L d"
  shows "keeps L h t (T \<union> (\<Union> (op_hashes ` set ops) - {h})) d (fold (dedup_run L) ops d)"
  using assms(2-)
proof (induction ops arbitrary: d T)
  case Nil
  then show ?case by (simp add: keeps_def)
next
  case (Cons op ops)
  let ?T = "T \<union> (op_hashes op - {h})"
  have eq: "T \<union> (\<Union> (op_hashes ` set (op # ops)) - {h}) = ?T \<union> (\<Union> (op_hashes ` set ops) - {h})"
    by auto
  have fin: "finite ?T" "finite (?T \<union> (\<Union> (op_hashes ` set ops) - {h}))"
  proof -
    have "finite (op_hashes x)" for x by (cases x) auto
    then show "finite ?T" "finite (?T \<union> (\<Union> (op_hashes ` set ops) - {h}))" using Cons(3) by auto
  qed
  have "card ?T \<le> card (?T \<union> (\<Union> (op_hashes ` set ops) - {h}))" by (rule card_mono[OF fin(2)]) auto
  then have k: "keeps L h t ?T d (dedup_run L op d)"
    using Cons(5) by (intro dedup_run_keeps[OF assms(1) Cons(2,3)]) (use Cons(4) eq in auto)
  have "keeps L h t (?T \<union> (\<Union> (op_hashes ` set ops) - {h})) (dedup_run L op d)
      (fold (dedup_run L) ops (dedup_run L op d))"
    using k Cons(4,5) eq fin(1) by (intro Cons(1)) (simp_all add: keeps_def)
  then show ?case using k eq by (simp add: keeps_def)
qed

text \<open>A message that \<open>check_and_mark\<close> accepted, or that was marked while unknown, is remembered.\<close>

lemma accepted_remembered:
  assumes L: "lru_ok L" and cap: "0 < dedup_cap L d" and acc: "check_and_mark L now t h d = (True, d')"
  shows "keeps L h t {} d d'"
proof -
  obtain c where c: "lr_get L h (dc_cache d) = (map_of (lr_iter L (dc_cache d)) h, c)"
      "lr_cap L c = lr_cap L (dc_cache d)"
    "lr_iter L c = (case map_of (lr_iter L (dc_cache d)) h of None \<Rightarrow> lr_iter L (dc_cache d)
       | Some e \<Rightarrow> (h, e) # without h (lr_iter L (dc_cache d)))"
    using lru_get[OF L, of h "dc_cache d"] by blast
  show ?thesis
    using acc cap c
    by (auto simp: check_and_mark_def keeps_def remembers_def dedup_cap_def lru_modify[OF L] lru_put[OF L]
        split: option.splits if_splits)
qed

text \<open>C18: a message accepted by \<open>check_and_mark\<close> is rejected by every later check within its time to
  live, whatever other checks, marks and collections ran in between, as long as these touched
  fewer other hashes than the cache has room for. The time is that of the entry, the one
  \<open>check_and_mark\<close> recorded.\<close>

theorem processed_at_most_once:
  assumes "lru_ok L" and "0 < dedup_cap L d" and "check_and_mark L now t h d = (True, d')"
    and "\<forall>op\<in>set ops. nat (op_time op - t) \<le> dc_ttl d"
    and "card (\<Union> (op_hashes ` set ops) - {h}) < dedup_cap L d"
    and "nat (later - t) \<le> dc_ttl d"
  shows "\<not> fst (check_and_mark L later later' h (fold (dedup_run L) ops d'))
    \<and> \<not> fst (should_process L later h (fold (dedup_run L) ops d'))"
proof -
  let ?d = "fold (dedup_run L) ops d'"
  have "keeps L h t {} d d'" by (rule accepted_remembered[OF assms(1-3)])
  then have "remembers L h t ({} \<union> (\<Union> (op_hashes ` set ops) - {h})) ?d \<and> dc_ttl ?d = dc_ttl d"
    using dedup_runs_keep[OF assms(1), of h t "{}" d' ops] assms(4,5) by (simp add: keeps_def)
  then obtain e where e: "map_of (lr_iter L (dc_cache ?d)) h = Some e"
      "\<not> entry_expired (dc_ttl ?d) later e"
    using remembers_hit[of L h t _ ?d later] assms(6) by auto
  obtain c where "lr_get L h (dc_cache ?d) = (map_of (lr_iter L (dc_cache ?d)) h, c)"
    using lru_get[OF assms(1), of h "dc_cache ?d"] by blast
  then show ?thesis using e by (simp add: check_and_mark_def should_process_def)
qed

theorem processed_at_most_once_witness:
  "let d = dedup_new list_lru 2 10;
       d' = snd (check_and_mark list_lru 0 0 [1] d);
       ops = [CheckAndMark 1 1 [2], MarkSeen 2 [2], Gc 3]
   in lru_ok (list_lru :: (nat \<times> (message_hash \<times> cache_entry) list) hash_lru)
    \<and> fst (check_and_mark list_lru 0 0 [1] d)
    \<and> \<not> fst (check_and_mark list_lru 10 10 [1] (fold (dedup_run list_lru) ops d'))
    \<and> \<not> fst (should_process list_lru 10 [1] (fold (dedup_run list_lru) ops d'))"
proof -
  let ?L = "list_lru :: (nat \<times> (message_hash \<times> cache_entry) list) hash_lru"
  let ?d = "dedup_new ?L 2 10" and ?ops = "[CheckAndMark 1 1 [2], MarkSeen 2 [2], Gc 3]"
  have acc: "fst (check_and_mark ?L 0 0 [1] ?d)" by code_simp
  have "check_and_mark ?L 0 0 [1] ?d = (True, snd (check_and_mark ?L 0 0 [1] ?d))"
    using acc by (simp add: prod_eq_iff)
  moreover have "dedup_cap ?L ?d = 2" "dc_ttl ?d = 10"
    by (simp_all add: dedup_new_def dedup_cap_def list_lru_def)
  ultimately have "\<not> fst (check_and_mark ?L 10 10 [1] (fold (dedup_run ?L) ?ops (snd (check_and_mark ?L 0 0 [1] ?d))))
    \<and> \<not> fst (should_process ?L 10 [1] (fold (dedup_run ?L) ?ops (snd (check_and_mark ?L 0 0 [1] ?d))))"
    by (intro processed_at_most_once[where now = 0 and t = 0 and d = ?d, OF list_lru_ok]) auto
  then show ?thesis using acc list_lru_ok unfolding Let_def by blast
qed

end
