(* ===== verification/Gossip_Store.thy ===== *)
theory Gossip_Store
  imports Gossip_Dedup
begin

text \<open>
  The message store of \<open>crates/networking/extensions/gossip-primitives/src/store.rs\<close>: a hash map of
  entries with an index by sender and one by time of arrival, which drives eviction. The
  index by time is a \<open>BTreeMap\<close> keyed by the instant alone. The lemmas show when the indexes
  agree with the entries and the store stays within its bound, and what happens to entries
  that arrive at one instant.
\<close>

section \<open>BTreeMap\<close>

text \<open>A list in the order of its keys; \<open>insert\<close> overwrites the value of a present key.\<close>

fun bt_insert :: "'k::linorder \<Rightarrow> 'v \<Rightarrow> ('k \<times> 'v) list \<Rightarrow> ('k \<times> 'v) list" where
  "bt_insert k v [] = [(k, v)]"
| "bt_insert k v ((k', v') # m) =
     (if k < k' then (k, v) # (k', v') # m
      else if k = k' then (k, v) # m
      else (k', v') # bt_insert k v m)"

definition bt_remove :: "'k::linorder \<Rightarrow> ('k \<times> 'v) list \<Rightarrow> ('k \<times> 'v) list" where
  "bt_remove k m = filter (\<lambda>(k', _). k' \<noteq> k) m"

definition bt_below :: "'k::linorder \<Rightarrow> ('k \<times> 'v) list \<Rightarrow> ('k \<times> 'v) list" where
  "bt_below k m = filter (\<lambda>(k', _). k' < k) m"

definition bt_wf :: "('k::linorder \<times> 'v) list \<Rightarrow> bool" where
  "bt_wf m \<longleftrightarrow> sorted_wrt (<) (map fst m)"

lemma bt_insert_set:
  "bt_wf m \<Longrightarrow> set (bt_insert k v m) = insert (k, v) {(k', v'). (k', v') \<in> set m \<and> k' \<noteq> k}"
  by (induction k v m rule: bt_insert.induct) (auto simp: bt_wf_def)

lemma bt_insert_wf: "bt_wf m \<Longrightarrow> bt_wf (bt_insert k v m)"
proof (induction k v m rule: bt_insert.induct)
  case (2 k v k' v' m)
  then have "bt_wf m" by (simp add: bt_wf_def)
  then show ?case using 2 bt_insert_set[of m k v] by (auto simp: bt_wf_def)
qed (simp add: bt_wf_def)

lemma bt_filter_wf: "bt_wf m \<Longrightarrow> bt_wf (filter P m)"
  by (induction m) (auto simp: bt_wf_def)

lemma bt_wf_distinct: "bt_wf m \<Longrightarrow> distinct (map fst m)"
  by (simp add: bt_wf_def strict_sorted_iff)

section \<open>Entries and state\<close>

type_synonym peer_id = bytes

record 'm message_entry =
  me_message :: 'm
  me_hash :: message_hash
  me_sender :: "peer_id option"
  me_received_at :: instant
  me_processed :: bool

definition entry_new :: "instant \<Rightarrow> 'm \<Rightarrow> message_hash \<Rightarrow> peer_id option \<Rightarrow> 'm message_entry" where
  "entry_new now message h sender =
     \<lparr>me_message = message, me_hash = h, me_sender = sender, me_received_at = now, me_processed = False\<rparr>"

definition entry_mark_processed :: "'m message_entry \<Rightarrow> 'm message_entry" where
  "entry_mark_processed e = e\<lparr>me_processed := True\<rparr>"

definition entry_age :: "instant \<Rightarrow> 'm message_entry \<Rightarrow> duration" where
  "entry_age now e = nat (now - me_received_at e)"

record store_config =
  sc_max_messages :: nat
  sc_index_by_sender :: bool

definition store_config_default :: store_config where
  "store_config_default = \<lparr>sc_max_messages = 10000, sc_index_by_sender = True\<rparr>"

record 'm message_store =
  st_messages :: "(message_hash, 'm message_entry) hmap"
  st_by_sender :: "(peer_id, message_hash list) hmap"
  st_insertion_order :: "(instant \<times> message_hash) list"
  st_config :: store_config

definition store_new :: "store_config \<Rightarrow> 'm message_store" where
  "store_new config =
     \<lparr>st_messages = [], st_by_sender = [], st_insertion_order = [], st_config = config\<rparr>"

definition store_with_defaults :: "'m message_store" where
  "store_with_defaults = store_new store_config_default"

section \<open>Operations\<close>

text \<open>\<open>if let Some(hashes) = by_sender.get_mut(&sender) { hashes.retain(|h| h != hash) }\<close>.\<close>

definition unindex :: "peer_id option \<Rightarrow> message_hash \<Rightarrow> (peer_id, message_hash list) hmap \<Rightarrow>
    (peer_id, message_hash list) hmap" where
  "unindex sender h idx =
     (case sender of None \<Rightarrow> idx
      | Some p \<Rightarrow> (case hm_get idx p of None \<Rightarrow> idx
                  | Some hs \<Rightarrow> hm_insert p (filter (\<lambda>h'. h' \<noteq> h) hs) idx))"

definition drop_message :: "message_hash \<Rightarrow> 'm message_store \<Rightarrow> 'm message_store" where
  "drop_message h s =
     (case hm_get (st_messages s) h of
        None \<Rightarrow> s
      | Some e \<Rightarrow> s\<lparr>st_messages := hm_remove h (st_messages s),
                    st_by_sender := unindex (me_sender e) h (st_by_sender s)\<rparr>)"

definition maybe_evict :: "'m message_store \<Rightarrow> 'm message_store" where
  "maybe_evict s =
     (if hm_len (st_messages s) < sc_max_messages (st_config s) then s
      else let to_evict = max (sc_max_messages (st_config s) div 10) 1;
               hashes_to_remove = map snd (take to_evict (st_insertion_order s));
               times_to_remove = map fst (take to_evict (st_insertion_order s));
               s' = fold drop_message hashes_to_remove s
           in s'\<lparr>st_insertion_order := fold bt_remove times_to_remove (st_insertion_order s')\<rparr>)"

definition store_insert :: "'m message_entry \<Rightarrow> 'm message_store \<Rightarrow> bool \<times> 'm message_store" where
  "store_insert e s0 =
     (let h = me_hash e; s = maybe_evict s0 in
      if hm_get (st_messages s) h \<noteq> None then (False, s)
      else
        (True,
         s\<lparr>st_messages := hm_insert h e (st_messages s),
           st_by_sender :=
             (if sc_index_by_sender (st_config s)
              then case me_sender e of
                     None \<Rightarrow> st_by_sender s
                   | Some p \<Rightarrow>
                       hm_insert p ((case hm_get (st_by_sender s) p of None \<Rightarrow> [] | Some hs \<Rightarrow> hs) @ [h])
                         (st_by_sender s)
              else st_by_sender s),
           st_insertion_order := bt_insert (me_received_at e) h (st_insertion_order s)\<rparr>))"

definition store_get :: "message_hash \<Rightarrow> 'm message_store \<Rightarrow> 'm message_entry option" where
  "store_get h s = hm_get (st_messages s) h"

definition store_get_mut ::
  "message_hash \<Rightarrow> ('m message_entry \<Rightarrow> 'r \<times> 'm message_entry) \<Rightarrow> 'm message_store \<Rightarrow>
    'r option \<times> 'm message_store" where
  "store_get_mut h f s =
     (case hm_get (st_messages s) h of
        None \<Rightarrow> (None, s)
      | Some e \<Rightarrow> (let (r, e') = f e in (Some r, s\<lparr>st_messages := hm_insert h e' (st_messages s)\<rparr>)))"

definition store_contains :: "message_hash \<Rightarrow> 'm message_store \<Rightarrow> bool" where
  "store_contains h s \<longleftrightarrow> hm_get (st_messages s) h \<noteq> None"

definition get_by_sender :: "peer_id \<Rightarrow> 'm message_store \<Rightarrow> 'm message_entry list" where
  "get_by_sender p s =
     (case hm_get (st_by_sender s) p of
        None \<Rightarrow> [] | Some hs \<Rightarrow> List.map_filter (hm_get (st_messages s)) hs)"

definition get_unprocessed :: "'m message_store \<Rightarrow> 'm message_entry list" where
  "get_unprocessed s = filter (\<lambda>e. \<not> me_processed e) (hm_values (st_messages s))"

definition store_mark_processed :: "message_hash \<Rightarrow> 'm message_store \<Rightarrow> bool \<times> 'm message_store" where
  "store_mark_processed h s =
     (case hm_get (st_messages s) h of
        None \<Rightarrow> (False, s)
      | Some e \<Rightarrow> (True, s\<lparr>st_messages := hm_insert h (entry_mark_processed e) (st_messages s)\<rparr>))"

definition store_remove ::
  "message_hash \<Rightarrow> 'm message_store \<Rightarrow> 'm message_entry option \<times> 'm message_store" where
  "store_remove h s =
     (case hm_get (st_messages s) h of
        None \<Rightarrow> (None, s)
      | Some e \<Rightarrow>
          (Some e,
           s\<lparr>st_messages := hm_remove h (st_messages s),
             st_by_sender := unindex (me_sender e) h (st_by_sender s),
             st_insertion_order := bt_remove (me_received_at e) (st_insertion_order s)\<rparr>))"

definition store_len :: "'m message_store \<Rightarrow> nat" where
  "store_len s = hm_len (st_messages s)"

definition store_is_empty :: "'m message_store \<Rightarrow> bool" where
  "store_is_empty s \<longleftrightarrow> st_messages s = []"

definition store_clear :: "'m message_store \<Rightarrow> 'm message_store" where
  "store_clear s = s\<lparr>st_messages := [], st_by_sender := [], st_insertion_order := []\<rparr>"

definition remove_older_than :: "instant \<Rightarrow> duration \<Rightarrow> 'm message_store \<Rightarrow> 'm message_store" where
  "remove_older_than now max_age s =
     (let cutoff = now - int max_age in
      fold (\<lambda>(t, h) s. let s' = drop_message h s
                       in s'\<lparr>st_insertion_order := bt_remove t (st_insertion_order s')\<rparr>)
        (bt_below cutoff (st_insertion_order s)) s)"

record store_stats =
  ss_total_messages :: nat
  ss_processed_messages :: nat
  ss_unprocessed_messages :: nat
  ss_unique_senders :: nat

definition store_stats_of :: "'m message_store \<Rightarrow> store_stats" where
  "store_stats_of s =
     (let processed = length (filter me_processed (hm_values (st_messages s))) in
      \<lparr>ss_total_messages = hm_len (st_messages s),
       ss_processed_messages = processed,
       ss_unprocessed_messages = hm_len (st_messages s) - processed,
       ss_unique_senders = hm_len (st_by_sender s)\<rparr>)"

datatype 'm store_op =
    Insert "'m message_entry"
  | MarkProcessed message_hash
  | Remove message_hash
  | RemoveOlderThan instant duration
  | Clear

primrec store_step :: "'m store_op \<Rightarrow> 'm message_store \<Rightarrow> 'm message_store" where
  "store_step (Insert e) s = snd (store_insert e s)"
| "store_step (MarkProcessed h) s = snd (store_mark_processed h s)"
| "store_step (Remove h) s = snd (store_remove h s)"
| "store_step (RemoveOlderThan now max_age) s = remove_older_than now max_age s"
| "store_step Clear s = store_clear s"

definition store_run :: "store_config \<Rightarrow> 'm store_op list \<Rightarrow> 'm message_store" where
  "store_run config ops = fold store_step ops (store_new config)"

section \<open>Agreement of the indexes\<close>

definition indexed :: "peer_id \<Rightarrow> (peer_id, message_hash list) hmap \<Rightarrow> message_hash list" where
  "indexed p idx = (case hm_get idx p of None \<Rightarrow> [] | Some hs \<Rightarrow> hs)"

text \<open>The entries are keyed by their hash, the order of arrival refers to present entries with
  their times, and the sender index lists the entries of each sender once.\<close>

definition entries_ok :: "'m message_store \<Rightarrow> bool" where
  "entries_ok s \<longleftrightarrow> hm_wf (st_messages s)
     \<and> (\<forall>h e. hm_get (st_messages s) h = Some e \<longrightarrow> me_hash e = h)"

definition order_ok :: "'m message_store \<Rightarrow> bool" where
  "order_ok s \<longleftrightarrow> bt_wf (st_insertion_order s)
     \<and> (\<forall>t h. (t, h) \<in> set (st_insertion_order s) \<longrightarrow>
          (\<exists>e. hm_get (st_messages s) h = Some e \<and> me_received_at e = t))"

definition index_ok :: "'m message_store \<Rightarrow> bool" where
  "index_ok s \<longleftrightarrow> (\<forall>p. distinct (indexed p (st_by_sender s))
     \<and> set (indexed p (st_by_sender s)) =
         (if sc_index_by_sender (st_config s)
          then {h. \<exists>e. hm_get (st_messages s) h = Some e \<and> me_sender e = Some p} else {}))"

definition store_inv :: "'m message_store \<Rightarrow> bool" where
  "store_inv s \<longleftrightarrow> entries_ok s \<and> order_ok s \<and> index_ok s"


section \<open>Dropping entries\<close>

lemma drop_message_frame [simp]:
  "st_insertion_order (drop_message h s) = st_insertion_order s"
  "st_config (drop_message h s) = st_config s"
  by (simp_all add: drop_message_def split: option.split)

lemma drop_message_get [simp]:
  "hm_get (st_messages (drop_message h s)) = (hm_get (st_messages s))(h := None)"
  by (auto simp: drop_message_def split: option.split)

lemma drop_message_entries: "entries_ok s \<Longrightarrow> entries_ok (drop_message h s)"
  by (auto simp: entries_ok_def drop_message_def split: option.split)

lemma indexed_insert: "indexed p (hm_insert q hs idx) = (if p = q then hs else indexed p idx)"
  by (simp add: indexed_def)

lemma indexed_unindex:
  "indexed p (unindex sender h idx) =
     (if sender = Some p then filter (\<lambda>h'. h' \<noteq> h) (indexed p idx) else indexed p idx)"
  by (auto simp: unindex_def indexed_insert indexed_def split: option.splits)

lemma drop_message_index: "index_ok s \<Longrightarrow> index_ok (drop_message h s)"
  by (auto simp: index_ok_def drop_message_def indexed_unindex split: option.split)

lemma drop_messages:
  assumes "entries_ok s" and "index_ok s"
  shows "entries_ok (fold drop_message hs s) \<and> index_ok (fold drop_message hs s)
    \<and> st_insertion_order (fold drop_message hs s) = st_insertion_order s
    \<and> st_config (fold drop_message hs s) = st_config s
    \<and> hm_get (st_messages (fold drop_message hs s)) = (\<lambda>h. if h \<in> set hs then None else hm_get (st_messages s) h)"
  using assms
proof (induction hs arbitrary: s)
  case (Cons h hs)
  note ih = Cons(1)[OF drop_message_entries[OF Cons(2), of h] drop_message_index[OF Cons(3), of h]]
  then show ?case by (simp add: fun_eq_iff)
qed simp

lemma bt_removes: "fold bt_remove ts m = filter (\<lambda>(t, _). t \<notin> set ts) m"
  by (induction ts arbitrary: m) (auto simp: bt_remove_def filter_filter intro!: filter_cong)

text \<open>What evicting or expiring a part \<open>xs\<close> of the order of arrival leaves.\<close>

definition dropped :: "(instant \<times> message_hash) list \<Rightarrow> 'm message_store \<Rightarrow> 'm message_store \<Rightarrow> bool" where
  "dropped xs s s' \<longleftrightarrow>
     hm_get (st_messages s') = (\<lambda>h. if h \<in> snd ` set xs then None else hm_get (st_messages s) h)
     \<and> st_insertion_order s' = filter (\<lambda>(t, _). t \<notin> fst ` set xs) (st_insertion_order s)
     \<and> st_config s' = st_config s"

lemma dropped_inv:
  assumes "store_inv s" and "dropped xs s s'" and "entries_ok s'" and "index_ok s'"
    and "set xs \<subseteq> set (st_insertion_order s)"
  shows "store_inv s'"
proof -
  have ord: "bt_wf (st_insertion_order s)"
    "\<And>t h. (t, h) \<in> set (st_insertion_order s) \<Longrightarrow>
       \<exists>e. hm_get (st_messages s) h = Some e \<and> me_received_at e = t"
    using assms(1) by (auto simp: store_inv_def order_ok_def)
  have "\<exists>e. hm_get (st_messages s') h = Some e \<and> me_received_at e = t"
    if "(t, h) \<in> set (st_insertion_order s')" for t h
  proof -
    have th: "(t, h) \<in> set (st_insertion_order s)" "t \<notin> fst ` set xs"
      using that assms(2) by (auto simp: dropped_def)
    then obtain e where e: "hm_get (st_messages s) h = Some e" "me_received_at e = t" using ord(2) by blast
    have "h \<notin> snd ` set xs"
    proof
      assume "h \<in> snd ` set xs"
      then obtain t' where t': "(t', h) \<in> set xs" by auto
      then have "t' = t" using assms(5) ord(2)[of t' h] e by auto
      then show False using t' th(2) by force
    qed
    then show ?thesis using e assms(2) by (simp add: dropped_def)
  qed
  then show ?thesis
    using assms(2-4) bt_filter_wf[OF ord(1)] by (simp add: store_inv_def order_ok_def dropped_def)
qed

lemma maybe_evict_dropped:
  assumes "store_inv s" and "\<not> hm_len (st_messages s) < sc_max_messages (st_config s)"
  shows "dropped (take (max (sc_max_messages (st_config s) div 10) 1) (st_insertion_order s)) s (maybe_evict s)"
    and "entries_ok (maybe_evict s)" and "index_ok (maybe_evict s)"
  using assms drop_messages[of s "map snd (take (max (sc_max_messages (st_config s) div 10) 1) (st_insertion_order s))"]
  by (simp_all add: maybe_evict_def Let_def dropped_def bt_removes store_inv_def
      entries_ok_def index_ok_def)

lemma maybe_evict_inv:
  assumes "store_inv s"
  shows "store_inv (maybe_evict s)"
proof (cases "hm_len (st_messages s) < sc_max_messages (st_config s)")
  case True
  then show ?thesis using assms by (simp add: maybe_evict_def)
next
  case False
  show ?thesis
    by (rule dropped_inv[OF assms maybe_evict_dropped[OF assms False]]) (auto dest: in_set_takeD)
qed

lemma remove_older_dropped:
  assumes "entries_ok s" and "index_ok s"
  shows "dropped (bt_below (now - int age) (st_insertion_order s)) s (remove_older_than now age s)
    \<and> entries_ok (remove_older_than now age s) \<and> index_ok (remove_older_than now age s)"
proof -
  let ?step = "\<lambda>(t, h) s. let s' = drop_message h s
                       in s'\<lparr>st_insertion_order := bt_remove t (st_insertion_order s')\<rparr>"
  have "dropped xs s (fold ?step xs s) \<and> entries_ok (fold ?step xs s) \<and> index_ok (fold ?step xs s)" for xs
    using assms
  proof (induction xs arbitrary: s)
    case Nil
    then show ?case by (auto simp: dropped_def filter_True)
  next
    case (Cons x xs)
    obtain t h where x: "x = (t, h)" by (rule prod.exhaust)
    have "entries_ok (?step x s)" "index_ok (?step x s)"
      using drop_message_entries[OF Cons(2), of h] drop_message_index[OF Cons(3), of h]
      by (simp_all add: x entries_ok_def index_ok_def)
    note ih = Cons(1)[OF this]
    have "dropped (x # xs) s (fold ?step xs (?step x s))"
      using ih by (auto simp: x dropped_def bt_remove_def filter_filter fun_eq_iff intro!: filter_cong)
    then show ?case using ih by (simp only: fold_simps)
  qed
  then show ?thesis by (simp add: remove_older_than_def Let_def)
qed

lemma remove_older_inv: "store_inv s \<Longrightarrow> store_inv (remove_older_than now age s)"
  by (rule dropped_inv[of s "bt_below (now - int age) (st_insertion_order s)"])
    (use remove_older_dropped[of s now age] in \<open>auto simp: store_inv_def bt_below_def\<close>)

section \<open>Every operation keeps the invariant\<close>

lemma store_remove_inv:
  assumes "store_inv s"
  shows "store_inv (snd (store_remove h s))"
proof (cases "hm_get (st_messages s) h")
  case None
  then show ?thesis using assms by (simp add: store_remove_def)
next
  case (Some e)
  let ?s = "drop_message h s"
  have eq: "snd (store_remove h s) = ?s\<lparr>st_insertion_order := bt_remove (me_received_at e) (st_insertion_order s)\<rparr>"
    using Some by (simp add: store_remove_def drop_message_def)
  have "entries_ok ?s" "index_ok ?s"
    using assms drop_message_entries drop_message_index by (auto simp: store_inv_def)
  moreover have "\<exists>e'. hm_get (st_messages s) h' = Some e' \<and> me_received_at e' = t \<and> h' \<noteq> h"
    if "(t, h') \<in> set (st_insertion_order s)" "t \<noteq> me_received_at e" for t h'
    using that assms Some by (fastforce simp: store_inv_def order_ok_def)
  moreover have "bt_wf (bt_remove (me_received_at e) (st_insertion_order s))"
    using assms by (simp add: bt_remove_def bt_filter_wf store_inv_def order_ok_def)
  ultimately show ?thesis unfolding eq
    by (fastforce simp: store_inv_def order_ok_def entries_ok_def index_ok_def bt_remove_def)
qed

lemma store_mark_inv: "store_inv s \<Longrightarrow> store_inv (snd (store_mark_processed h s))"
  by (fastforce simp: store_mark_processed_def entry_mark_processed_def store_inv_def entries_ok_def
      order_ok_def index_ok_def split: option.splits)

lemma store_insert_cases:
  assumes "store_inv s"
  obtains (duplicate) "store_insert e s = (False, maybe_evict s)" "store_contains (me_hash e) (maybe_evict s)"
  | (fresh) s' where "store_insert e s = (True, s')"
      "hm_get (st_messages (maybe_evict s)) (me_hash e) = None"
      "st_messages s' = hm_insert (me_hash e) e (st_messages (maybe_evict s))"
      "st_insertion_order s' = bt_insert (me_received_at e) (me_hash e) (st_insertion_order (maybe_evict s))"
      "st_config s' = st_config (maybe_evict s)" "store_inv s'"
proof (cases "hm_get (st_messages (maybe_evict s)) (me_hash e)")
  case None
  let ?s = "maybe_evict s" and ?s' = "snd (store_insert e s)"
  have inv: "store_inv ?s" by (rule maybe_evict_inv[OF assms])
  have m: "st_messages ?s' = hm_insert (me_hash e) e (st_messages ?s)"
    "st_insertion_order ?s' = bt_insert (me_received_at e) (me_hash e) (st_insertion_order ?s)"
    "st_config ?s' = st_config ?s"
    using None by (simp_all add: store_insert_def Let_def)
  have idx: "indexed p (st_by_sender ?s') = indexed p (st_by_sender ?s) @
      (if sc_index_by_sender (st_config ?s) \<and> me_sender e = Some p then [me_hash e] else [])" for p
    using None by (auto simp: store_insert_def Let_def indexed_insert indexed_def split: option.splits)
  have "entries_ok ?s'" using inv m by (auto simp: store_inv_def entries_ok_def)
  moreover have "order_ok ?s'"
    using inv m None bt_insert_wf bt_insert_set
    by (fastforce simp: store_inv_def order_ok_def)
  moreover have "index_ok ?s'"
    using inv m None idx by (auto simp: store_inv_def index_ok_def split: if_splits)
  ultimately have "store_inv ?s'" by (simp add: store_inv_def)
  moreover have "store_insert e s = (True, ?s')" using None by (simp add: store_insert_def Let_def)
  ultimately show ?thesis using fresh m None by blast
next
  case (Some e')
  then show ?thesis using duplicate by (simp add: store_insert_def Let_def store_contains_def)
qed

lemma store_insert_inv: "store_inv s \<Longrightarrow> store_inv (snd (store_insert e s))"
  by (rule store_insert_cases[of s e]) (auto simp: maybe_evict_inv)

lemma store_clear_inv: "store_inv (store_clear s)"
  by (simp add: store_clear_def store_inv_def entries_ok_def order_ok_def index_ok_def indexed_def bt_wf_def)

lemma store_step_inv: "store_inv s \<Longrightarrow> store_inv (store_step op s)"
  by (cases op) (simp_all add: store_insert_inv store_mark_inv store_remove_inv remove_older_inv store_clear_inv)

lemma store_new_inv: "store_inv (store_new config)"
  by (simp add: store_new_def store_inv_def entries_ok_def order_ok_def index_ok_def indexed_def bt_wf_def)

lemma store_run_inv: "store_inv (store_run config ops)"
proof -
  have "store_inv (fold store_step ops s)" if "store_inv s" for s :: "'a message_store"
    using that by (induction ops arbitrary: s) (simp_all add: store_step_inv)
  then show ?thesis by (simp add: store_run_def store_new_inv)
qed


lemma store_step_config: "store_inv s \<Longrightarrow> st_config (store_step op s) = st_config s"
proof (cases op)
  case (Insert e)
  assume inv: "store_inv s"
  have "st_config (maybe_evict s) = st_config s"
    using maybe_evict_dropped(1)[OF inv] by (cases "hm_len (st_messages s) < sc_max_messages (st_config s)")
      (auto simp: maybe_evict_def dropped_def)
  then show ?thesis using Insert by (auto simp: store_insert_def Let_def)
next
  case (RemoveOlderThan now age)
  assume "store_inv s"
  then show ?thesis using RemoveOlderThan remove_older_dropped[of s now age]
    by (simp add: store_inv_def dropped_def)
qed (auto simp: store_mark_processed_def store_remove_def store_clear_def split: option.splits)

lemma store_run_config: "st_config (store_run config ops) = config"
proof -
  have "st_config (fold store_step ops s) = st_config s" if "store_inv s" for s :: "'a message_store"
    using that by (induction ops arbitrary: s) (simp_all add: store_step_inv store_step_config)
  then show ?thesis by (simp add: store_run_def store_new_inv) (simp add: store_new_def)
qed

lemma map_filter_set: "set (List.map_filter f xs) = {y. \<exists>x\<in>set xs. f x = Some y}"
  by (induction xs) (auto simp: map_filter_simps split: option.splits)

text \<open>C19: after any sequence of operations, \<open>get_by_sender\<close> returns each stored message of that sender
  exactly once and nothing else, when the index is enabled; this holds even when entries share
  an arrival time.\<close>

theorem sender_index_exact:
  assumes "sc_index_by_sender config"
  shows "distinct (map me_hash (get_by_sender p (store_run config ops)))
    \<and> set (get_by_sender p (store_run config ops)) =
        {e. store_get (me_hash e) (store_run config ops) = Some e \<and> me_sender e = Some p}"
proof -
  define s where "s = store_run config ops"
  have inv: "store_inv s" by (simp add: s_def store_run_inv)
  have eq: "get_by_sender p s = List.map_filter (hm_get (st_messages s)) (indexed p (st_by_sender s))"
    by (simp add: get_by_sender_def indexed_def split: option.split)
  have idx: "distinct (indexed p (st_by_sender s))" "set (indexed p (st_by_sender s)) =
      {h. \<exists>e. hm_get (st_messages s) h = Some e \<and> me_sender e = Some p}"
    using inv assms store_run_config[of config ops] by (simp_all add: store_inv_def index_ok_def s_def)
  have hash: "\<And>h e. hm_get (st_messages s) h = Some e \<Longrightarrow> me_hash e = h"
    using inv by (simp add: store_inv_def entries_ok_def)
  have keys: "map me_hash (List.map_filter (hm_get (st_messages s)) hs) = hs"
    if "set hs \<subseteq> dom (hm_get (st_messages s))" for hs
    using that hash by (induction hs) (auto simp: map_filter_simps)
  have "set (indexed p (st_by_sender s)) \<subseteq> dom (hm_get (st_messages s))" using idx(2) by auto
  then have "map me_hash (get_by_sender p s) = indexed p (st_by_sender s)"
    unfolding eq by (rule keys)
  moreover have "set (get_by_sender p s) = {e. store_get (me_hash e) s = Some e \<and> me_sender e = Some p}"
  proof (rule set_eqI)
    fix e
    have "e \<in> set (get_by_sender p s) \<longleftrightarrow> (\<exists>h. hm_get (st_messages s) h = Some e \<and> me_sender e = Some p)"
      by (auto simp: eq map_filter_set idx(2))
    also have "\<dots> \<longleftrightarrow> hm_get (st_messages s) (me_hash e) = Some e \<and> me_sender e = Some p"
      using hash[of _ e] by auto
    finally show "e \<in> set (get_by_sender p s) \<longleftrightarrow>
        e \<in> {e. store_get (me_hash e) s = Some e \<and> me_sender e = Some p}"
      by (simp add: store_get_def)
  qed
  ultimately show ?thesis using idx(1) by (simp add: s_def)
qed

text \<open>Four arrivals, two of one sender, in a store with room for three.\<close>

definition demo_config :: store_config where
  "demo_config = \<lparr>sc_max_messages = 3, sc_index_by_sender = True\<rparr>"

definition demo_arrivals :: "nat store_op list" where
  "demo_arrivals =
     [Insert (entry_new 1 10 [1] (Some [7])), Insert (entry_new 2 20 [2] (Some [8])),
      Insert (entry_new 3 30 [3] (Some [7])), MarkProcessed [3],
      Insert (entry_new 4 40 [4] (Some [7]))]"

lemmas store_eval = store_run_def store_new_def store_insert_def maybe_evict_def drop_message_def
  unindex_def bt_remove_def hm_insert_def hm_remove_def entry_new_def store_mark_processed_def
  entry_mark_processed_def Let_def demo_config_def demo_arrivals_def

theorem sender_index_exact_witness:
  "sc_index_by_sender demo_config
    \<and> map me_hash (get_by_sender [7] (store_run demo_config demo_arrivals)) = [[3], [4]]
    \<and> distinct (map me_hash (get_by_sender [7] (store_run demo_config demo_arrivals)))"
  using sender_index_exact[of demo_config "[7]" demo_arrivals]
  by (simp add: store_eval get_by_sender_def map_filter_simps)

section \<open>The bound\<close>

text \<open>With distinct arrival times every entry is in the order of arrival.\<close>

definition all_ordered :: "'m message_store \<Rightarrow> bool" where
  "all_ordered s \<longleftrightarrow> (\<forall>h e. hm_get (st_messages s) h = Some e \<longrightarrow>
     (me_received_at e, h) \<in> set (st_insertion_order s))"

definition bounded :: "instant set \<Rightarrow> 'm message_store \<Rightarrow> bool" where
  "bounded T s \<longleftrightarrow> store_inv s \<and> all_ordered s \<and> store_len s \<le> max 1 (sc_max_messages (st_config s))
     \<and> fst ` set (st_insertion_order s) \<subseteq> T"

lemma ordered_len:
  assumes "store_inv s" and "all_ordered s"
  shows "length (st_insertion_order s) = store_len s"
proof -
  have wf: "distinct (map fst (st_insertion_order s))" "hm_wf (st_messages s)"
    using assms(1) bt_wf_distinct by (auto simp: store_inv_def order_ok_def entries_ok_def)
  have ord: "\<And>t h. (t, h) \<in> set (st_insertion_order s) \<Longrightarrow>
      \<exists>e. hm_get (st_messages s) h = Some e \<and> me_received_at e = t"
    using assms(1) by (simp add: store_inv_def order_ok_def)
  have inj: "inj_on snd (set (st_insertion_order s))"
  proof (rule inj_onI)
    fix x y assume x: "x \<in> set (st_insertion_order s)" and y: "y \<in> set (st_insertion_order s)"
      and eq: "snd x = snd y"
    obtain e where e: "hm_get (st_messages s) (snd x) = Some e" "me_received_at e = fst x"
      using ord[of "fst x" "snd x"] x by auto
    obtain e' where e': "hm_get (st_messages s) (snd y) = Some e'" "me_received_at e' = fst y"
      using ord[of "fst y" "snd y"] y by auto
    show "x = y" using e e' eq by (simp add: prod_eq_iff)
  qed
  have "snd ` set (st_insertion_order s) = dom (hm_get (st_messages s))"
    using ord assms(2) by (force simp: all_ordered_def)
  then have "card (dom (hm_get (st_messages s))) = card (set (st_insertion_order s))"
    using card_image[OF inj] by simp
  also have "\<dots> = length (st_insertion_order s)"
    using wf(1) by (intro distinct_card) (simp add: distinct_map)
  finally show ?thesis using hm_len_card[OF wf(2)] by (simp add: store_len_def)
qed

lemma dropped_ordered:
  assumes "store_inv s" and "all_ordered s" and "dropped xs s s'" and "set xs \<subseteq> set (st_insertion_order s)"
  shows "all_ordered s'"
  unfolding all_ordered_def
proof (intro allI impI)
  fix h e assume "hm_get (st_messages s') h = Some e"
  then have h: "hm_get (st_messages s) h = Some e" "h \<notin> snd ` set xs"
    using assms(3) by (auto simp: dropped_def split: if_splits)
  have th: "(me_received_at e, h) \<in> set (st_insertion_order s)" using h(1) assms(2) by (simp add: all_ordered_def)
  have "me_received_at e \<notin> fst ` set xs"
  proof
    assume "me_received_at e \<in> fst ` set xs"
    then obtain h' where h': "(me_received_at e, h') \<in> set xs" by auto
    have "distinct (map fst (st_insertion_order s))"
      using assms(1) bt_wf_distinct by (auto simp: store_inv_def order_ok_def)
    then have "h' = h" using h' th assms(4) by (meson eq_key_imp_eq_value subsetD)
    then show False using h(2) h' by force
  qed
  then show "(me_received_at e, h) \<in> set (st_insertion_order s')" using th assms(3) by (auto simp: dropped_def)
qed

lemma dropped_len: "store_inv s \<Longrightarrow> store_inv s' \<Longrightarrow> dropped xs s s' \<Longrightarrow> store_len s' \<le> store_len s"
  unfolding store_len_def store_inv_def entries_ok_def dropped_def
  by (auto simp: hm_len_card finite_dom_map_of intro!: card_mono split: if_splits)


lemma maybe_evict_bounded:
  assumes "bounded T s"
  shows "bounded T (maybe_evict s)"
    and "store_len (maybe_evict s) < max 1 (sc_max_messages (st_config s))"
    and "st_config (maybe_evict s) = st_config s"
proof -
  have inv: "store_inv s" and ord: "all_ordered s" using assms by (simp_all add: bounded_def)
  let ?goal = "bounded T (maybe_evict s) \<and> store_len (maybe_evict s) < max 1 (sc_max_messages (st_config s))
    \<and> st_config (maybe_evict s) = st_config s"
  have ?goal
  proof (cases "hm_len (st_messages s) < sc_max_messages (st_config s)")
    case True
    then show ?thesis using assms by (simp add: maybe_evict_def store_len_def)
  next
    case False
    let ?n = "max (sc_max_messages (st_config s) div 10) 1" and ?s = "maybe_evict s"
    let ?xs = "take ?n (st_insertion_order s)"
    note d = maybe_evict_dropped[OF inv False]
    have sub: "set ?xs \<subseteq> set (st_insertion_order s)" by (auto dest: in_set_takeD)
    have inv': "store_inv ?s" by (rule maybe_evict_inv[OF inv])
    have ord': "all_ordered ?s" by (rule dropped_ordered[OF inv ord d(1) sub])
    have "store_len ?s < max 1 (sc_max_messages (st_config s))"
    proof (cases "st_insertion_order s")
      case Nil
      then have "store_len s = 0" using ordered_len[OF inv ord] by simp
      then show ?thesis using dropped_len[OF inv inv' d(1)] by simp
    next
      case (Cons x xs)
      have "?n \<noteq> 0" by simp
      then have "x \<in> set ?xs" by (simp only: Cons take_Cons' if_False list.set insertI1)
      then have "fst x \<in> fst ` set ?xs" by (rule imageI)
      then have "length (filter (\<lambda>(t, _). t \<notin> fst ` set ?xs) (st_insertion_order s)) < length (st_insertion_order s)"
        by (intro length_filter_less[of x]) (simp_all add: Cons case_prod_beta)
      then have "length (st_insertion_order ?s) < length (st_insertion_order s)"
        using d(1) unfolding dropped_def by simp
      then show ?thesis
        using ordered_len[OF inv ord] ordered_len[OF inv' ord'] assms by (simp add: bounded_def)
    qed
    moreover have "st_config ?s = st_config s" "fst ` set (st_insertion_order ?s) \<subseteq> T"
      using d(1) assms by (auto simp: dropped_def bounded_def)
    ultimately show ?thesis using inv' ord' by (simp add: bounded_def)
  qed
  then show "bounded T (maybe_evict s)"
    and "store_len (maybe_evict s) < max 1 (sc_max_messages (st_config s))"
    and "st_config (maybe_evict s) = st_config s" by simp_all
qed

lemma insert_bounded:
  assumes "bounded T s" and "me_received_at e \<notin> T"
  shows "bounded (insert (me_received_at e) T) (snd (store_insert e s))"
proof -
  have inv: "store_inv s" using assms(1) by (simp add: bounded_def)
  note b = maybe_evict_bounded[OF assms(1)]
  show ?thesis
  proof (rule store_insert_cases[OF inv, of e])
    assume "store_insert e s = (False, maybe_evict s)"
    then show ?thesis using b(1) by (auto simp: bounded_def)
  next
    fix s'
    assume s': "store_insert e s = (True, s')" "hm_get (st_messages (maybe_evict s)) (me_hash e) = None"
      "st_messages s' = hm_insert (me_hash e) e (st_messages (maybe_evict s))"
      "st_insertion_order s' = bt_insert (me_received_at e) (me_hash e) (st_insertion_order (maybe_evict s))"
      "st_config s' = st_config (maybe_evict s)" "store_inv s'"
    have wf: "bt_wf (st_insertion_order (maybe_evict s))"
      using b(1) by (simp add: bounded_def store_inv_def order_ok_def)
    have T: "fst ` set (st_insertion_order (maybe_evict s)) \<subseteq> T" using b(1) by (simp add: bounded_def)
    have "all_ordered s'"
      using b(1) s'(2-4) T assms(2) bt_insert_set[OF wf, of "me_received_at e" "me_hash e"]
      by (force simp: bounded_def all_ordered_def)
    moreover have "store_len s' \<le> max 1 (sc_max_messages (st_config s'))"
      using b(2,3) s'(2,3,5) by (simp add: store_len_def hm_insert_new)
    moreover have "fst ` set (st_insertion_order s') \<subseteq> insert (me_received_at e) T"
      using T s'(4) bt_insert_set[OF wf, of "me_received_at e" "me_hash e"] by auto
    ultimately show ?thesis using s'(1,6) by (simp add: bounded_def)
  qed
qed

primrec op_arrivals :: "'m store_op \<Rightarrow> instant list" where
  "op_arrivals (Insert e) = [me_received_at e]"
| "op_arrivals (MarkProcessed h) = []"
| "op_arrivals (Remove h) = []"
| "op_arrivals (RemoveOlderThan now max_age) = []"
| "op_arrivals Clear = []"

lemma remove_bounded:
  assumes "bounded T s"
  shows "bounded T (snd (store_remove h s))"
proof (cases "hm_get (st_messages s) h")
  case None
  then show ?thesis using assms by (simp add: store_remove_def)
next
  case (Some e)
  let ?s = "snd (store_remove h s)"
  have inv: "store_inv s" and ord: "all_ordered s" using assms by (simp_all add: bounded_def)
  have th: "(me_received_at e, h) \<in> set (st_insertion_order s)" using ord Some by (simp add: all_ordered_def)
  have d: "dropped [(me_received_at e, h)] s ?s"
    using Some by (auto simp: store_remove_def dropped_def bt_remove_def)
  have inv': "store_inv ?s" by (rule store_remove_inv[OF inv])
  show ?thesis
    using dropped_ordered[OF inv ord d] dropped_len[OF inv inv' d] th inv' d assms
    by (auto simp: bounded_def dropped_def)
qed

lemma hm_len_update: "hm_get m k \<noteq> None \<Longrightarrow> hm_len (hm_insert k v m) = hm_len m"
  using arg_cong[OF hm_keys_insert[of k v m], of length] by simp

lemma mark_bounded:
  assumes "bounded T s"
  shows "bounded T (snd (store_mark_processed h s))"
proof (cases "hm_get (st_messages s) h")
  case None
  then show ?thesis using assms by (simp add: store_mark_processed_def)
next
  case (Some e)
  let ?s = "snd (store_mark_processed h s)"
  have "st_messages ?s = hm_insert h (entry_mark_processed e) (st_messages s)"
    "st_insertion_order ?s = st_insertion_order s" "st_config ?s = st_config s"
    using Some by (simp_all add: store_mark_processed_def)
  then show ?thesis
    using store_mark_inv[of s h] assms Some
    by (auto simp: bounded_def all_ordered_def store_len_def hm_len_update entry_mark_processed_def)
qed

lemma remove_older_bounded:
  assumes "bounded T s"
  shows "bounded T (remove_older_than now age s)"
proof -
  have inv: "store_inv s" and ord: "all_ordered s" using assms by (simp_all add: bounded_def)
  let ?xs = "bt_below (now - int age) (st_insertion_order s)" and ?s = "remove_older_than now age s"
  have d: "dropped ?xs s ?s" using remove_older_dropped[of s now age] inv by (simp add: store_inv_def)
  have sub: "set ?xs \<subseteq> set (st_insertion_order s)" by (auto simp: bt_below_def)
  have inv': "store_inv ?s" by (rule remove_older_inv[OF inv])
  show ?thesis
    using dropped_ordered[OF inv ord d sub] dropped_len[OF inv inv' d] inv' d assms
    by (auto simp: bounded_def dropped_def)
qed

lemma step_bounded:
  assumes "bounded T s" and "set (op_arrivals op) \<inter> T = {}"
  shows "bounded (set (op_arrivals op) \<union> T) (store_step op s)"
proof (cases op)
  case Clear
  then show ?thesis using store_clear_inv[of s]
    by (simp add: bounded_def all_ordered_def store_len_def) (simp add: store_clear_def)
qed (use assms in \<open>auto simp: insert_bounded mark_bounded remove_bounded remove_older_bounded\<close>)

lemma run_bounded:
  assumes "distinct (concat (map op_arrivals ops))"
  shows "bounded (set (concat (map op_arrivals ops))) (store_run config ops)"
proof -
  have "bounded (set (concat (map op_arrivals ops)) \<union> T) (fold store_step ops s)"
    if "bounded T s" "distinct (concat (map op_arrivals ops))" "set (concat (map op_arrivals ops)) \<inter> T = {}"
    for T and s :: "'a message_store"
    using that
  proof (induction ops arbitrary: T s)
    case Nil
    then show ?case by simp
  next
    case (Cons op ops)
    have "bounded (set (op_arrivals op) \<union> T) (store_step op s)"
      using Cons(2,4) by (intro step_bounded) auto
    then have "bounded (set (concat (map op_arrivals ops)) \<union> (set (op_arrivals op) \<union> T))
        (fold store_step ops (store_step op s))"
      using Cons(3,4) by (intro Cons(1)) auto
    then show ?case by (simp add: Un_ac)
  qed
  moreover have "bounded {} (store_new config)"
    using store_new_inv[of config]
    by (simp add: bounded_def) (simp add: all_ordered_def store_len_def store_new_def)
  ultimately show ?thesis using assms unfolding store_run_def by fastforce
qed


text \<open>C21: when no two messages arrive at the same instant, the store never holds more than
  \<open>max_messages\<close> entries (one, if that is zero), after any sequence of operations.\<close>

theorem store_bounded:
  assumes "distinct (concat (map op_arrivals ops))"
  shows "store_len (store_run config ops) \<le> max 1 (sc_max_messages config)"
  using run_bounded[OF assms, of config] store_run_config[of config ops] by (simp add: bounded_def)

theorem store_bounded_witness:
  "distinct (concat (map op_arrivals demo_arrivals))
    \<and> store_len (store_run demo_config demo_arrivals) \<le> max 1 (sc_max_messages demo_config)
    \<and> store_len (store_run demo_config demo_arrivals) = 3"
  using store_bounded[of demo_arrivals demo_config]
  by (simp add: store_eval store_len_def)

text \<open>Of two messages that arrive at one instant, only the later is in the order of arrival: the
  first survives \<open>remove_older_than\<close> whatever its age, in a store with room for both.\<close>

theorem same_instant_survives:
  assumes "me_received_at e1 = me_received_at e2" and "me_hash e1 \<noteq> me_hash e2"
    and "2 \<le> sc_max_messages config"
  shows "store_get (me_hash e1)
      (remove_older_than now age (store_run config [Insert e1, Insert e2])) = Some e1"
proof -
  let ?s = "store_run config [Insert e1, Insert e2]"
  have ord: "st_insertion_order ?s = [(me_received_at e2, me_hash e2)]"
    and get: "hm_get (st_messages ?s) (me_hash e1) = Some e1"
    using assms by (auto simp: store_run_def store_new_def store_insert_def maybe_evict_def Let_def hm_insert_def)
  have "dropped (bt_below (now - int age) (st_insertion_order ?s)) ?s (remove_older_than now age ?s)"
    using remove_older_dropped store_run_inv[of config "[Insert e1, Insert e2]"] by (auto simp: store_inv_def)
  then show ?thesis using ord get assms(2)
    by (auto simp: dropped_def store_get_def bt_below_def split: if_splits)
qed

theorem same_instant_survives_witness:
  "let e1 = entry_new 5 (10::nat) [1] None; e2 = entry_new 5 20 [2] None;
       s = remove_older_than 1000 1 (store_run demo_config [Insert e1, Insert e2])
   in store_get [1] s = Some e1 \<and> entry_age 1000 e1 = 995 \<and> store_get [2] s = None"
  using same_instant_survives[of "entry_new 5 (10::nat) [1] None" "entry_new 5 20 [2] None" demo_config 1000 1]
  by (simp add: store_eval entry_age_def store_get_def remove_older_than_def bt_below_def)

text \<open>C37: \<open>insert\<close> makes room before it looks for the message: in a full store, inserting again a
  message that is among the oldest is reported as new, and stores the message with its new
  arrival time and not yet processed.\<close>

theorem full_store_reinserts:
  assumes "store_inv s" and "sc_max_messages (st_config s) \<le> store_len s"
    and "st_insertion_order s = (t, me_hash e) # rest"
  shows "store_contains (me_hash e) s \<and> fst (store_insert e s)
    \<and> store_get (me_hash e) (snd (store_insert e s)) = Some e"
proof -
  let ?n = "max (sc_max_messages (st_config s) div 10) 1"
  have full: "\<not> hm_len (st_messages s) < sc_max_messages (st_config s)"
    using assms(2) by (simp add: store_len_def)
  have "?n \<noteq> 0" by simp
  then have "(t, me_hash e) \<in> set (take ?n (st_insertion_order s))"
    by (simp only: assms(3) take_Cons' if_False list.set insertI1)
  then have "me_hash e \<in> snd ` set (take ?n (st_insertion_order s))" by force
  then have none: "hm_get (st_messages (maybe_evict s)) (me_hash e) = None"
    using maybe_evict_dropped(1)[OF assms(1) full] unfolding dropped_def by simp
  have "\<exists>e'. hm_get (st_messages s) (me_hash e) = Some e' \<and> me_received_at e' = t"
    using assms(1) unfolding store_inv_def order_ok_def assms(3) by simp
  then have "store_contains (me_hash e) s" by (auto simp: store_contains_def)
  then show ?thesis using none by (simp add: store_insert_def Let_def store_get_def)
qed

theorem full_store_reinserts_witness:
  "let s = store_run \<lparr>sc_max_messages = 1, sc_index_by_sender = True\<rparr>
             [Insert (entry_new 1 (10::nat) [1] None), MarkProcessed [1]];
       e = entry_new 2 10 [1] None
   in store_contains [1] s \<and> fst (store_insert e s)
     \<and> map_option me_processed (store_get [1] s) = Some True
     \<and> map_option me_processed (store_get [1] (snd (store_insert e s))) = Some False"
proof -
  let ?c = "\<lparr>sc_max_messages = 1, sc_index_by_sender = True\<rparr>"
  let ?s = "store_run ?c [Insert (entry_new 1 (10::nat) [1] None), MarkProcessed [1]]"
  have ev: "st_messages ?s = [([1], (entry_new 1 (10::nat) [1] None)\<lparr>me_processed := True\<rparr>)]"
    "st_insertion_order ?s = [(1, [1])]" "st_config ?s = ?c"
    by (simp_all add: store_eval)
  show ?thesis
    using full_store_reinserts[of ?s 1 "entry_new 2 10 [1] None" "[]", OF store_run_inv] ev
    by (simp add: Let_def store_len_def store_get_def entry_new_def)
qed

end
