(* ===== verification/Lock_Order.thy ===== *)
theory Lock_Order
  imports Gadget_Prelude
begin

text \<open>
  Threads that take readers-writer locks. A method is the sequence of its lock operations; a
  step of the system is one operation of one thread, and an acquisition waits while the lock
  is held in a conflicting mode. The locale \<open>lock_order\<close> is the discipline of ranked locks: its
  threads never get stuck and every run of them ends.
\<close>

datatype lock_mode = Shared | Exclusive

datatype 'l lock_op = Acquire lock_mode 'l | Release 'l

type_synonym 'l lock_prog = "'l lock_op list"

record 'l lock_thread =
  th_held :: "('l \<times> lock_mode) list"
  th_rest :: "'l lock_prog"

definition available :: "lock_mode \<Rightarrow> 'l \<Rightarrow> 'l lock_thread list \<Rightarrow> bool" where
  "available m l ts \<longleftrightarrow>
     list_all (\<lambda>t. list_all (\<lambda>(l', m'). l' = l \<longrightarrow> m = Shared \<and> m' = Shared) (th_held t)) ts"

inductive lock_step :: "'l lock_thread list \<Rightarrow> 'l lock_thread list \<Rightarrow> bool" where
  acquire: "i < length ts \<Longrightarrow> th_rest (ts ! i) = Acquire m l # p \<Longrightarrow> available m l ts \<Longrightarrow>
    lock_step ts (ts[i := \<lparr>th_held = (l, m) # th_held (ts ! i), th_rest = p\<rparr>])"
| release: "i < length ts \<Longrightarrow> th_rest (ts ! i) = Release l # p \<Longrightarrow>
    lock_step ts (ts[i := \<lparr>th_held = filter (\<lambda>(l', _). l' \<noteq> l) (th_held (ts ! i)), th_rest = p\<rparr>])"

inductive_cases lock_stepE: "lock_step ts ts'"

definition start_threads :: "'l lock_prog list \<Rightarrow> 'l lock_thread list" where
  "start_threads ps = map (\<lambda>p. \<lparr>th_held = [], th_rest = p\<rparr>) ps"

definition threads_done :: "'l lock_thread list \<Rightarrow> bool" where
  "threads_done ts \<longleftrightarrow> list_all (\<lambda>t. th_rest t = [] \<and> th_held t = []) ts"

definition threads_left :: "'l lock_thread list \<Rightarrow> nat" where
  "threads_left ts = (\<Sum>t\<leftarrow>ts. length (th_rest t))"

text \<open>A program takes locks in increasing rank only, releases what it holds and ends with none.\<close>

fun ranked :: "('l \<Rightarrow> nat) \<Rightarrow> 'l list \<Rightarrow> 'l lock_prog \<Rightarrow> bool" where
  "ranked rank held [] \<longleftrightarrow> held = []"
| "ranked rank held (Acquire m l # p) \<longleftrightarrow>
     list_all (\<lambda>l'. rank l' < rank l) held \<and> ranked rank (l # held) p"
| "ranked rank held (Release l # p) \<longleftrightarrow> ranked rank (filter (\<lambda>l'. l' \<noteq> l) held) p"

lemma sum_list_update_less:
  "i < length xs \<Longrightarrow> y < xs ! i \<Longrightarrow> sum_list (xs[i := y]) < sum_list (xs :: nat list)"
  using elem_le_sum_list[of i xs] by (simp add: sum_list_update)

lemma lock_step_left: "lock_step ts ts' \<Longrightarrow> threads_left ts' < threads_left ts"
  by (erule lock_step.cases) (auto simp: threads_left_def map_update intro!: sum_list_update_less)

locale lock_order =
  fixes rank :: "'l \<Rightarrow> nat" and progs :: "'l lock_prog set"
  assumes progs_ranked: "p \<in> progs \<Longrightarrow> ranked rank [] p"
begin

lemma start_ranked:
  "set ps \<subseteq> progs \<Longrightarrow> t \<in> set (start_threads ps) \<Longrightarrow> ranked rank (map fst (th_held t)) (th_rest t)"
  by (auto simp: start_threads_def progs_ranked)

lemma step_ranked:
  assumes "lock_step ts ts'" and "\<forall>t\<in>set ts. ranked rank (map fst (th_held t)) (th_rest t)"
  shows "\<forall>t\<in>set ts'. ranked rank (map fst (th_held t)) (th_rest t)"
  using assms(1)
proof cases
  case (acquire i m l p)
  then have "ranked rank (map fst (th_held (ts ! i))) (Acquire m l # p)"
    using assms(2) nth_mem by fastforce
  then show ?thesis using assms(2) acquire(1) by (auto dest!: set_update_subset_insert[THEN subsetD])
next
  case (release i l p)
  have comm: "map fst (filter (\<lambda>(l', _). l' \<noteq> l) xs) = filter (\<lambda>l'. l' \<noteq> l) (map fst xs)"
    for xs :: "('l \<times> lock_mode) list"
    by (induction xs) auto
  have "ranked rank (map fst (th_held (ts ! i))) (Release l # p)"
    using release assms(2) nth_mem by fastforce
  then show ?thesis using assms(2) release(1)
    by (auto simp: comm dest!: set_update_subset_insert[THEN subsetD])
qed

lemma reachable_ranked:
  assumes "set ps \<subseteq> progs" and "lock_step\<^sup>*\<^sup>* (start_threads ps) ts"
  shows "\<forall>t\<in>set ts. ranked rank (map fst (th_held t)) (th_rest t)"
  using assms(2) by induction (use assms(1) start_ranked step_ranked in blast)+

text \<open>The thread waiting for the lock of highest rank is not waiting for another one.\<close>

lemma waiting_for_higher:
  assumes "\<forall>t\<in>set ts. ranked rank (map fst (th_held t)) (th_rest t)"
    and "\<nexists>ts'. lock_step ts ts'" and "t \<in> set ts" and "th_rest t = Acquire m l # p"
  shows "\<exists>t'\<in>set ts. \<exists>m' l' p'. th_rest t' = Acquire m' l' # p' \<and> rank l < rank l'"
proof -
  obtain i where i: "i < length ts" "ts ! i = t" using assms(3) by (auto simp: in_set_conv_nth)
  have "\<not> available m l ts" using lock_step.acquire[of i ts m l p] i assms(2,4) by blast
  then obtain t' m' where t': "t' \<in> set ts" "(l, m') \<in> set (th_held t')"
    by (auto simp: available_def list_all_iff)
  have r: "ranked rank (map fst (th_held t')) (th_rest t')" using assms(1) t'(1) by blast
  show ?thesis
  proof (cases "th_rest t'")
    case Nil
    then show ?thesis using r t'(2) by simp
  next
    case (Cons op p')
    show ?thesis
    proof (cases op)
      case (Acquire m'' l'')
      then have "rank l < rank l''" using r Cons t'(2) by (force simp: list_all_iff)
      then show ?thesis using t'(1) Cons Acquire by blast
    next
      case (Release l'')
      obtain j where "j < length ts" "ts ! j = t'" using t'(1) by (auto simp: in_set_conv_nth)
      then show ?thesis using lock_step.release[of j ts l'' p'] Cons Release assms(2) by blast
    qed
  qed
qed

lemma not_stuck:
  assumes "\<forall>t\<in>set ts. ranked rank (map fst (th_held t)) (th_rest t)" and "\<nexists>ts'. lock_step ts ts'"
  shows "threads_done ts"
proof -
  have climb: False if "t \<in> set ts" "th_rest t = Acquire m l # p" for t m l p
  proof -
    let ?W = "{rank l | l. \<exists>t\<in>set ts. \<exists>m p. th_rest t = Acquire m l # p}"
    have "?W \<subseteq> (\<lambda>t. case th_rest t of Acquire m l # p \<Rightarrow> rank l | _ \<Rightarrow> 0) ` set ts" by force
    then have fin: "finite ?W" by (rule finite_subset) simp
    have ne: "?W \<noteq> {}" using that by blast
    obtain t' m' l' p' where w: "t' \<in> set ts" "th_rest t' = Acquire m' l' # p'" "rank l' = Max ?W"
      using Max_in[OF fin ne] by auto
    obtain t'' m'' l'' p'' where "t'' \<in> set ts" "th_rest t'' = Acquire m'' l'' # p''" "rank l' < rank l''"
      using waiting_for_higher[OF assms w(1,2)] by blast
    then have "rank l'' \<in> ?W" by blast
    then show False using Max_ge[OF fin] w(3) \<open>rank l' < rank l''\<close> by fastforce
  qed
  have "th_rest t = [] \<and> th_held t = []" if mem: "t \<in> set ts" for t
  proof (cases "th_rest t")
    case Nil
    then show ?thesis using assms(1) mem by fastforce
  next
    case (Cons op p)
    obtain i where i: "i < length ts" "ts ! i = t" using mem by (auto simp: in_set_conv_nth)
    show ?thesis
    proof (cases op)
      case (Acquire m l)
      then show ?thesis using climb[OF mem] Cons by blast
    next
      case (Release l)
      then show ?thesis using lock_step.release[of i ts l p] i Cons assms(2) by blast
    qed
  qed
  then show ?thesis by (simp add: threads_done_def list_all_iff)
qed

lemma completes:
  assumes "\<forall>t\<in>set ts. ranked rank (map fst (th_held t)) (th_rest t)"
  shows "\<exists>ts'. lock_step\<^sup>*\<^sup>* ts ts' \<and> threads_done ts'"
  using assms
proof (induction "threads_left ts" arbitrary: ts rule: less_induct)
  case less
  show ?case
  proof (cases "\<exists>ts'. lock_step ts ts'")
    case True
    then obtain ts' where ts': "lock_step ts ts'" by blast
    then obtain ts'' where "lock_step\<^sup>*\<^sup>* ts' ts''" "threads_done ts''"
      using less(1)[OF lock_step_left[OF ts'] step_ranked[OF ts' less(2)]] by blast
    then show ?thesis using ts' by (meson converse_rtranclp_into_rtranclp)
  next
    case False
    then show ?thesis using not_stuck[OF less(2)] by blast
  qed
qed

end

end
