(* ===== verification/Gossip_Locks.thy ===== *)
theory Gossip_Locks
  imports Gossip_Store Lock_Order
begin

text \<open>
  The locking of the message store of \<open>gossip-primitives/src/store.rs\<close>. The maps of the store have
  one readers-writer lock each; the methods are listed here by the locks they take and
  release, one program per path through the method (guards are released at the end of their
  scope, temporaries at the end of their statement). All methods but \<open>get_by_sender\<close> respect one
  order of the locks.
\<close>

datatype store_lock = Messages | BySender | InsertionOrder

primrec store_rank :: "store_lock \<Rightarrow> nat" where
  "store_rank InsertionOrder = 0"
| "store_rank Messages = 1"
| "store_rank BySender = 2"

definition guarded :: "lock_mode \<Rightarrow> 'l \<Rightarrow> 'l lock_prog" where
  "guarded m l = [Acquire m l, Release l]"

definition maybe_evict_locks :: "store_lock lock_prog list" where
  "maybe_evict_locks =
     [guarded Shared Messages,
      guarded Shared Messages @
        [Acquire Exclusive InsertionOrder, Acquire Exclusive Messages, Acquire Exclusive BySender,
         Release BySender, Release Messages, Release InsertionOrder]]"

text \<open>\<open>insert\<close>: the message is present; it is new and has a sender to index; it is new without one.\<close>

definition insert_locks :: "store_lock lock_prog list" where
  "insert_locks =
     concat (map (\<lambda>evict.
       [evict @ guarded Exclusive Messages,
        evict @ guarded Exclusive Messages @ guarded Exclusive BySender @ guarded Exclusive InsertionOrder,
        evict @ guarded Exclusive Messages @ guarded Exclusive InsertionOrder]) maybe_evict_locks)"

text \<open>\<open>get\<close>, \<open>contains\<close>, \<open>get_unprocessed\<close>, \<open>len\<close> and \<open>is_empty\<close>.\<close>

definition read_locks :: "store_lock lock_prog list" where
  "read_locks = [guarded Shared Messages]"

text \<open>\<open>get_mut\<close> and \<open>mark_processed\<close>.\<close>

definition update_locks :: "store_lock lock_prog list" where
  "update_locks = [guarded Exclusive Messages]"

definition get_by_sender_locks :: "store_lock lock_prog list" where
  "get_by_sender_locks =
     [[Acquire Shared BySender, Acquire Shared Messages, Release Messages, Release BySender]]"

definition remove_locks :: "store_lock lock_prog list" where
  "remove_locks =
     [guarded Exclusive Messages,
      guarded Exclusive Messages @ guarded Exclusive BySender @ guarded Exclusive InsertionOrder,
      guarded Exclusive Messages @ guarded Exclusive InsertionOrder]"

definition clear_locks :: "store_lock lock_prog list" where
  "clear_locks =
     [guarded Exclusive Messages @ guarded Exclusive BySender @ guarded Exclusive InsertionOrder]"

definition remove_older_than_locks :: "store_lock lock_prog list" where
  "remove_older_than_locks =
     [[Acquire Exclusive InsertionOrder, Acquire Exclusive Messages, Acquire Exclusive BySender,
       Release BySender, Release Messages, Release InsertionOrder]]"

definition stats_locks :: "store_lock lock_prog list" where
  "stats_locks =
     [[Acquire Shared Messages, Acquire Shared BySender, Release BySender, Release Messages]]"

text \<open>Every method but \<open>get_by_sender\<close>.\<close>

definition ordered_locks :: "store_lock lock_prog list" where
  "ordered_locks = insert_locks @ read_locks @ update_locks @ remove_locks @ clear_locks
     @ remove_older_than_locks @ stats_locks"

lemmas store_locks_defs = ordered_locks_def insert_locks_def maybe_evict_locks_def read_locks_def
  update_locks_def remove_locks_def clear_locks_def remove_older_than_locks_def stats_locks_def
  guarded_def

interpretation store_locks: lock_order store_rank "set ordered_locks"
  by unfold_locales (auto simp: store_locks_defs)

text \<open>C34: threads that call any methods of the store except \<open>get_by_sender\<close>, in any number and any
  interleaving, never deadlock: as long as some call has not returned some thread can take
  its next step, every step brings the calls closer to their end, and all of them return.\<close>

theorem store_calls_return:
  assumes "set ps \<subseteq> set ordered_locks" and "lock_step\<^sup>*\<^sup>* (start_threads ps) ts"
  shows "(threads_done ts \<or> (\<exists>ts'. lock_step ts ts'))
    \<and> (\<forall>ts'. lock_step ts ts' \<longrightarrow> threads_left ts' < threads_left ts)
    \<and> (\<exists>ts'. lock_step\<^sup>*\<^sup>* ts ts' \<and> threads_done ts')"
  using store_locks.not_stuck[OF store_locks.reachable_ranked[OF assms]]
    store_locks.completes[OF store_locks.reachable_ranked[OF assms]] lock_step_left
  by blast

text \<open>Two of the calls, an expiry having taken the first of its locks.\<close>

definition evict_prog :: "store_lock lock_prog" where
  "evict_prog = hd remove_older_than_locks"

definition demo_blocked :: "store_lock lock_thread list" where
  "demo_blocked =
     [\<lparr>th_held = [(InsertionOrder, Exclusive)], th_rest = tl evict_prog\<rparr>,
      \<lparr>th_held = [], th_rest = hd stats_locks\<rparr>]"

lemma demo_blocked_reachable: "lock_step\<^sup>*\<^sup>* (start_threads [evict_prog, hd stats_locks]) demo_blocked"
proof -
  have "lock_step (start_threads [evict_prog, hd stats_locks]) demo_blocked"
    using lock_step.acquire[of 0 "start_threads [evict_prog, hd stats_locks]" Exclusive InsertionOrder "tl evict_prog"]
    by (simp add: start_threads_def evict_prog_def remove_older_than_locks_def available_def demo_blocked_def)
  then show ?thesis by blast
qed

theorem store_calls_return_witness:
  "lock_step\<^sup>*\<^sup>* (start_threads [evict_prog, hd stats_locks]) demo_blocked
    \<and> (\<exists>ts'. lock_step\<^sup>*\<^sup>* demo_blocked ts' \<and> threads_done ts')"
  using store_calls_return[OF _ demo_blocked_reachable] demo_blocked_reachable
  by (simp add: evict_prog_def store_locks_defs)

text \<open>A call of \<open>get_by_sender\<close> and a call of \<open>insert\<close> that evicts can deadlock: the first holds the
  sender index and waits for the messages, the second holds the messages and waits for the
  sender index, and neither ever continues.\<close>

theorem get_by_sender_deadlock:
  "\<exists>p\<in>set insert_locks. \<exists>q\<in>set get_by_sender_locks. \<exists>ts.
     lock_step\<^sup>*\<^sup>* (start_threads [p, q]) ts \<and> (\<nexists>ts'. lock_step ts ts')
     \<and> list_all (\<lambda>t. th_rest t \<noteq> []) ts"
proof -
  let ?e = "[Acquire Exclusive InsertionOrder, Acquire Exclusive Messages, Acquire Exclusive BySender,
         Release BySender, Release Messages, Release InsertionOrder] @ guarded Exclusive Messages"
  let ?p = "guarded Shared Messages @ ?e"
  let ?q = "[Acquire Shared BySender, Acquire Shared Messages, Release Messages, Release BySender]"
  let ?t1 = "\<lambda>h p. \<lparr>th_held = h, th_rest = p\<rparr> :: store_lock lock_thread"
  let ?s0 = "[?t1 [] ?p, ?t1 [] ?q]"
  let ?s1 = "[?t1 [(Messages, Shared)] (tl ?p), ?t1 [] ?q]"
  let ?s2 = "[?t1 [] ?e, ?t1 [] ?q]"
  let ?s3 = "[?t1 [(InsertionOrder, Exclusive)] (tl ?e), ?t1 [] ?q]"
  let ?s4 = "[?t1 [(Messages, Exclusive), (InsertionOrder, Exclusive)] (tl (tl ?e)), ?t1 [] ?q]"
  let ?s5 = "[?t1 [(Messages, Exclusive), (InsertionOrder, Exclusive)] (tl (tl ?e)),
              ?t1 [(BySender, Shared)] (tl ?q)]"
  have "lock_step ?s0 ?s1"
    using lock_step.acquire[of 0 ?s0 Shared Messages "tl ?p"] by (simp add: guarded_def available_def)
  moreover have "lock_step ?s1 ?s2"
    using lock_step.release[of 0 ?s1 Messages ?e] by (simp add: guarded_def)
  moreover have "lock_step ?s2 ?s3"
    using lock_step.acquire[of 0 ?s2 Exclusive InsertionOrder "tl ?e"] by (simp add: available_def)
  moreover have "lock_step ?s3 ?s4"
    using lock_step.acquire[of 0 ?s3 Exclusive Messages "tl (tl ?e)"] by (simp add: available_def)
  moreover have "lock_step ?s4 ?s5"
    using lock_step.acquire[of 1 ?s4 Shared BySender "tl ?q"] by (simp add: available_def)
  ultimately have "lock_step\<^sup>*\<^sup>* ?s0 ?s5" by (meson converse_rtranclp_into_rtranclp rtranclp.rtrancl_refl)
  moreover have "\<nexists>ts'. lock_step ?s5 ts'"
    by (auto elim!: lock_stepE simp: less_Suc_eq available_def nth_Cons split: nat.splits)
  moreover have "?p \<in> set insert_locks" "?q \<in> set get_by_sender_locks"
    by (simp_all add: insert_locks_def maybe_evict_locks_def get_by_sender_locks_def)
  moreover have "start_threads [?p, ?q] = ?s0" by (simp add: start_threads_def)
  moreover have "list_all (\<lambda>t. th_rest t \<noteq> []) ?s5" by simp
  ultimately show ?thesis by metis
qed

end
