(* ===== verification/Sig_Weight.thy ===== *)
theory Sig_Weight
  imports Gossip_Store
begin

text \<open>
  Weights and aggregator selection of the gossip aggregation protocol,
  \<open>agg-sig-gossip/src/signature_weight.rs\<close> and the selector of \<open>aggregator_selection.rs\<close>. The trait
  \<open>SignatureWeight\<close> is the record of its required methods; a \<open>HashSet\<close> of peers is the list of its
  elements in iteration order. The hash of the selector is a parameter, its floating-point
  ratio is written out in integers.
\<close>

section \<open>Sets of peers\<close>

definition hs_insert :: "'a \<Rightarrow> 'a list \<Rightarrow> 'a list" where
  "hs_insert x xs = (if x \<in> set xs then xs else xs @ [x])"

lemma hs_insert_set [simp]: "set (hs_insert x xs) = insert x (set xs)"
  by (auto simp: hs_insert_def)

lemma hs_insert_distinct [simp]: "distinct xs \<Longrightarrow> distinct (hs_insert x xs)"
  by (simp add: hs_insert_def)

section \<open>Weight schemes\<close>

record weight_scheme =
  ws_weight :: "peer_id \<Rightarrow> u64"
  ws_total_weight :: u64
  ws_threshold_weight :: u64

definition calculate_weight :: "weight_scheme \<Rightarrow> peer_id list \<Rightarrow> u64" where
  "calculate_weight ws participants = fold (\<lambda>p acc. sat_add acc (ws_weight ws p)) participants 0"

definition meets_threshold :: "weight_scheme \<Rightarrow> peer_id list \<Rightarrow> bool" where
  "meets_threshold ws participants \<longleftrightarrow> ws_threshold_weight ws \<le> calculate_weight ws participants"

record equal_weight =
  eq_total_participants :: u64
  eq_threshold_percentage :: u8

text \<open>\<open>EqualWeight::new\<close>, whose assertion is the left value.\<close>

definition equal_new :: "u64 \<Rightarrow> u8 \<Rightarrow> string + equal_weight" where
  "equal_new total_participants threshold_percentage =
     (if threshold_percentage \<le> 100
      then Inr \<lparr>eq_total_participants = total_participants, eq_threshold_percentage = threshold_percentage\<rparr>
      else Inl ''Threshold percentage must be <= 100'')"

definition equal_scheme :: "equal_weight \<Rightarrow> weight_scheme" where
  "equal_scheme w =
     \<lparr>ws_weight = (\<lambda>_. 1),
      ws_total_weight = eq_total_participants w,
      ws_threshold_weight = sat_mul (eq_total_participants w) (ucast (eq_threshold_percentage w)) div 100\<rparr>"

record custom_weight =
  cu_weights :: "(peer_id, u64) hmap"
  cu_threshold_weight :: u64

definition custom_scheme :: "custom_weight \<Rightarrow> weight_scheme" where
  "custom_scheme w =
     \<lparr>ws_weight = (\<lambda>p. case hm_get (cu_weights w) p of None \<Rightarrow> 0 | Some x \<Rightarrow> x),
      ws_total_weight = fold (\<lambda>x acc. sat_add acc x) (hm_values (cu_weights w)) 0,
      ws_threshold_weight = cu_threshold_weight w\<rparr>"

datatype dynamic_weight = EqualW equal_weight | CustomW custom_weight

primrec dynamic_scheme :: "dynamic_weight \<Rightarrow> weight_scheme" where
  "dynamic_scheme (EqualW w) = equal_scheme w"
| "dynamic_scheme (CustomW w) = custom_scheme w"

section \<open>Weights are sums\<close>

lemma fold_sat_add:
  "unat (fold (\<lambda>x acc. sat_add acc (f x)) xs a) = min (2 ^ 64 - 1) (unat a + (\<Sum>x\<leftarrow>xs. unat (f x)))"
proof (induction xs arbitrary: a)
  case Nil
  then show ?case using unat_less_64[of a] by simp
next
  case (Cons x xs)
  then show ?case by (simp add: unat_sat_add)
qed

lemma unat_calculate_weight:
  "unat (calculate_weight ws ps) = min (2 ^ 64 - 1) (\<Sum>p\<leftarrow>ps. unat (ws_weight ws p))"
  unfolding calculate_weight_def by (simp add: fold_sat_add)

text \<open>The iteration order of the set does not matter.\<close>

lemma calculate_weight_set:
  "distinct ps \<Longrightarrow> unat (calculate_weight ws ps) = min (2 ^ 64 - 1) (\<Sum>p\<in>set ps. unat (ws_weight ws p))"
  by (simp add: unat_calculate_weight sum_list_distinct_conv_sum_set)

lemma calculate_weight_mono:
  assumes "distinct ps" and "distinct qs" and "set ps \<subseteq> set qs"
  shows "calculate_weight ws ps \<le> calculate_weight ws qs"
proof -
  have "(\<Sum>p\<in>set ps. unat (ws_weight ws p)) \<le> (\<Sum>p\<in>set qs. unat (ws_weight ws p))"
    by (rule sum_mono2[OF _ assms(3)]) simp_all
  then show ?thesis
    using assms(1,2) by (simp add: word_le_nat_alt calculate_weight_set)
qed

text \<open>With equal weights, \<open>k\<close> distinct participants meet the threshold exactly when
  \<open>percentage * participants < 100 * (k + 1)\<close>: the share is rounded down, so a set just short of the
  percentage passes, and the empty set does when the product is below 100.\<close>

theorem equal_threshold_exact:
  assumes "equal_new n pct = Inr w" and "unat n < 2 ^ 57" and "distinct ps"
  shows "meets_threshold (equal_scheme w) ps \<longleftrightarrow> unat pct * unat n < 100 * (length ps + 1)"
proof -
  have pct: "unat pct \<le> 100" and w: "w = \<lparr>eq_total_participants = n, eq_threshold_percentage = pct\<rparr>"
    using assms(1) by (auto simp: equal_new_def word_le_nat_alt split: if_splits)
  have cast: "unat (ucast pct :: u64) = unat pct" by (simp add: unsigned_ucast_eq take_bit_nat_eq_self order_less_le_trans[OF unsigned_less])
  have le: "unat n * unat pct \<le> unat n * 100" by (rule mult_le_mono2[OF pct])
  have "unat n * 100 < 2 ^ 64" using assms(2) by simp
  then have lt: "unat n * unat pct < 2 ^ 64" by (rule order_le_less_trans[OF le])
  have thr: "unat (ws_threshold_weight (equal_scheme w)) = unat n * unat pct div 100"
    using lt by (simp add: w equal_scheme_def unat_div unat_sat_mul cast)
  have "unat (calculate_weight (equal_scheme w) ps) = min (2 ^ 64 - 1) (length ps)"
    by (simp add: unat_calculate_weight equal_scheme_def sum_list_triv)
  moreover have "unat n * unat pct div 100 < 2 ^ 57"
    using div_le_mono[OF le, of 100] assms(2) by simp
  ultimately have "meets_threshold (equal_scheme w) ps \<longleftrightarrow> unat n * unat pct div 100 \<le> length ps"
    unfolding meets_threshold_def word_le_nat_alt thr by auto
  also have "\<dots> \<longleftrightarrow> unat n * unat pct < 100 * (length ps + 1)"
    by (simp add: less_Suc_eq_le[symmetric] div_less_iff_less_mult) (simp add: algebra_simps)
  finally show ?thesis by (simp add: mult.commute)
qed

theorem equal_threshold_exact_witness:
  "let w = \<lparr>eq_total_participants = 3, eq_threshold_percentage = 67\<rparr> in
   equal_new 3 67 = Inr w
    \<and> meets_threshold (equal_scheme w) [[1], [2]] \<and> \<not> meets_threshold (equal_scheme w) [[1]]"
proof -
  let ?w = "\<lparr>eq_total_participants = 3, eq_threshold_percentage = 67\<rparr>"
  have new: "equal_new 3 67 = Inr ?w" by (simp add: equal_new_def word_le_nat_alt)
  show ?thesis
    using equal_threshold_exact[OF new, of "[[1], [2]]"] equal_threshold_exact[OF new, of "[[1]]"] new
    by simp
qed

section \<open>Aggregator selection\<close>

record aggregator_selector =
  sel_target_aggregators :: u16

definition selector_new :: "u16 \<Rightarrow> aggregator_selector" where
  "selector_new target_aggregators = \<lparr>sel_target_aggregators = max target_aggregators 1\<rparr>"

text \<open>\<open>(f64::from(a) / f64::from(b) * u64::MAX as f64) as u64\<close> for \<open>0 < a < b\<close>: the quotient rounded
  to 53 bits, to even on a tie, then scaled by \<open>u64::MAX as f64 = 2 ^ 64\<close>, which is exact, and
  truncated.\<close>

definition f64_exponent :: "nat \<Rightarrow> nat \<Rightarrow> nat" where
  "f64_exponent a b = hd (filter (\<lambda>k. 2 ^ 52 \<le> a * 2 ^ k div b) [53..<70])"

definition round_half_even :: "nat \<Rightarrow> nat \<Rightarrow> nat" where
  "round_half_even a b =
     (let q = a div b; r = a mod b
      in if 2 * r < b then q else if b < 2 * r then q + 1 else if even q then q else q + 1)"

definition ratio_threshold :: "u16 \<Rightarrow> u16 \<Rightarrow> u64" where
  "ratio_threshold a b =
     (let k = f64_exponent (unat a) (unat b);
          m = round_half_even (unat a * 2 ^ k) (unat b)
      in of_nat (m * 2 ^ 64 div 2 ^ k))"

text \<open>\<open>hasher\<close> is the 64-bit hash of the key bytes followed by the context; \<open>key_bytes\<close> encodes a key.\<close>

definition is_aggregator ::
  "(bytes \<Rightarrow> bytes \<Rightarrow> u64) \<Rightarrow> ('pk \<Rightarrow> bytes) \<Rightarrow> aggregator_selector \<Rightarrow> peer_id \<Rightarrow>
    (peer_id, 'pk) hmap \<Rightarrow> bytes \<Rightarrow> bool" where
  "is_aggregator hasher key_bytes sel p participants_with_keys message_context =
     (if participants_with_keys = [] then False
      else case hm_get participants_with_keys p of
             None \<Rightarrow> False
           | Some public_key \<Rightarrow>
               let total_participants =
                     (if hm_len participants_with_keys < 2 ^ 16
                      then of_nat (hm_len participants_with_keys) else - 1 :: u16);
                   selection_threshold =
                     (if total_participants \<le> sel_target_aggregators sel then u64_max
                      else ratio_threshold (sel_target_aggregators sel) total_participants)
               in hasher (key_bytes public_key) message_context < selection_threshold)"

definition select_aggregators ::
  "(bytes \<Rightarrow> bytes \<Rightarrow> u64) \<Rightarrow> ('pk \<Rightarrow> bytes) \<Rightarrow> aggregator_selector \<Rightarrow>
    (peer_id, 'pk) hmap \<Rightarrow> bytes \<Rightarrow> peer_id list" where
  "select_aggregators hasher key_bytes sel participants_with_keys message_context =
     filter (\<lambda>p. is_aggregator hasher key_bytes sel p participants_with_keys message_context)
       (hm_keys participants_with_keys)"

lemma all_select_when_few:
  assumes "hm_get ks p = Some k" and "hm_len ks \<le> unat (sel_target_aggregators sel)"
    and "hasher (key_bytes k) ctx \<noteq> u64_max"
  shows "is_aggregator hasher key_bytes sel p ks ctx"
proof -
  have lt: "hm_len ks < 2 ^ 16" using assms(2) unsigned_less[where ?'a = nat, of "sel_target_aggregators sel"] by simp
  then have "unat (of_nat (hm_len ks) :: u16) = hm_len ks" by (simp add: unat_of_nat)
  then have "(of_nat (hm_len ks) :: u16) \<le> sel_target_aggregators sel"
    using assms(2) by (simp add: word_le_nat_alt)
  moreover have "hasher (key_bytes k) ctx < u64_max"
    using assms(3) by (simp add: u64_max_def order_less_le)
  ultimately show ?thesis using assms(1) lt by (auto simp: is_aggregator_def)
qed

end
