(* ===== verification/Agg_Sig_Protocol.thy ===== *)
theory Agg_Sig_Protocol
  imports Sig_Weight
begin

text \<open>
  The gossip aggregation protocol, \<open>crates/networking/extensions/agg-sig-gossip/src\<close>: messages, round
  state, reports of misbehaviour, threshold check, aggregation and the run loop, over the
  sending half of the network handle (\<open>networking/src/service_handle.rs\<close>). The signature scheme,
  the wire encoding, the message hash, the selector's hash and the cache of the \<open>lru\<close> crate are
  the parameters of \<open>env\<close>. A handler returns its result and the protocol's new state, since
  it may fail after it has changed the state.
\<close>

section \<open>Network handle\<close>

record message_routing =
  mr_message_id :: u64
  mr_round_id :: u16
  mr_sender :: peer_id
  mr_recipient :: "peer_id option"

record protocol_message =
  pm_protocol :: string
  pm_routing :: message_routing
  pm_payload :: bytes

text \<open>The commands \<open>send\<close> puts into the channel of the network service.\<close>

datatype network_command =
    InstanceRequest peer_id string bytes
  | GossipMessage peer_id string bytes

text \<open>The channel to the network service holds the commands sent; a send fails once the
  receiving side is gone.\<close>

record 'sk network_handle =
  nh_local_peer_id :: peer_id
  nh_protocol_name :: string
  nh_signing_key :: 'sk
  nh_sent :: "network_command list"
  nh_connected :: bool

definition send_network_message ::
  "'sk network_handle \<Rightarrow> network_command \<Rightarrow> (string + unit) \<times> 'sk network_handle" where
  "send_network_message nh command =
     (if nh_connected nh then (Inr (), nh\<lparr>nh_sent := nh_sent nh @ [command]\<rparr>)
      else (Inl ''sending on a disconnected channel'', nh))"

definition handle_send ::
  "(protocol_message \<Rightarrow> string + bytes) \<Rightarrow> 'sk network_handle \<Rightarrow> message_routing \<Rightarrow> bytes \<Rightarrow>
    (string + unit) \<times> 'sk network_handle" where
  "handle_send encode_protocol_message nh routing message =
     (case encode_protocol_message
             \<lparr>pm_protocol = nh_protocol_name nh, pm_routing = routing, pm_payload = message\<rparr> of
        Inl e \<Rightarrow> (Inl e, nh)
      | Inr raw_payload \<Rightarrow>
          (case mr_recipient routing of
             Some recipient \<Rightarrow>
               send_network_message nh (InstanceRequest recipient (nh_protocol_name nh) raw_payload)
           | None \<Rightarrow>
               send_network_message nh
                 (GossipMessage (nh_local_peer_id nh) (nh_protocol_name nh) raw_payload)))"

section \<open>Messages and state\<close>

datatype 'sig evidence =
    InvalidSignature 'sig bytes
  | Equivocation 'sig 'sig bytes bytes

record 'asig aggregation_result =
  ar_message :: bytes
  ar_signature :: 'asig
  ar_contributors :: "peer_id list"
  ar_total_weight :: "u64 option"
  ar_malicious :: "peer_id list"

datatype ('sig, 'asig) agg_sig_message =
    SignatureShare peer_id 'sig bytes
  | MaliciousReport peer_id "'sig evidence"
  | ProtocolComplete "'asig aggregation_result"

datatype protocol_round = Initialization | SignatureCollection | Completion

record ('sig, 'asig) aggregation_state =
  as_signatures_by_message :: "(bytes, peer_id list) hmap"
  as_seen_signatures :: "(peer_id, 'sig \<times> bytes) hmap"
  as_local_message :: bytes
  as_malicious :: "peer_id list"
  as_round :: protocol_round
  as_verified_completion :: "'asig aggregation_result option"

definition state_new :: "('sig, 'asig) aggregation_state" where
  "state_new =
     \<lparr>as_signatures_by_message = [], as_seen_signatures = [], as_local_message = [],
      as_malicious = [], as_round = Initialization, as_verified_completion = None\<rparr>"

text \<open>\<open>None\<close> is the panic of the assertion.\<close>

definition try_transition_to ::
  "protocol_round \<Rightarrow> ('sig, 'asig) aggregation_state \<Rightarrow> (bool \<times> ('sig, 'asig) aggregation_state) option" where
  "try_transition_to new_round st =
     (if as_round st = new_round then Some (False, st)
      else if (case (as_round st, new_round) of
                 (Initialization, SignatureCollection) \<Rightarrow> True
               | (Initialization, Completion) \<Rightarrow> True
               | (SignatureCollection, Completion) \<Rightarrow> True
               | _ \<Rightarrow> False)
           then Some (True, st\<lparr>as_round := new_round\<rparr>)
           else None)"

definition is_completed :: "('sig, 'asig) aggregation_state \<Rightarrow> bool" where
  "is_completed st \<longleftrightarrow> as_round st = Completion"

text \<open>\<open>Panicked\<close> stands for a panic; the others are the variants of \<open>AggregationError\<close>.\<close>

datatype aggregation_error =
    ThresholdNotMet u64 u64
  | SerializationError string
  | KeyNotFound
  | NetworkError string
  | ProtocolError string
  | Timeout
  | SigningError string
  | MissingData
  | Panicked

section \<open>Protocol\<close>

record ('sk, 'pk, 'sig, 'asig, 'apk, 'c) env =
  en_verify :: "'pk \<Rightarrow> bytes \<Rightarrow> 'sig \<Rightarrow> bool"
  en_sign :: "'sk \<Rightarrow> bytes \<Rightarrow> (string + 'sig) \<times> 'sk"
  en_aggregate :: "'sig list \<Rightarrow> 'pk list \<Rightarrow> string + 'asig \<times> 'apk"
  en_verify_aggregate :: "bytes \<Rightarrow> 'asig \<Rightarrow> 'apk \<Rightarrow> string + bool"
  en_key_bytes :: "'pk \<Rightarrow> bytes"
  en_serialize :: "('sig, 'asig) agg_sig_message \<Rightarrow> string + bytes"
  en_deserialize :: "bytes \<Rightarrow> string + ('sig, 'asig) agg_sig_message"
  en_encode :: "protocol_message \<Rightarrow> string + bytes"
  en_blake3 :: "bytes \<Rightarrow> message_hash"
  en_hasher :: "bytes \<Rightarrow> bytes \<Rightarrow> u64"
  en_lru :: "'c hash_lru"

record 'sk protocol_config =
  pc_network_handle :: "'sk network_handle"
  pc_num_aggregators :: u16
  pc_timeout :: duration
  pc_message_poll_interval :: duration
  pc_threshold_check_interval :: duration

definition protocol_config_new :: "'sk network_handle \<Rightarrow> u16 \<Rightarrow> duration \<Rightarrow> 'sk protocol_config" where
  "protocol_config_new nh num_aggregators timeout =
     \<lparr>pc_network_handle = nh, pc_num_aggregators = num_aggregators, pc_timeout = timeout,
      pc_message_poll_interval = 25 * 10 ^ 6, pc_threshold_check_interval = 50 * 10 ^ 6\<rparr>"

definition with_message_poll_interval :: "duration \<Rightarrow> 'sk protocol_config \<Rightarrow> 'sk protocol_config" where
  "with_message_poll_interval interval c = c\<lparr>pc_message_poll_interval := interval\<rparr>"

definition with_threshold_check_interval :: "duration \<Rightarrow> 'sk protocol_config \<Rightarrow> 'sk protocol_config" where
  "with_threshold_check_interval interval c = c\<lparr>pc_threshold_check_interval := interval\<rparr>"

definition protocol_config_for_testing :: "'sk network_handle \<Rightarrow> u16 \<Rightarrow> 'sk protocol_config" where
  "protocol_config_for_testing nh num_aggregators =
     \<lparr>pc_network_handle = nh, pc_num_aggregators = num_aggregators, pc_timeout = 30 * 10 ^ 9,
      pc_message_poll_interval = 10 * 10 ^ 6, pc_threshold_check_interval = 25 * 10 ^ 6\<rparr>"

record ('sk, 'pk, 'sig, 'asig, 'c) protocol =
  pr_config :: "'sk protocol_config"
  pr_state :: "('sig, 'asig) aggregation_state"
  pr_weight_scheme :: weight_scheme
  pr_selector :: aggregator_selector
  pr_public_keys :: "(peer_id, 'pk) hmap"
  pr_dedup_cache :: "'c dedup_cache"

definition protocol_new ::
  "('sk, 'pk, 'sig, 'asig, 'apk, 'c) env \<Rightarrow> 'sk protocol_config \<Rightarrow> weight_scheme \<Rightarrow>
    (peer_id, 'pk) hmap \<Rightarrow> ('sk, 'pk, 'sig, 'asig, 'c) protocol" where
  "protocol_new E config weight_scheme keys =
     \<lparr>pr_config = config, pr_state = state_new, pr_weight_scheme = weight_scheme,
      pr_selector = selector_new (pc_num_aggregators config), pr_public_keys = keys,
      pr_dedup_cache = dedup_new (en_lru E) (max (hm_len keys) 100 * 10) (300 * 10 ^ 9)\<rparr>"

definition local_peer :: "('sk, 'pk, 'sig, 'asig, 'c) protocol \<Rightarrow> peer_id" where
  "local_peer P = nh_local_peer_id (pc_network_handle (pr_config P))"

definition protocol_is_aggregator ::
  "('sk, 'pk, 'sig, 'asig, 'apk, 'c) env \<Rightarrow> ('sk, 'pk, 'sig, 'asig, 'c) protocol \<Rightarrow> bool" where
  "protocol_is_aggregator E P =
     is_aggregator (en_hasher E) (en_key_bytes E) (pr_selector P) (local_peer P) (pr_public_keys P)
       (as_local_message (pr_state P))"

definition send_message ::
  "('sk, 'pk, 'sig, 'asig, 'apk, 'c) env \<Rightarrow> ('sig, 'asig) agg_sig_message \<Rightarrow> peer_id option \<Rightarrow>
    ('sk, 'pk, 'sig, 'asig, 'c) protocol \<Rightarrow>
    (aggregation_error + unit) \<times> ('sk, 'pk, 'sig, 'asig, 'c) protocol" where
  "send_message E message recipient P =
     (case en_serialize E message of
        Inl e \<Rightarrow> (Inl (SerializationError e), P)
      | Inr payload \<Rightarrow>
          (let routing = \<lparr>mr_message_id = 0, mr_round_id = 0, mr_sender = local_peer P, mr_recipient = recipient\<rparr>;
               (r, nh) = handle_send (en_encode E) (pc_network_handle (pr_config P)) routing payload
           in (res_map_err (\<lambda>e. NetworkError (''Failed to send message: '' @ e)) r,
               P\<lparr>pr_config := (pr_config P)\<lparr>pc_network_handle := nh\<rparr>\<rparr>)))"

definition has_seen_signature_for_message ::
  "('sk, 'pk, 'sig, 'asig, 'c) protocol \<Rightarrow> peer_id \<Rightarrow> bytes \<Rightarrow> bool" where
  "has_seen_signature_for_message P peer_id message =
     (case hm_get (as_signatures_by_message (pr_state P)) message of
        None \<Rightarrow> False | Some sig_map \<Rightarrow> peer_id \<in> set sig_map)"

definition verify_signature ::
  "('sk, 'pk, 'sig, 'asig, 'apk, 'c) env \<Rightarrow> peer_id \<Rightarrow> 'sig \<Rightarrow> bytes \<Rightarrow> (peer_id, 'pk) hmap \<Rightarrow> bool" where
  "verify_signature E sender_id signature message public_keys =
     (case hm_get public_keys sender_id of
        None \<Rightarrow> False | Some public_key \<Rightarrow> en_verify E public_key message signature)"

definition add_signature ::
  "peer_id \<Rightarrow> 'sig \<Rightarrow> bytes \<Rightarrow> ('sk, 'pk, 'sig, 'asig, 'c) protocol \<Rightarrow> ('sk, 'pk, 'sig, 'asig, 'c) protocol" where
  "add_signature peer_id signature message P =
     (let st = pr_state P;
          sig_map = (case hm_get (as_signatures_by_message st) message of None \<Rightarrow> [] | Some s \<Rightarrow> s)
      in P\<lparr>pr_state := st\<lparr>
             as_signatures_by_message :=
               hm_insert message (hs_insert peer_id sig_map) (as_signatures_by_message st),
             as_seen_signatures := hm_insert peer_id (signature, message) (as_seen_signatures st)\<rparr>\<rparr>)"

definition mark_participant_malicious ::
  "('sk, 'pk, 'sig, 'asig, 'apk, 'c) env \<Rightarrow> peer_id \<Rightarrow> 'sig evidence \<Rightarrow>
    ('sk, 'pk, 'sig, 'asig, 'c) protocol \<Rightarrow>
    (aggregation_error + unit) \<times> ('sk, 'pk, 'sig, 'asig, 'c) protocol" where
  "mark_participant_malicious E peer_id evidence P =
     (let P' = P\<lparr>pr_state := (pr_state P)\<lparr>as_malicious := hs_insert peer_id (as_malicious (pr_state P))\<rparr>\<rparr>
      in send_message E (MaliciousReport peer_id evidence) None P')"

section \<open>Misbehaviour\<close>

primrec verify_malicious_evidence ::
  "('sk, 'pk, 'sig, 'asig, 'apk, 'c) env \<Rightarrow> peer_id \<Rightarrow> (peer_id, 'pk) hmap \<Rightarrow> 'sig evidence \<Rightarrow>
    aggregation_error + bool" where
  "verify_malicious_evidence E operator public_keys (InvalidSignature signature message) =
     (case hm_get public_keys operator of
        None \<Rightarrow> Inl KeyNotFound
      | Some operator_key \<Rightarrow> Inr (\<not> en_verify E operator_key message signature))"
| "verify_malicious_evidence E operator public_keys (Equivocation signature1 signature2 message1 message2) =
     (case hm_get public_keys operator of
        None \<Rightarrow> Inl KeyNotFound
      | Some operator_key \<Rightarrow>
          if message1 = message2 then Inr False
          else Inr (en_verify E operator_key message1 signature1
                    \<and> en_verify E operator_key message2 signature2))"

definition handle_malicious_report ::
  "('sk, 'pk, 'sig, 'asig, 'apk, 'c) env \<Rightarrow> peer_id \<Rightarrow> 'sig evidence \<Rightarrow>
    ('sk, 'pk, 'sig, 'asig, 'c) protocol \<Rightarrow>
    (aggregation_error + unit) \<times> ('sk, 'pk, 'sig, 'asig, 'c) protocol" where
  "handle_malicious_report E operator evidence P =
     (case verify_malicious_evidence E operator (pr_public_keys P) evidence of
        Inl e \<Rightarrow> (Inl e, P)
      | Inr is_malicious \<Rightarrow>
          (Inr (), if is_malicious
                   then P\<lparr>pr_state := (pr_state P)\<lparr>as_malicious := hs_insert operator (as_malicious (pr_state P))\<rparr>\<rparr>
                   else P))"

definition check_for_equivocation ::
  "('sk, 'pk, 'sig, 'asig, 'c) protocol \<Rightarrow> peer_id \<Rightarrow> bytes \<Rightarrow> 'sig \<Rightarrow> 'sig evidence option" where
  "check_for_equivocation P peer_id new_message new_signature =
     (case hm_get (as_seen_signatures (pr_state P)) peer_id of
        None \<Rightarrow> None
      | Some (old_signature, old_message) \<Rightarrow>
          if old_message \<noteq> new_message
          then Some (Equivocation old_signature new_signature old_message new_message)
          else None)"

section \<open>Threshold and aggregation\<close>

definition honest :: "('sk, 'pk, 'sig, 'asig, 'c) protocol \<Rightarrow> peer_id list \<Rightarrow> peer_id list" where
  "honest P contributors = filter (\<lambda>p. p \<notin> set (as_malicious (pr_state P))) contributors"

definition check_threshold ::
  "('sk, 'pk, 'sig, 'asig, 'c) protocol \<Rightarrow> bytes \<Rightarrow> aggregation_error + peer_id list option" where
  "check_threshold P message =
     (case hm_get (as_signatures_by_message (pr_state P)) message of
        None \<Rightarrow> Inr None
      | Some contributors \<Rightarrow>
          (let total_weight = calculate_weight (pr_weight_scheme P) (honest P contributors);
               threshold_weight = ws_threshold_weight (pr_weight_scheme P)
           in if total_weight < threshold_weight
              then if as_round (pr_state P) = Completion
                   then Inl (ThresholdNotMet total_weight threshold_weight)
                   else Inr None
              else Inr (Some contributors)))"

definition collect_signatures_and_public_keys ::
  "('sk, 'pk, 'sig, 'asig, 'c) protocol \<Rightarrow> peer_id list \<Rightarrow> aggregation_error + 'sig list \<times> 'pk list" where
  "collect_signatures_and_public_keys P contributors =
     (let ids = honest P contributors;
          signatures = List.map_filter (\<lambda>p. map_option fst (hm_get (as_seen_signatures (pr_state P)) p)) ids;
          public_keys = List.map_filter (hm_get (pr_public_keys P)) ids
      in if signatures = [] then Inl MissingData else Inr (signatures, public_keys))"

definition aggregate_and_verify ::
  "('sk, 'pk, 'sig, 'asig, 'apk, 'c) env \<Rightarrow> ('sk, 'pk, 'sig, 'asig, 'c) protocol \<Rightarrow> bytes \<Rightarrow>
    peer_id list \<Rightarrow> 'asig option \<Rightarrow> aggregation_error + 'asig aggregation_result option" where
  "aggregate_and_verify E P message contributors maybe_aggregated_signature =
     res_bind (collect_signatures_and_public_keys P contributors) (\<lambda>(signatures, public_keys).
       case en_aggregate E signatures public_keys of
         Inr (aggregated_sig, aggregated_pub) \<Rightarrow>
           (let sig_to_verify = (case maybe_aggregated_signature of None \<Rightarrow> aggregated_sig | Some s \<Rightarrow> s)
            in if en_verify_aggregate E message sig_to_verify aggregated_pub \<noteq> Inr True then Inr None
               else Inr (Some \<lparr>ar_message = message, ar_signature = sig_to_verify,
                      ar_contributors = contributors,
                      ar_total_weight = Some (calculate_weight (pr_weight_scheme P) contributors),
                      ar_malicious = as_malicious (pr_state P)\<rparr>))
       | Inl e \<Rightarrow> Inl (ProtocolError (''Failed to aggregate: '' @ e)))"

definition build_result ::
  "('sk, 'pk, 'sig, 'asig, 'apk, 'c) env \<Rightarrow> ('sk, 'pk, 'sig, 'asig, 'c) protocol \<Rightarrow> bytes \<Rightarrow>
    aggregation_error + 'asig aggregation_result option" where
  "build_result E P message =
     res_bind (check_threshold P message) (\<lambda>threshold_met.
       case threshold_met of
         None \<Rightarrow> Inr None
       | Some contributors \<Rightarrow> aggregate_and_verify E P message contributors None)"

definition verify_result ::
  "('sk, 'pk, 'sig, 'asig, 'apk, 'c) env \<Rightarrow> ('sk, 'pk, 'sig, 'asig, 'c) protocol \<Rightarrow>
    'asig aggregation_result \<Rightarrow> aggregation_error + unit" where
  "verify_result E P result =
     (case aggregate_and_verify E P (ar_message result) (ar_contributors result) (Some (ar_signature result)) of
        Inl e \<Rightarrow> Inl e
      | Inr None \<Rightarrow> Inl MissingData
      | Inr (Some _) \<Rightarrow> res_bind (check_threshold P (ar_message result)) (\<lambda>_. Inr ()))"

section \<open>Handlers\<close>

text \<open>\<open>now\<close> and \<open>now'\<close> are the clock readings of the deduplication cache. The evidence of
  \<open>check_for_equivocation\<close> is dropped, as in the code.\<close>

definition handle_signature_share ::
  "('sk, 'pk, 'sig, 'asig, 'apk, 'c) env \<Rightarrow> instant \<times> instant \<Rightarrow> peer_id \<Rightarrow> peer_id \<Rightarrow> 'sig \<Rightarrow> bytes \<Rightarrow>
    ('sk, 'pk, 'sig, 'asig, 'c) protocol \<Rightarrow>
    (aggregation_error + unit) \<times> ('sk, 'pk, 'sig, 'asig, 'c) protocol" where
  "handle_signature_share E clk sender_id signer_id signature message P =
     (if has_seen_signature_for_message P signer_id message then (Inr (), P)
      else if \<not> verify_signature E signer_id signature message (pr_public_keys P)
      then mark_participant_malicious E sender_id (InvalidSignature signature message) P
      else let _ = check_for_equivocation P signer_id message signature;
               P1 = add_signature sender_id signature message P;
               (fresh, cache) = check_and_mark (en_lru E) (fst clk) (snd clk)
                                  (en_blake3 E message) (pr_dedup_cache P1);
               P2 = P1\<lparr>pr_dedup_cache := cache\<rparr>
           in if fresh then send_message E (SignatureShare signer_id signature message) None P2
              else (Inr (), P2))"

definition handle_protocol_complete ::
  "('sk, 'pk, 'sig, 'asig, 'apk, 'c) env \<Rightarrow> 'asig aggregation_result \<Rightarrow>
    ('sk, 'pk, 'sig, 'asig, 'c) protocol \<Rightarrow>
    (aggregation_error + unit) \<times> ('sk, 'pk, 'sig, 'asig, 'c) protocol" where
  "handle_protocol_complete E result P =
     (if is_completed (pr_state P) then (Inr (), P)
      else case verify_result E P result of
             Inl e \<Rightarrow> (Inl e, P)
           | Inr _ \<Rightarrow>
               (case try_transition_to Completion (pr_state P) of
                  None \<Rightarrow> (Inl Panicked, P)
                | Some (_, st) \<Rightarrow>
                    (Inr (), P\<lparr>pr_state := st\<lparr>as_verified_completion := Some result\<rparr>\<rparr>)))"

definition handle_message ::
  "('sk, 'pk, 'sig, 'asig, 'apk, 'c) env \<Rightarrow> instant \<times> instant \<Rightarrow> protocol_message \<Rightarrow>
    ('sk, 'pk, 'sig, 'asig, 'c) protocol \<Rightarrow>
    (aggregation_error + unit) \<times> ('sk, 'pk, 'sig, 'asig, 'c) protocol" where
  "handle_message E clk protocol_msg P =
     (let sender_id = mr_sender (pm_routing protocol_msg)
      in case en_deserialize E (pm_payload protocol_msg) of
           Inl e \<Rightarrow> (Inl (SerializationError e), P)
         | Inr (SignatureShare signer_id signature message) \<Rightarrow>
             handle_signature_share E clk sender_id signer_id signature message P
         | Inr (MaliciousReport operator evidence) \<Rightarrow> handle_malicious_report E operator evidence P
         | Inr (ProtocolComplete result) \<Rightarrow> handle_protocol_complete E result P)"

definition send_completion_message ::
  "('sk, 'pk, 'sig, 'asig, 'apk, 'c) env \<Rightarrow> 'asig aggregation_result \<Rightarrow>
    ('sk, 'pk, 'sig, 'asig, 'c) protocol \<Rightarrow>
    (aggregation_error + unit) \<times> ('sk, 'pk, 'sig, 'asig, 'c) protocol" where
  "send_completion_message E aggregation_result P =
     send_message E (ProtocolComplete aggregation_result) None P"

definition sign_and_broadcast ::
  "('sk, 'pk, 'sig, 'asig, 'apk, 'c) env \<Rightarrow> bytes \<Rightarrow> ('sk, 'pk, 'sig, 'asig, 'c) protocol \<Rightarrow>
    (aggregation_error + unit) \<times> ('sk, 'pk, 'sig, 'asig, 'c) protocol" where
  "sign_and_broadcast E message P =
     (let nh = pc_network_handle (pr_config P);
          (r, key) = en_sign E (nh_signing_key nh) message;
          P1 = P\<lparr>pr_config := (pr_config P)\<lparr>pc_network_handle := nh\<lparr>nh_signing_key := key\<rparr>\<rparr>\<rparr>
      in case r of
           Inl e \<Rightarrow> (Inl (SigningError (''Failed to sign message: '' @ e)), P1)
         | Inr signature \<Rightarrow>
             (let P2 = add_signature (local_peer P1) signature message P1
              in send_message E (SignatureShare (local_peer P2) signature message) None P2))"

definition get_highest_weight_message ::
  "('sk, 'pk, 'sig, 'asig, 'c) protocol \<Rightarrow> bytes \<times> u64" where
  "get_highest_weight_message P =
     fold (\<lambda>(message, sig_map) (highest_message, highest_weight).
         let weight = calculate_weight (pr_weight_scheme P) sig_map
         in if highest_weight < weight then (message, weight) else (highest_message, highest_weight))
       (as_signatures_by_message (pr_state P)) ([], 0)"

section \<open>The run loop\<close>

text \<open>The branches of the \<open>select!\<close>: a poll of the incoming messages, with the messages it drains
  and the clock readings of their handling, a threshold check and the timeout. The loop may
  take the branches in any order.\<close>

datatype loop_event =
    MessagePoll "(protocol_message \<times> instant \<times> instant) list"
  | ThresholdCheck
  | TimeoutExpired

definition drain_messages ::
  "('sk, 'pk, 'sig, 'asig, 'apk, 'c) env \<Rightarrow> (protocol_message \<times> instant \<times> instant) list \<Rightarrow>
    ('sk, 'pk, 'sig, 'asig, 'c) protocol \<Rightarrow> ('sk, 'pk, 'sig, 'asig, 'c) protocol" where
  "drain_messages E msgs P = fold (\<lambda>(m, clk) P. snd (handle_message E clk m P)) msgs P"

text \<open>One pass of the loop: the result with which \<open>run\<close> returns, if it does.\<close>

definition on_message_poll ::
  "('sk, 'pk, 'sig, 'asig, 'apk, 'c) env \<Rightarrow> (protocol_message \<times> instant \<times> instant) list \<Rightarrow>
    ('sk, 'pk, 'sig, 'asig, 'c) protocol \<Rightarrow>
    (aggregation_error + 'asig aggregation_result) option \<times> ('sk, 'pk, 'sig, 'asig, 'c) protocol" where
  "on_message_poll E msgs P0 =
     (let P = drain_messages E msgs P0 in
      if 0 < length msgs \<and> protocol_is_aggregator E P then
        (let (highest_weight_message, highest_weight) = get_highest_weight_message P in
         if ws_threshold_weight (pr_weight_scheme P) \<le> highest_weight then
           (case build_result E P highest_weight_message of
              Inr (Some result) \<Rightarrow> (Some (Inr result), snd (send_completion_message E result P))
            | _ \<Rightarrow> (None, P))
         else (None, P))
      else (None, P))"

definition on_threshold_check ::
  "('sk, 'pk, 'sig, 'asig, 'apk, 'c) env \<Rightarrow> bytes \<Rightarrow> ('sk, 'pk, 'sig, 'asig, 'c) protocol \<Rightarrow>
    (aggregation_error + 'asig aggregation_result) option \<times> ('sk, 'pk, 'sig, 'asig, 'c) protocol" where
  "on_threshold_check E message P =
     (case as_round (pr_state P) of
        SignatureCollection \<Rightarrow>
          if \<not> protocol_is_aggregator E P then (None, P)
          else let (highest_weight_message, highest_weight) = get_highest_weight_message P
               in (case build_result E P highest_weight_message of
                     Inr (Some result) \<Rightarrow> (Some (Inr result), snd (send_completion_message E result P))
                   | Inr None \<Rightarrow> (None, P)
                   | Inl e \<Rightarrow> (None, P))
      | Completion \<Rightarrow>
          (Some (case build_result E P message of
                   Inr (Some result) \<Rightarrow> Inr result
                 | Inr None \<Rightarrow> Inl (ThresholdNotMet 0 0)
                 | Inl e \<Rightarrow> Inl e), P)
      | Initialization \<Rightarrow> (None, P))"

definition on_timeout ::
  "('sk, 'pk, 'sig, 'asig, 'apk, 'c) env \<Rightarrow> bytes \<Rightarrow> ('sk, 'pk, 'sig, 'asig, 'c) protocol \<Rightarrow>
    (aggregation_error + 'asig aggregation_result) \<times> ('sk, 'pk, 'sig, 'asig, 'c) protocol" where
  "on_timeout E message P =
     (case try_transition_to Completion (pr_state P) of
        None \<Rightarrow> (Inl Panicked, P)
      | Some (_, st) \<Rightarrow>
          (let P' = P\<lparr>pr_state := st\<rparr>
           in (case build_result E P' message of
                 Inr (Some result) \<Rightarrow> Inr result
               | _ \<Rightarrow> Inl Timeout, P')))"

primrec on_event ::
  "('sk, 'pk, 'sig, 'asig, 'apk, 'c) env \<Rightarrow> bytes \<Rightarrow> loop_event \<Rightarrow> ('sk, 'pk, 'sig, 'asig, 'c) protocol \<Rightarrow>
    (aggregation_error + 'asig aggregation_result) option \<times> ('sk, 'pk, 'sig, 'asig, 'c) protocol" where
  "on_event E message (MessagePoll msgs) P = on_message_poll E msgs P"
| "on_event E message ThresholdCheck P = on_threshold_check E message P"
| "on_event E message TimeoutExpired P = (let (r, P') = on_timeout E message P in (Some r, P'))"

fun run_loop ::
  "('sk, 'pk, 'sig, 'asig, 'apk, 'c) env \<Rightarrow> bytes \<Rightarrow> loop_event list \<Rightarrow>
    ('sk, 'pk, 'sig, 'asig, 'c) protocol \<Rightarrow>
    ((aggregation_error + 'asig aggregation_result) \<times> ('sk, 'pk, 'sig, 'asig, 'c) protocol) option" where
  "run_loop E message [] P = None"
| "run_loop E message (ev # evs) P =
     (case on_event E message ev P of
        (Some r, P') \<Rightarrow> Some (r, P')
      | (None, P') \<Rightarrow> run_loop E message evs P')"

text \<open>\<open>None\<close>: the loop is still running after these events. The selection of the aggregators is
  computed and dropped, as in the code.\<close>

definition protocol_run ::
  "('sk, 'pk, 'sig, 'asig, 'apk, 'c) env \<Rightarrow> bytes \<Rightarrow> loop_event list \<Rightarrow>
    ('sk, 'pk, 'sig, 'asig, 'c) protocol \<Rightarrow>
    ((aggregation_error + 'asig aggregation_result) \<times> ('sk, 'pk, 'sig, 'asig, 'c) protocol) option" where
  "protocol_run E message evs P =
     (let st = (pr_state P)\<lparr>as_local_message := message\<rparr>
      in case try_transition_to SignatureCollection st of
           None \<Rightarrow> Some (Inl Panicked, P\<lparr>pr_state := st\<rparr>)
         | Some (_, st') \<Rightarrow>
             (let P1 = P\<lparr>pr_state := st'\<rparr>;
                  _ = select_aggregators (en_hasher E) (en_key_bytes E) (pr_selector P1)
                        (pr_public_keys P1) (as_local_message st')
              in case sign_and_broadcast E message P1 of
                   (Inl e, P2) \<Rightarrow> Some (Inl e, P2)
                 | (Inr _, P2) \<Rightarrow> run_loop E message evs P2))"

end
