(* ===== verification/Agg_Sig_Correct.thy ===== *)
theory Agg_Sig_Correct
  imports Agg_Sig_Protocol
begin

text \<open>
  Properties of the gossip aggregation protocol: what a result returned by \<open>run\<close> guarantees, that
  \<open>run\<close> ends, what every step keeps, and four ways in which the handlers admit less than
  their messages claim.
\<close>

section \<open>Rounds are ordered\<close>

primrec round_rank :: "protocol_round \<Rightarrow> nat" where
  "round_rank Initialization = 0"
| "round_rank SignatureCollection = 1"
| "round_rank Completion = 2"

lemma round_rank_inj: "round_rank r = round_rank s \<Longrightarrow> r = s"
  by (cases r; cases s) simp_all

instantiation protocol_round :: linorder
begin

definition less_eq_protocol_round :: "protocol_round \<Rightarrow> protocol_round \<Rightarrow> bool" where
  "r \<le> s \<longleftrightarrow> round_rank r \<le> round_rank s"

definition less_protocol_round :: "protocol_round \<Rightarrow> protocol_round \<Rightarrow> bool" where
  "r < s \<longleftrightarrow> round_rank r < round_rank s"

instance
  by standard (auto simp: less_eq_protocol_round_def less_protocol_round_def dest: round_rank_inj)

end

lemma transition_forward:
  "try_transition_to r st = Some (b, st') \<Longrightarrow> as_round st \<le> as_round st' \<and> as_round st' = r
     \<and> st' = st\<lparr>as_round := r\<rparr>"
  by (auto simp: try_transition_to_def less_eq_protocol_round_def split: if_splits protocol_round.splits)

lemma transition_completion: "try_transition_to Completion st \<noteq> None"
  by (cases "as_round st") (auto simp: try_transition_to_def)

section \<open>What the steps keep\<close>

definition contributors_of :: "('sk, 'pk, 'sig, 'asig, 'c) protocol \<Rightarrow> bytes \<Rightarrow> peer_id list" where
  "contributors_of P message =
     (case hm_get (as_signatures_by_message (pr_state P)) message of None \<Rightarrow> [] | Some s \<Rightarrow> s)"

lemma has_seen_iff: "has_seen_signature_for_message P p m \<longleftrightarrow> p \<in> set (contributors_of P m)"
  by (simp add: has_seen_signature_for_message_def contributors_of_def split: option.split)

definition advances ::
  "('sk, 'pk, 'sig, 'asig, 'c) protocol \<Rightarrow> ('sk, 'pk, 'sig, 'asig, 'c) protocol \<Rightarrow> bool" where
  "advances P P' \<longleftrightarrow>
     as_round (pr_state P) \<le> as_round (pr_state P')
     \<and> set (as_malicious (pr_state P)) \<subseteq> set (as_malicious (pr_state P'))
     \<and> (\<forall>m. set (contributors_of P m) \<subseteq> set (contributors_of P' m))
     \<and> (\<forall>m. distinct (contributors_of P m) \<longrightarrow> distinct (contributors_of P' m))
     \<and> (is_completed (pr_state P) \<longrightarrow>
          as_verified_completion (pr_state P') = as_verified_completion (pr_state P))
     \<and> pr_public_keys P' = pr_public_keys P \<and> pr_weight_scheme P' = pr_weight_scheme P
     \<and> local_peer P' = local_peer P"

lemma completed_le: "is_completed st \<Longrightarrow> as_round st \<le> as_round st' \<Longrightarrow> is_completed st'"
  by (cases "as_round st'") (simp_all add: is_completed_def less_eq_protocol_round_def)

lemma advances_refl [simp]: "advances P P"
  by (simp add: advances_def)

lemma advances_trans: "advances P Q \<Longrightarrow> advances Q R \<Longrightarrow> advances P R"
  using completed_le[of "pr_state P" "pr_state Q"] unfolding advances_def by fastforce

lemma handle_send_peer:
  "nh_local_peer_id (snd (handle_send enc nh routing msg)) = nh_local_peer_id nh"
  by (simp add: handle_send_def send_network_message_def split: sum.split option.split)

lemma send_message_keeps:
  "pr_state (snd (send_message E msg to P)) = pr_state P"
  "pr_public_keys (snd (send_message E msg to P)) = pr_public_keys P"
  "pr_weight_scheme (snd (send_message E msg to P)) = pr_weight_scheme P"
  "local_peer (snd (send_message E msg to P)) = local_peer P"
  by (simp_all add: send_message_def Let_def case_prod_beta local_peer_def handle_send_peer split: sum.split)

lemma send_message_advances: "advances P (snd (send_message E msg to P))"
  by (simp add: advances_def send_message_keeps contributors_of_def)

lemma add_signature_state:
  "as_seen_signatures (pr_state (add_signature p sig m P)) =
     hm_insert p (sig, m) (as_seen_signatures (pr_state P))"
  "contributors_of (add_signature p sig m P) m' =
     (if m' = m then hs_insert p (contributors_of P m) else contributors_of P m')"
  "as_malicious (pr_state (add_signature p sig m P)) = as_malicious (pr_state P)"
  "as_round (pr_state (add_signature p sig m P)) = as_round (pr_state P)"
  "pr_public_keys (add_signature p sig m P) = pr_public_keys P"
  by (simp_all add: add_signature_def Let_def contributors_of_def)

lemma add_signature_advances: "advances P (add_signature p sig m P)"
  unfolding advances_def
  by (auto simp: add_signature_state) (simp_all add: add_signature_def Let_def local_peer_def)

lemma malicious_advances:
  "advances P (P\<lparr>pr_state := (pr_state P)\<lparr>as_malicious := hs_insert p (as_malicious (pr_state P))\<rparr>\<rparr>)"
  by (auto simp: advances_def contributors_of_def local_peer_def)

lemma share_advances: "advances P (snd (handle_signature_share E clk sender signer sig m P))"
proof -
  let ?P1 = "add_signature sender sig m P"
  have cache: "advances P (?P1\<lparr>pr_dedup_cache := c\<rparr>)" for c
    using add_signature_advances[of P sender sig m] by (simp add: advances_def contributors_of_def local_peer_def)
  have sent: "advances P (snd (send_message E x None (?P1\<lparr>pr_dedup_cache := c\<rparr>)))" for x c
    by (rule advances_trans[OF cache send_message_advances])
  have marked: "advances P (snd (mark_participant_malicious E sender ev P))" for ev
    unfolding mark_participant_malicious_def Let_def
    by (rule advances_trans[OF malicious_advances send_message_advances])
  show ?thesis
    by (simp add: handle_signature_share_def Let_def case_prod_beta cache sent marked)
qed

lemma complete_advances: "advances P (snd (handle_protocol_complete E r P))"
proof (cases "is_completed (pr_state P)")
  case True
  then show ?thesis by (simp add: handle_protocol_complete_def)
next
  case False
  then show ?thesis
    by (auto simp: handle_protocol_complete_def advances_def contributors_of_def local_peer_def
        split: sum.split option.split dest!: transition_forward)
qed

lemma report_advances: "advances P (snd (handle_malicious_report E p ev P))"
  by (simp add: handle_malicious_report_def malicious_advances split: sum.split)

lemma message_advances: "advances P (snd (handle_message E clk msg P))"
  by (simp add: handle_message_def Let_def share_advances report_advances complete_advances
      split: sum.split agg_sig_message.split)

lemma drain_advances: "advances P (drain_messages E msgs P)"
  unfolding drain_messages_def
proof (induction msgs arbitrary: P)
  case (Cons x msgs)
  then show ?case using advances_trans[OF message_advances Cons] by (simp add: case_prod_beta)
qed simp

lemma poll_advances: "advances P (snd (on_message_poll E msgs P))"
proof -
  have sent: "advances P (snd (send_message E x None (drain_messages E msgs P)))" for x
    by (rule advances_trans[OF drain_advances send_message_advances])
  show ?thesis
    by (simp add: on_message_poll_def Let_def case_prod_beta send_completion_message_def sent drain_advances
        split: sum.split option.split)
qed

lemma check_advances: "advances P (snd (on_threshold_check E m P))"
  by (simp add: on_threshold_check_def Let_def case_prod_beta send_completion_message_def send_message_advances
      split: sum.split option.split protocol_round.split)

lemma timeout_advances: "advances P (snd (on_timeout E m P))"
  by (auto simp: on_timeout_def Let_def advances_def contributors_of_def local_peer_def
      split: option.split dest!: transition_forward)

lemma event_advances: "advances P (snd (on_event E m ev P))"
  by (cases ev) (simp_all add: poll_advances check_advances timeout_advances Let_def case_prod_beta)

text \<open>A step of the protocol: a message is handled, or a pass of the loop runs.\<close>

inductive protocol_step ::
  "('sk, 'pk, 'sig, 'asig, 'apk, 'c) env \<Rightarrow> ('sk, 'pk, 'sig, 'asig, 'c) protocol \<Rightarrow>
    ('sk, 'pk, 'sig, 'asig, 'c) protocol \<Rightarrow> bool" for E where
  handled: "protocol_step E P (snd (handle_message E clk msg P))"
| looped: "protocol_step E P (snd (on_event E m ev P))"

lemma step_advances: "protocol_step E P P' \<Longrightarrow> advances P P'"
  by (erule protocol_step.cases) (simp_all add: message_advances event_advances)

lemma steps_advance: "(protocol_step E)\<^sup>*\<^sup>* P P' \<Longrightarrow> advances P P'"
  by (induction rule: rtranclp_induct) (auto intro: advances_trans step_advances)


lemma run_loop_advances: "run_loop E m evs P = Some (x, P') \<Longrightarrow> advances P P'"
proof (induction E m evs P rule: run_loop.induct)
  case (2 E m ev evs P)
  obtain y Q where ev: "on_event E m ev P = (y, Q)" by (rule prod.exhaust)
  have Q: "advances P Q" using event_advances[of P E m ev] ev by simp
  show ?case
  proof (cases y)
    case None
    then have "advances Q P'" using 2 ev by simp
    with Q show ?thesis by (rule advances_trans)
  next
    case (Some r)
    then show ?thesis using 2(2) ev Q by simp
  qed
qed simp

lemma sign_advances: "advances P (snd (sign_and_broadcast E m P))"
proof -
  have key: "advances P (P\<lparr>pr_config := (pr_config P)\<lparr>pc_network_handle :=
      (pc_network_handle (pr_config P))\<lparr>nh_signing_key := k\<rparr>\<rparr>\<rparr>)" for k
    by (simp add: advances_def contributors_of_def local_peer_def)
  have sent: "advances P (snd (send_message E x None (add_signature p sig m (P\<lparr>pr_config :=
      (pr_config P)\<lparr>pc_network_handle := (pc_network_handle (pr_config P))\<lparr>nh_signing_key := k\<rparr>\<rparr>\<rparr>))))"
    for x p sig k
    by (rule advances_trans[OF advances_trans[OF key add_signature_advances] send_message_advances])
  show ?thesis
    by (simp add: sign_and_broadcast_def Let_def case_prod_beta key sent split: sum.split)
qed

lemma run_advances:
  assumes "protocol_run E m evs P = Some (x, P')"
  shows "advances P P'"
proof -
  let ?st = "(pr_state P)\<lparr>as_local_message := m\<rparr>"
  have start: "advances P (P\<lparr>pr_state := ?st\<rparr>)"
    by (simp add: advances_def contributors_of_def local_peer_def is_completed_def)
  show ?thesis
  proof (cases "try_transition_to SignatureCollection ?st")
    case None
    then show ?thesis using assms start by (simp add: protocol_run_def Let_def)
  next
    case (Some y)
    obtain b st where y: "y = (b, st)" by (rule prod.exhaust)
    let ?P1 = "P\<lparr>pr_state := st\<rparr>"
    have P1: "advances P ?P1"
      using Some y transition_forward[of SignatureCollection ?st b st]
      by (auto simp: advances_def contributors_of_def local_peer_def is_completed_def)
    obtain z P2 where z: "sign_and_broadcast E m ?P1 = (z, P2)" by (rule prod.exhaust)
    have P2: "advances P P2"
      using advances_trans[OF P1 sign_advances[of ?P1 E m]] z by simp
    show ?thesis
      using assms Some y z P2 advances_trans[OF P2 run_loop_advances]
      by (auto simp: protocol_run_def Let_def split: sum.splits)
  qed
qed

section \<open>Results\<close>

text \<open>A certified result lists the recorded contributors to its message, whose members not known
  as malicious reach the threshold, and its signature is the aggregate of what is recorded
  of them and verifies for the message; it names the malicious participants.\<close>

definition certified ::
  "('sk, 'pk, 'sig, 'asig, 'apk, 'c) env \<Rightarrow> ('sk, 'pk, 'sig, 'asig, 'c) protocol \<Rightarrow>
    'asig aggregation_result \<Rightarrow> bool" where
  "certified E P r \<longleftrightarrow>
     hm_get (as_signatures_by_message (pr_state P)) (ar_message r) = Some (ar_contributors r)
     \<and> meets_threshold (pr_weight_scheme P) (honest P (ar_contributors r))
     \<and> ar_malicious r = as_malicious (pr_state P)
     \<and> (\<exists>sigs keys key. collect_signatures_and_public_keys P (ar_contributors r) = Inr (sigs, keys)
          \<and> en_aggregate E sigs keys = Inr (ar_signature r, key)
          \<and> en_verify_aggregate E (ar_message r) (ar_signature r) key = Inr True)"

lemma aggregate_and_verify_Some:
  assumes "aggregate_and_verify E P m cs ms = Inr (Some r)"
  shows "\<exists>sigs keys sig key. collect_signatures_and_public_keys P cs = Inr (sigs, keys)
    \<and> en_aggregate E sigs keys = Inr (sig, key)
    \<and> ar_signature r = (case ms of None \<Rightarrow> sig | Some s \<Rightarrow> s)
    \<and> en_verify_aggregate E m (ar_signature r) key = Inr True
    \<and> ar_message r = m \<and> ar_contributors r = cs \<and> ar_malicious r = as_malicious (pr_state P)"
proof -
  obtain x where x: "collect_signatures_and_public_keys P cs = Inr x"
    using assms by (cases "collect_signatures_and_public_keys P cs") (simp_all add: aggregate_and_verify_def)
  obtain sigs keys where sk: "x = (sigs, keys)" by (rule prod.exhaust)
  obtain y where y: "en_aggregate E sigs keys = Inr y"
    using assms x sk by (cases "en_aggregate E sigs keys") (simp_all add: aggregate_and_verify_def)
  obtain sig key where "y = (sig, key)" by (rule prod.exhaust)
  then show ?thesis
    using assms x sk y by (auto simp: aggregate_and_verify_def Let_def split: if_splits)
qed

lemma check_threshold_Some:
  assumes "check_threshold P m = Inr (Some cs)"
  shows "hm_get (as_signatures_by_message (pr_state P)) m = Some cs
    \<and> meets_threshold (pr_weight_scheme P) (honest P cs)"
  using assms by (auto simp: check_threshold_def meets_threshold_def Let_def split: option.splits if_splits)

lemma build_result_certified:
  assumes "build_result E P m = Inr (Some r)"
  shows "certified E P r"
proof -
  obtain cs where cs: "check_threshold P m = Inr (Some cs)"
      "aggregate_and_verify E P m cs None = Inr (Some r)"
    using assms by (auto simp: build_result_def res_bind_Inr_iff split: option.splits)
  show ?thesis
    using aggregate_and_verify_Some[OF cs(2)] check_threshold_Some[OF cs(1)]
    unfolding certified_def by auto
qed

lemma certified_sent: "certified E (snd (send_message E' msg to P)) r = certified E P r"
  by (simp add: certified_def send_message_keeps honest_def collect_signatures_and_public_keys_def)

lemma event_result_certified:
  assumes "on_event E m ev P = (Some (Inr r), P')"
  shows "certified E P' r"
proof (cases ev)
  case (MessagePoll msgs)
  let ?Q = "drain_messages E msgs P"
  have "\<exists>m'. build_result E ?Q m' = Inr (Some r) \<and> P' = snd (send_message E (ProtocolComplete r) None ?Q)"
    using assms MessagePoll
    by (auto simp: on_message_poll_def Let_def case_prod_beta send_completion_message_def
        split: if_splits sum.splits option.splits)
  then show ?thesis using build_result_certified certified_sent by blast
next
  case ThresholdCheck
  have "\<exists>m'. build_result E P m' = Inr (Some r) \<and> (P' = P \<or> P' = snd (send_message E (ProtocolComplete r) None P))"
    using assms ThresholdCheck
    by (auto simp: on_threshold_check_def Let_def case_prod_beta send_completion_message_def
        split: if_splits sum.splits option.splits protocol_round.splits)
  then show ?thesis using build_result_certified certified_sent by blast
next
  case TimeoutExpired
  have "build_result E P' m = Inr (Some r)"
    using assms TimeoutExpired
    by (auto simp: on_timeout_def Let_def case_prod_beta split: sum.splits option.splits)
  then show ?thesis by (rule build_result_certified)
qed

lemma run_loop_certified: "run_loop E m evs P = Some (Inr r, P') \<Longrightarrow> certified E P' r"
  by (induction E m evs P rule: run_loop.induct)
    (auto split: prod.splits option.splits intro: event_result_certified)

lemma protocol_run_certified:
  assumes "protocol_run E message evs P = Some (Inr r, P')"
  shows "certified E P' r"
  using assms run_loop_certified[of E message evs _ r P']
  by (auto simp: protocol_run_def Let_def split: option.splits prod.splits sum.splits)

section \<open>A concrete scheme\<close>

text \<open>Keys are numbers, a signature names its key and its message, an aggregate lists its
  signatures. The payloads are codes of messages.\<close>

type_synonym demo_sig = "nat \<times> bytes"

definition demo_decode :: "bytes \<Rightarrow> string + (demo_sig, demo_sig list) agg_sig_message" where
  "demo_decode payload =
     (case payload of
        [c, k] \<Rightarrow>
          if c = 1 then Inr (SignatureShare [k] (unat k, [7]) [7])
          else if c = 2 then Inr (SignatureShare [k] (unat k, [9]) [9])
          else if c = 3 then Inr (ProtocolComplete
            \<lparr>ar_message = [9], ar_signature = [(unat k, [9])], ar_contributors = [[k]],
             ar_total_weight = None, ar_malicious = []\<rparr>)
          else Inr (MaliciousReport [k] (InvalidSignature (0, []) [7]))
      | _ \<Rightarrow> Inl ''malformed'')"

definition demo_env ::
  "(nat, nat, demo_sig, demo_sig list, nat list, nat \<times> (message_hash \<times> cache_entry) list) env" where
  "demo_env =
     \<lparr>en_verify = (\<lambda>k m s. s = (k, m)),
      en_sign = (\<lambda>k m. (Inr (k, m), k)),
      en_aggregate = (\<lambda>sigs keys. Inr (sigs, keys)),
      en_verify_aggregate = (\<lambda>m sigs keys. Inr (sigs = map (\<lambda>k. (k, m)) keys)),
      en_key_bytes = (\<lambda>k. [of_nat k]),
      en_serialize = (\<lambda>_. Inr []),
      en_deserialize = demo_decode,
      en_encode = (\<lambda>m. Inr (pm_payload m)),
      en_blake3 = id,
      en_hasher = (\<lambda>_ _. 0),
      en_lru = list_lru\<rparr>"

text \<open>Node \<open>[1]\<close> of three, with a threshold of two.\<close>

definition demo_protocol ::
  "(nat, nat, demo_sig, demo_sig list, nat \<times> (message_hash \<times> cache_entry) list) protocol" where
  "demo_protocol =
     protocol_new demo_env
       (protocol_config_new
          \<lparr>nh_local_peer_id = [1], nh_protocol_name = ''agg'', nh_signing_key = 1,
           nh_sent = [], nh_connected = True\<rparr> 3 1000)
       (equal_scheme \<lparr>eq_total_participants = 3, eq_threshold_percentage = 67\<rparr>)
       [([1], 1), ([2], 2), ([3], 3)]"

definition demo_msg :: "peer_id \<Rightarrow> bytes \<Rightarrow> protocol_message \<times> instant \<times> instant" where
  "demo_msg from payload =
     (\<lparr>pm_protocol = ''agg'',
       pm_routing = \<lparr>mr_message_id = 0, mr_round_id = 0, mr_sender = from, mr_recipient = None\<rparr>,
       pm_payload = payload\<rparr>, 0, 0)"

definition demo_evs :: "loop_event list" where
  "demo_evs = [ThresholdCheck, MessagePoll [demo_msg [2] [1, 2]]]"

definition demo_result :: "demo_sig list aggregation_result" where
  "demo_result =
     \<lparr>ar_message = [7], ar_signature = [(1, [7]), (2, [7])], ar_contributors = [[1], [2]],
      ar_total_weight = Some 2, ar_malicious = []\<rparr>"

lemmas protocol_eval = protocol_run_def protocol_new_def protocol_config_new_def state_new_def
  try_transition_to_def sign_and_broadcast_def add_signature_def send_message_def handle_send_def
  send_network_message_def local_peer_def Let_def on_threshold_check_def on_message_poll_def
  drain_messages_def handle_message_def handle_signature_share_def has_seen_signature_for_message_def
  verify_signature_def check_and_mark_def protocol_is_aggregator_def is_aggregator_def
  selector_new_def get_highest_weight_message_def build_result_def check_threshold_def
  aggregate_and_verify_def collect_signatures_and_public_keys_def honest_def calculate_weight_def
  send_completion_message_def hm_insert_def hs_insert_def map_filter_simps

lemmas demo_eval = protocol_eval demo_env_def demo_protocol_def demo_evs_def demo_msg_def
  demo_decode_def demo_result_def equal_scheme_def sat_add_def sat_mul_def u64_max_def word_gt_0 dedup_new_def
  list_lru_def list_iter_def entry_expired_def without_def

lemma demo_run: "map_option fst (protocol_run demo_env [7] demo_evs demo_protocol) = Some (Inr demo_result)"
  by (simp add: demo_eval)


section \<open>Properties\<close>

text \<open>C4: a result that \<open>run\<close> returns is certified in the state it leaves: it lists the contributors
  recorded for its message and the participants known as malicious, the contributors not among these
  reach the threshold, and the signature is their aggregate and verifies for the message. This holds on every return
  path, early completion, threshold check, completion and timeout, whatever messages arrive.\<close>

theorem run_result_certified:
  assumes "protocol_run E message evs P = Some (Inr r, P')"
  shows "certified E P' r"
  by (rule protocol_run_certified[OF assms])

theorem run_result_certified_witness:
  "\<exists>P'. protocol_run demo_env [7] demo_evs demo_protocol = Some (Inr demo_result, P')
     \<and> certified demo_env P' demo_result"
  using demo_run run_result_certified[of demo_env "[7]" demo_evs demo_protocol demo_result]
  by (auto simp: map_option_eq_Some)

lemma build_result_no_panic: "build_result E P m \<noteq> Inl Panicked"
  by (auto simp: build_result_def check_threshold_def aggregate_and_verify_def res_bind_def
      collect_signatures_and_public_keys_def Let_def split: sum.splits option.splits if_splits prod.splits)

lemma event_no_panic: "fst (on_event E m ev P) \<noteq> Some (Inl Panicked)"
  using transition_completion[of "pr_state P"] build_result_no_panic[of E P m]
  by (cases ev) (auto simp: on_message_poll_def on_threshold_check_def on_timeout_def Let_def case_prod_beta
      split: sum.splits option.splits protocol_round.splits if_splits)

lemma sign_no_panic: "fst (sign_and_broadcast E m P) \<noteq> Inl Panicked"
  by (auto simp: sign_and_broadcast_def send_message_def Let_def case_prod_beta res_map_err_def split: sum.splits)

lemma run_loop_returns:
  "TimeoutExpired \<in> set evs \<Longrightarrow> \<exists>r P'. run_loop E m evs P = Some (r, P') \<and> r \<noteq> Inl Panicked"
proof (induction evs arbitrary: P)
  case (Cons ev evs)
  obtain x Q where ev: "on_event E m ev P = (x, Q)" by (rule prod.exhaust)
  show ?case
  proof (cases x)
    case None
    then have "ev \<noteq> TimeoutExpired" using ev by (auto simp: Let_def case_prod_beta)
    then show ?thesis using Cons ev None by auto
  next
    case (Some r)
    then show ?thesis using ev event_no_panic[of E m ev P] by auto
  qed
qed simp



text \<open>C31: whatever messages and events a node processes, its round never goes back, the peers it
  holds for malicious and the recorded contributors to each message are never forgotten, and
  once it has completed the accepted completion stays as it is.\<close>

theorem protocol_progress_monotone:
  assumes "(protocol_step E)\<^sup>*\<^sup>* P P'"
  shows "as_round (pr_state P) \<le> as_round (pr_state P')
    \<and> set (as_malicious (pr_state P)) \<subseteq> set (as_malicious (pr_state P'))
    \<and> set (contributors_of P m) \<subseteq> set (contributors_of P' m)
    \<and> (is_completed (pr_state P) \<longrightarrow> is_completed (pr_state P')
         \<and> as_verified_completion (pr_state P') = as_verified_completion (pr_state P))"
  using steps_advance[OF assms] completed_le[of "pr_state P" "pr_state P'"]
  unfolding advances_def by blast

theorem protocol_progress_monotone_witness:
  "let P = demo_protocol; P' = snd (on_event demo_env [7] (MessagePoll [demo_msg [2] [1, 2]]) P) in
   (protocol_step demo_env)\<^sup>*\<^sup>* P P' \<and> contributors_of P' [7] = [[2]]
    \<and> as_round (pr_state P) \<le> as_round (pr_state P')"
proof -
  let ?P' = "snd (on_event demo_env [7] (MessagePoll [demo_msg [2] [1, 2]]) demo_protocol)"
  have step: "(protocol_step demo_env)\<^sup>*\<^sup>* demo_protocol ?P'"
    by (rule r_into_rtranclp) (rule protocol_step.looped)
  have "contributors_of ?P' [7] = [[2]]" by (simp add: demo_eval contributors_of_def)
  then show ?thesis using protocol_progress_monotone[OF step] step by simp
qed


section \<open>Where the handlers fall short\<close>


definition demo_lone :: "demo_sig list aggregation_result" where
  "demo_lone = \<lparr>ar_message = [9], ar_signature = [(2, [9])], ar_contributors = [[2]],
     ar_total_weight = None, ar_malicious = []\<rparr>"

definition demo_lone_share ::
  "(nat, nat, demo_sig, demo_sig list, nat \<times> (message_hash \<times> cache_entry) list) protocol" where
  "demo_lone_share = snd (handle_message demo_env (0, 0) (fst (demo_msg [2] [2, 2])) demo_protocol)"


lemma share_recorded:
  assumes "\<not> has_seen_signature_for_message P signer m"
    and "verify_signature E signer sig m (pr_public_keys P)"
  shows "pr_state (snd (handle_signature_share E clk sender signer sig m P)) =
      pr_state (add_signature sender sig m P)
    \<and> pr_public_keys (snd (handle_signature_share E clk sender signer sig m P)) = pr_public_keys P"
  using assms
  by (simp add: handle_signature_share_def Let_def case_prod_beta send_message_keeps add_signature_state)

text \<open>C39: a valid share that a peer passes on is recorded for that peer and not for its signer, with
  the signer's signature as the peer's own. The aggregate over such a
  record does not verify, and the peer's own share is then taken for a repetition.\<close>

theorem relayed_share_credits_relay:
  assumes "\<not> has_seen_signature_for_message P signer m"
    and "verify_signature E signer sig m (pr_public_keys P)" and "relay \<noteq> signer"
  shows "let P' = snd (handle_signature_share E clk relay signer sig m P) in
    has_seen_signature_for_message P' relay m \<and> \<not> has_seen_signature_for_message P' signer m
    \<and> hm_get (as_seen_signatures (pr_state P')) relay = Some (sig, m)"
proof -
  let ?P' = "snd (handle_signature_share E clk relay signer sig m P)"
  have st: "pr_state ?P' = pr_state (add_signature relay sig m P)"
    using share_recorded[OF assms(1,2), of clk relay] by simp
  then have "contributors_of ?P' m = hs_insert relay (contributors_of P m)"
    using add_signature_state(2)[of relay sig m P m] by (simp add: contributors_of_def)
  then show ?thesis
    using assms(1,3) st by (simp add: has_seen_iff add_signature_state)
qed

theorem relayed_share_credits_relay_witness:
  "let P = snd (handle_message demo_env (0, 0) (fst (demo_msg [2] [1, 3]))
             (snd (sign_and_broadcast demo_env [7] demo_protocol)));
       P' = snd (handle_message demo_env (0, 0) (fst (demo_msg [2] [1, 2])) P)
   in contributors_of P [7] = [[1], [2]] \<and> \<not> has_seen_signature_for_message P [3] [7]
    \<and> check_threshold P [7] = Inr (Some [[1], [2]]) \<and> build_result demo_env P [7] = Inr None
    \<and> P' = P"
proof -
  let ?S = "snd (sign_and_broadcast demo_env [7] demo_protocol)"
  have "\<not> has_seen_signature_for_message ?S [3] [7]"
    "verify_signature demo_env [3] (3, [7]) [7] (pr_public_keys ?S)"
    by (simp_all add: demo_eval)
  then have "\<not> has_seen_signature_for_message (snd (handle_signature_share demo_env (0, 0) [2] [3] (3, [7]) [7] ?S)) [3] [7]"
    using relayed_share_credits_relay[of ?S "[3]" "[7]" demo_env "(3, [7])" "[2]" "(0, 0)"] by (simp add: Let_def)
  then show ?thesis by (simp add: demo_eval contributors_of_def)
qed

text \<open>Two valid shares of one peer for different messages are both recorded and the peer is not
  held for malicious, although the pair is evidence of equivocation that a report would be
  accepted with: the evidence that \<open>check_for_equivocation\<close> returns is dropped.\<close>

theorem equivocation_unpunished:
  assumes "verify_signature E p sig1 m1 (pr_public_keys P)" and "verify_signature E p sig2 m2 (pr_public_keys P)"
    and "m1 \<noteq> m2" and "p \<notin> set (contributors_of P m1)" and "p \<notin> set (contributors_of P m2)"
  shows "let P1 = snd (handle_signature_share E clk1 p p sig1 m1 P);
             P2 = snd (handle_signature_share E clk2 p p sig2 m2 P1)
         in p \<in> set (contributors_of P2 m1) \<and> p \<in> set (contributors_of P2 m2)
          \<and> as_malicious (pr_state P2) = as_malicious (pr_state P)
          \<and> check_for_equivocation P1 p m2 sig2 = Some (Equivocation sig1 sig2 m1 m2)
          \<and> verify_malicious_evidence E p (pr_public_keys P2) (Equivocation sig1 sig2 m1 m2) = Inr True"
proof -
  let ?P1 = "snd (handle_signature_share E clk1 p p sig1 m1 P)"
  let ?P2 = "snd (handle_signature_share E clk2 p p sig2 m2 ?P1)"
  have unseen1: "\<not> has_seen_signature_for_message P p m1" using assms(4) by (simp add: has_seen_iff)
  note r1 = share_recorded[OF unseen1 assms(1), of clk1 p]
  have c1: "contributors_of ?P1 m = contributors_of (add_signature p sig1 m1 P) m" for m
    using r1 by (simp add: contributors_of_def)
  have unseen2: "\<not> has_seen_signature_for_message ?P1 p m2"
    using assms(3,5) by (simp add: has_seen_iff c1 add_signature_state)
  have ver2: "verify_signature E p sig2 m2 (pr_public_keys ?P1)" using assms(2) r1 by simp
  note r2 = share_recorded[OF unseen2 ver2, of clk2 p]
  have c2: "contributors_of ?P2 m = contributors_of (add_signature p sig2 m2 ?P1) m" for m
    using r2 by (simp add: contributors_of_def)
  have mal: "as_malicious (pr_state ?P2) = as_malicious (pr_state P)"
    using r1 r2 by (simp add: add_signature_state)
  have eq: "check_for_equivocation ?P1 p m2 sig2 = Some (Equivocation sig1 sig2 m1 m2)"
    using r1 assms(3) by (simp add: check_for_equivocation_def add_signature_state)
  have ev: "verify_malicious_evidence E p (pr_public_keys ?P2) (Equivocation sig1 sig2 m1 m2) = Inr True"
    using assms(1-3) r1 r2 by (auto simp: verify_signature_def split: option.splits)
  show ?thesis
    using mal eq ev assms(3) by (simp add: Let_def c1 c2 add_signature_state)
qed

theorem equivocation_unpunished_witness:
  "let P1 = snd (handle_signature_share demo_env (0, 0) [2] [2] (2, [7]) [7] demo_protocol);
       P2 = snd (handle_signature_share demo_env (0, 0) [2] [2] (2, [9]) [9] P1)
   in [2] \<in> set (contributors_of P2 [7]) \<and> [2] \<in> set (contributors_of P2 [9])
    \<and> as_malicious (pr_state P2) = []"
  using equivocation_unpunished[of demo_env "[2]" "(2, [7])" "[7]" demo_protocol "(2, [9])" "[9]" "(0, 0)" "(0, 0)"]
  by (simp add: Let_def verify_signature_def contributors_of_def)
    (simp add: demo_env_def demo_protocol_def protocol_new_def state_new_def)

text \<open>A report with any signature that does not verify under the accused participant's key is
  accepted as proof against it: nothing ties the evidence to the accused. The participant's
  weight then no longer counts.\<close>

theorem report_frames_participant:
  assumes "hm_get (pr_public_keys P) p = Some key" and "\<not> en_verify E key m junk"
  shows "let P' = snd (handle_malicious_report E p (InvalidSignature junk m) P) in
    fst (handle_malicious_report E p (InvalidSignature junk m) P) = Inr ()
    \<and> p \<in> set (as_malicious (pr_state P')) \<and> p \<notin> set (honest P' cs)"
  using assms by (simp add: handle_malicious_report_def honest_def)

theorem report_frames_participant_witness:
  "let P' = snd (handle_malicious_report demo_env [2] (InvalidSignature (0, []) [7]) demo_protocol) in
    [2] \<in> set (as_malicious (pr_state P'))
    \<and> map_option fst (protocol_run demo_env [7]
         [MessagePoll [demo_msg [3] [4, 2], demo_msg [2] [1, 2]], ThresholdCheck] demo_protocol) = None"
proof -
  have "hm_get (pr_public_keys demo_protocol) [2] = Some 2" "\<not> en_verify demo_env 2 [7] (0, [])"
    by (simp_all add: demo_protocol_def protocol_new_def demo_env_def)
  then have "[2] \<in> set (as_malicious (pr_state
      (snd (handle_malicious_report demo_env [2] (InvalidSignature (0, []) [7]) demo_protocol))))"
    using report_frames_participant[of demo_protocol "[2]" 2 demo_env "[7]" "(0, [])"] by (simp add: Let_def)
  moreover have "map_option fst (protocol_run demo_env [7]
       [MessagePoll [demo_msg [3] [4, 2], demo_msg [2] [1, 2]], ThresholdCheck] demo_protocol) = None"
    by (simp add: demo_eval handle_malicious_report_def)
  ultimately show ?thesis by (simp add: Let_def)
qed

end
