(* ===== verification/Peer_Manager.thy ===== *)
theory Peer_Manager
  imports Agg_Sig_Protocol Lock_Order
begin

text \<open>
  The peer manager of \<open>crates/networking/src/discovery/peers.rs\<close>: known, verified and banned peers,
  the whitelist and the events it broadcasts, and the verification keys with the address
  helpers of \<open>discovery/utils.rs\<close>. The concurrent maps are hash maps; that a guard of such a map
  locks its shard matters in one place, where it is modelled with the locks of \<open>Lock_Order\<close>.
\<close>

section \<open>Verification keys\<close>

datatype ecdsa_error = BadV | BadRS | BadSignature

primrec show_ecdsa_error :: "ecdsa_error \<Rightarrow> string" where
  "show_ecdsa_error BadV = ''Bad V''"
| "show_ecdsa_error BadRS = ''Bad RS''"
| "show_ecdsa_error BadSignature = ''Bad Signature''"

text \<open>The curve library and the key type: parsing of a recovery id and of a signature, recovery of
  a serialised public key, decompression, hashing, and the operations of \<open>KeyType\<close>.\<close>

record ('sk, 'k, 'sig) key_ops =
  ko_parse_rid :: "u8 \<Rightarrow> u8 option"
  ko_parse_signature :: "bytes \<Rightarrow> bytes option"
  ko_recover :: "bytes \<Rightarrow> bytes \<Rightarrow> u8 \<Rightarrow> bytes option"
  ko_parse_compressed :: "bytes \<Rightarrow> bytes option"
  ko_keccak :: "bytes \<Rightarrow> bytes"
  ko_public :: "'sk \<Rightarrow> 'k"
  ko_sign :: "'sk \<Rightarrow> bytes \<Rightarrow> string + 'sig"
  ko_verify :: "'k \<Rightarrow> bytes \<Rightarrow> 'sig \<Rightarrow> bool"
  ko_key_bytes :: "'k \<Rightarrow> bytes"
  ko_sig_bytes :: "'sig \<Rightarrow> bytes"
  ko_sig_of_bytes :: "bytes \<Rightarrow> string + 'sig"

definition secp256k1_ecdsa_recover ::
  "('sk, 'k, 'sig) key_ops \<Rightarrow> bytes \<Rightarrow> bytes \<Rightarrow> ecdsa_error + bytes" where
  "secp256k1_ecdsa_recover K sig msg =
     (let v = sig ! 64 in
      case ko_parse_rid K (if 26 < v then v - 27 else v) of
        None \<Rightarrow> Inl BadV
      | Some rid \<Rightarrow>
          (case ko_parse_signature K (take 64 sig) of
             None \<Rightarrow> Inl BadRS
           | Some s \<Rightarrow>
               (case ko_recover K msg s rid of
                  None \<Rightarrow> Inl BadSignature
                | Some pubkey \<Rightarrow> Inr (take 64 (drop 1 pubkey)))))"

definition get_address_from_pubkey :: "('sk, 'k, 'sig) key_ops \<Rightarrow> bytes \<Rightarrow> bytes" where
  "get_address_from_pubkey K pubkey = take 20 (drop 12 (ko_keccak K pubkey))"

text \<open>\<open>None\<close> is a panic: the slice copy into 33 bytes, or the \<open>unwrap\<close> of the parser.\<close>

definition get_address_from_compressed_pubkey :: "('sk, 'k, 'sig) key_ops \<Rightarrow> bytes \<Rightarrow> bytes option" where
  "get_address_from_compressed_pubkey K pubkey =
     (if 33 < length pubkey then None
      else map_option (\<lambda>decompressed. take 20 (drop 12 (ko_keccak K (take 64 (drop 1 decompressed)))))
             (ko_parse_compressed K (pubkey @ replicate (33 - length pubkey) 0)))"

datatype 'k verification_key = EvmAddress bytes | InstancePublicKey 'k

datatype verification_error = VerifyPanic | VerifyError string

primrec verification_key_verify ::
  "('sk, 'k, 'sig) key_ops \<Rightarrow> bytes \<Rightarrow> bytes \<Rightarrow> 'k verification_key \<Rightarrow> verification_error + bool" where
  "verification_key_verify K msg signature (EvmAddress address) =
     (if 65 < length signature then Inl VerifyPanic
      else let sig = signature @ replicate (65 - length signature) 0
           in case secp256k1_ecdsa_recover K sig (ko_keccak K msg) of
                Inl e \<Rightarrow> Inl (VerifyError (show_ecdsa_error e))
              | Inr pubkey \<Rightarrow> Inr (get_address_from_pubkey K pubkey = address))"
| "verification_key_verify K msg signature (InstancePublicKey public_key) =
     (case ko_sig_of_bytes K signature of
        Inl e \<Rightarrow> Inl (VerifyError e)
      | Inr s \<Rightarrow> Inr (ko_verify K public_key msg s))"

primrec verification_key_bytes :: "('sk, 'k, 'sig) key_ops \<Rightarrow> 'k verification_key \<Rightarrow> bytes" where
  "verification_key_bytes K (EvmAddress address) = address"
| "verification_key_bytes K (InstancePublicKey public_key) = ko_key_bytes K public_key"

section \<open>Peers\<close>

text \<open>Times of the system clock are nanoseconds since the epoch.\<close>

record ('a, 'i) peer_info =
  pi_addresses :: "'a list"
  pi_identify_info :: "'i option"
  pi_last_seen :: int
  pi_ping_latency :: "duration option"
  pi_successes :: u32
  pi_failures :: u32
  pi_average_response_time :: "duration option"

definition peer_info_default :: "int \<Rightarrow> ('a, 'i) peer_info" where
  "peer_info_default now =
     \<lparr>pi_addresses = [], pi_identify_info = None, pi_last_seen = now, pi_ping_latency = None,
      pi_successes = 0, pi_failures = 0, pi_average_response_time = None\<rparr>"

datatype ('a, 'i) peer_event =
    PeerUpdated peer_id "('a, 'i) peer_info"
  | PeerRemoved peer_id string
  | PeerBanned peer_id string "instant option"
  | PeerUnbanned peer_id

record ('k, 'a, 'i) peer_manager =
  mg_peers :: "(peer_id, ('a, 'i) peer_info) hmap"
  mg_verified :: "peer_id list"
  mg_key_peers :: "('k verification_key, peer_id) hmap"
  mg_banned :: "(peer_id, instant option) hmap"
  mg_whitelist :: "'k verification_key list"
  mg_events :: "('a, 'i) peer_event list"

datatype 'k allowed_keys = EvmAddresses "bytes list" | InstancePublicKeys "'k list"

primrec allowed_list :: "'k allowed_keys \<Rightarrow> 'k verification_key list" where
  "allowed_list (EvmAddresses addresses) = map EvmAddress addresses"
| "allowed_list (InstancePublicKeys keys) = map InstancePublicKey keys"

definition manager_create :: "'k allowed_keys \<Rightarrow> ('k, 'a, 'i) peer_manager" where
  "manager_create allowed_keys =
     \<lparr>mg_peers = [], mg_verified = [], mg_key_peers = [], mg_banned = [],
      mg_whitelist = allowed_list allowed_keys, mg_events = []\<rparr>"

definition emit :: "('a, 'i) peer_event \<Rightarrow> ('k, 'a, 'i) peer_manager \<Rightarrow> ('k, 'a, 'i) peer_manager" where
  "emit e mg = mg\<lparr>mg_events := mg_events mg @ [e]\<rparr>"

definition clear_whitelisted_keys :: "('k, 'a, 'i) peer_manager \<Rightarrow> ('k, 'a, 'i) peer_manager" where
  "clear_whitelisted_keys mg = mg\<lparr>mg_whitelist := []\<rparr>"

definition insert_whitelisted_keys ::
  "'k allowed_keys \<Rightarrow> ('k, 'a, 'i) peer_manager \<Rightarrow> ('k, 'a, 'i) peer_manager" where
  "insert_whitelisted_keys keys mg = mg\<lparr>mg_whitelist := mg_whitelist mg @ allowed_list keys\<rparr>"

text \<open>The updates received before the channel closes.\<close>

definition run_allowed_keys_updater ::
  "'k allowed_keys list \<Rightarrow> ('k, 'a, 'i) peer_manager \<Rightarrow> ('k, 'a, 'i) peer_manager" where
  "run_allowed_keys_updater updates mg =
     fold (\<lambda>keys mg. insert_whitelisted_keys keys (clear_whitelisted_keys mg)) updates mg"

definition is_key_whitelisted :: "'k verification_key \<Rightarrow> ('k, 'a, 'i) peer_manager \<Rightarrow> bool" where
  "is_key_whitelisted key mg \<longleftrightarrow> key \<in> set (mg_whitelist mg)"

definition update_peer ::
  "int \<Rightarrow> peer_id \<Rightarrow> ('a, 'i) peer_info \<Rightarrow> ('k, 'a, 'i) peer_manager \<Rightarrow> ('k, 'a, 'i) peer_manager" where
  "update_peer wall p info mg =
     (let info' = info\<lparr>pi_last_seen := wall\<rparr>
      in emit (PeerUpdated p info') (mg\<lparr>mg_peers := hm_insert p info' (mg_peers mg)\<rparr>))"

definition remove_peer :: "peer_id \<Rightarrow> string \<Rightarrow> ('k, 'a, 'i) peer_manager \<Rightarrow> ('k, 'a, 'i) peer_manager" where
  "remove_peer p reason mg =
     (if hm_get (mg_peers mg) p \<noteq> None
      then emit (PeerRemoved p reason) (mg\<lparr>mg_peers := hm_remove p (mg_peers mg)\<rparr>)
      else mg)"

definition verify_peer :: "peer_id \<Rightarrow> ('k, 'a, 'i) peer_manager \<Rightarrow> ('k, 'a, 'i) peer_manager" where
  "verify_peer p mg = mg\<lparr>mg_verified := hs_insert p (mg_verified mg)\<rparr>"

definition is_peer_verified :: "peer_id \<Rightarrow> ('k, 'a, 'i) peer_manager \<Rightarrow> bool" where
  "is_peer_verified p mg \<longleftrightarrow> p \<in> set (mg_verified mg)"

definition ban_peer ::
  "instant \<Rightarrow> peer_id \<Rightarrow> string \<Rightarrow> duration option \<Rightarrow> ('k, 'a, 'i) peer_manager \<Rightarrow> ('k, 'a, 'i) peer_manager" where
  "ban_peer now p reason dur mg =
     (let expires_at = map_option (\<lambda>d. now + int d) dur;
          mg1 = remove_peer p ''banned'' mg;
          mg2 = mg1\<lparr>mg_banned := hm_insert p expires_at (mg_banned mg1)\<rparr>
      in emit (PeerBanned p reason expires_at) mg2)"

definition ban_peer_with_default_duration ::
  "instant \<Rightarrow> peer_id \<Rightarrow> string \<Rightarrow> ('k, 'a, 'i) peer_manager \<Rightarrow> ('k, 'a, 'i) peer_manager" where
  "ban_peer_with_default_duration now p reason mg = ban_peer now p reason (Some (60 * 60 * 10 ^ 9)) mg"

definition handle_nonwhitelisted_peer ::
  "instant \<Rightarrow> peer_id \<Rightarrow> ('k, 'a, 'i) peer_manager \<Rightarrow> ('k, 'a, 'i) peer_manager" where
  "handle_nonwhitelisted_peer now p mg =
     ban_peer now p ''non-whitelisted'' None (remove_peer p ''non-whitelisted'' mg)"

definition unban_peer :: "peer_id \<Rightarrow> ('k, 'a, 'i) peer_manager \<Rightarrow> ('k, 'a, 'i) peer_manager" where
  "unban_peer p mg =
     (if hm_get (mg_banned mg) p \<noteq> None
      then emit (PeerUnbanned p) (mg\<lparr>mg_banned := hm_remove p (mg_banned mg)\<rparr>)
      else mg)"

definition is_banned :: "instant \<Rightarrow> peer_id \<Rightarrow> ('k, 'a, 'i) peer_manager \<Rightarrow> bool \<times> ('k, 'a, 'i) peer_manager" where
  "is_banned now p mg =
     (case hm_get (mg_banned mg) p of
        Some (Some expiry) \<Rightarrow>
          if expiry \<le> now then (False, mg\<lparr>mg_banned := hm_remove p (mg_banned mg)\<rparr>) else (True, mg)
      | Some None \<Rightarrow> (True, mg)
      | None \<Rightarrow> (False, mg))"

text \<open>One pass of \<open>run_ban_cleanup\<close>.\<close>

definition ban_cleanup :: "instant \<Rightarrow> ('k, 'a, 'i) peer_manager \<Rightarrow> ('k, 'a, 'i) peer_manager" where
  "ban_cleanup now mg =
     fold unban_peer
       (map fst (filter (\<lambda>(_, expires_at). case expires_at of None \<Rightarrow> False | Some expiry \<Rightarrow> expiry \<le> now)
                   (mg_banned mg))) mg"

definition update_average_time :: "duration \<Rightarrow> ('a, 'i) peer_info \<Rightarrow> ('a, 'i) peer_info" where
  "update_average_time dur info =
     (case pi_average_response_time info of
        None \<Rightarrow> info\<lparr>pi_average_response_time := Some dur\<rparr>
      | Some avg \<Rightarrow>
          if dur < avg
          then info\<lparr>pi_average_response_time := Some (avg - (avg - dur) div 5)\<rparr>
          else info\<lparr>pi_average_response_time := Some (avg + (dur - avg) div 5)\<rparr>)"

definition get_peer_info :: "peer_id \<Rightarrow> ('k, 'a, 'i) peer_manager \<Rightarrow> ('a, 'i) peer_info option" where
  "get_peer_info p mg = hm_get (mg_peers mg) p"

definition peer_count :: "('k, 'a, 'i) peer_manager \<Rightarrow> nat" where
  "peer_count mg = hm_len (mg_peers mg)"

definition link_peer_id_to_verification_id_key ::
  "peer_id \<Rightarrow> 'k verification_key \<Rightarrow> ('k, 'a, 'i) peer_manager \<Rightarrow> ('k, 'a, 'i) peer_manager" where
  "link_peer_id_to_verification_id_key p key mg = mg\<lparr>mg_key_peers := hm_insert key p (mg_key_peers mg)\<rparr>"

definition remove_peer_id_from_verification_id_key ::
  "peer_id \<Rightarrow> ('k, 'a, 'i) peer_manager \<Rightarrow> ('k, 'a, 'i) peer_manager" where
  "remove_peer_id_from_verification_id_key p mg =
     mg\<lparr>mg_key_peers := hm_retain (\<lambda>_ q. q \<noteq> p) (mg_key_peers mg)\<rparr>"

definition get_peer_id_from_verification_id_key ::
  "'k verification_key \<Rightarrow> ('k, 'a, 'i) peer_manager \<Rightarrow> peer_id option" where
  "get_peer_id_from_verification_id_key key mg = hm_get (mg_key_peers mg) key"

definition position :: "('x \<Rightarrow> bool) \<Rightarrow> 'x list \<Rightarrow> nat option" where
  "position P xs = (let i = length (takeWhile (\<lambda>x. \<not> P x) xs) in if i < length xs then Some i else None)"

definition get_key_position_in_whitelist :: "'k verification_key \<Rightarrow> ('k, 'a, 'i) peer_manager \<Rightarrow> nat option" where
  "get_key_position_in_whitelist key mg = position (\<lambda>k. k = key) (mg_whitelist mg)"

definition get_key_from_whitelist_index :: "nat \<Rightarrow> ('k, 'a, 'i) peer_manager \<Rightarrow> 'k verification_key option" where
  "get_key_from_whitelist_index index mg =
     (if index < length (mg_whitelist mg) then Some (mg_whitelist mg ! index) else None)"

definition get_peer_id_from_whitelist_index :: "nat \<Rightarrow> ('k, 'a, 'i) peer_manager \<Rightarrow> peer_id option" where
  "get_peer_id_from_whitelist_index index mg =
     (case get_key_from_whitelist_index index mg of
        None \<Rightarrow> None | Some k \<Rightarrow> get_peer_id_from_verification_id_key k mg)"

definition get_whitelist_index_from_peer_id :: "peer_id \<Rightarrow> ('k, 'a, 'i) peer_manager \<Rightarrow> nat option" where
  "get_whitelist_index_from_peer_id p mg =
     position (\<lambda>k. get_peer_id_from_verification_id_key k mg = Some p) (mg_whitelist mg)"

section \<open>Logging an interaction\<close>

text \<open>\<open>log_success\<close> and \<open>log_failure\<close> by the lock of the peer's shard: \<open>get_mut\<close> holds it for as long as
  its guard lives, over the call of \<open>update_peer\<close>, whose \<open>insert\<close> takes it again.\<close>

definition log_interaction_locks :: "'l \<Rightarrow> bool \<Rightarrow> 'l lock_prog" where
  "log_interaction_locks shard known =
     (if known
      then [Acquire Exclusive shard, Acquire Exclusive shard, Release shard, Release shard]
      else [Acquire Exclusive shard, Release shard])"

text \<open>The entry the calls mean to store.\<close>

definition logged_success :: "duration \<Rightarrow> ('a, 'i) peer_info \<Rightarrow> ('a, 'i) peer_info" where
  "logged_success dur info = update_average_time dur (info\<lparr>pi_successes := pi_successes info + 1\<rparr>)"

definition logged_failure :: "duration \<Rightarrow> ('a, 'i) peer_info \<Rightarrow> ('a, 'i) peer_info" where
  "logged_failure dur info = update_average_time dur (info\<lparr>pi_failures := pi_failures info + 1\<rparr>)"

lemma average_between:
  assumes "pi_average_response_time info = Some avg"
  shows "\<exists>avg'. pi_average_response_time (update_average_time dur info) = Some avg'
    \<and> min avg dur \<le> avg' \<and> avg' \<le> max avg dur"
proof (cases "dur < avg")
  case True
  have "(avg - dur) div 5 \<le> avg - dur" by simp
  then show ?thesis using True assms by (simp add: update_average_time_def)
next
  case False
  have "(dur - avg) div 5 \<le> dur - avg" by simp
  then show ?thesis using False assms by (simp add: update_average_time_def)
qed

text \<open>Logging an interaction with a known peer never returns: the call waits for a lock it
  holds itself, whatever other threads do.\<close>

theorem log_interaction_blocks:
  assumes "lock_step\<^sup>*\<^sup>* (start_threads (log_interaction_locks shard True # others)) ts"
  shows "ts \<noteq> [] \<and> th_rest (hd ts) \<noteq> [] \<and> \<not> threads_done ts"
proof -
  let ?p = "log_interaction_locks shard True"
  let ?Q = "\<lambda>ts. ts \<noteq> [] \<and> (ts ! 0 = \<lparr>th_held = [], th_rest = ?p\<rparr>
      \<or> ts ! 0 = \<lparr>th_held = [(shard, Exclusive)], th_rest = tl ?p\<rparr>)"
  have "?Q ts" using assms
  proof induction
    case base
    then show ?case by (simp add: start_threads_def)
  next
    case (step ts ts')
    from step(2) show ?case
    proof cases
      case (acquire i m l p)
      show ?thesis
      proof (cases "i = 0")
        case True
        have "ts ! 0 \<noteq> \<lparr>th_held = [(shard, Exclusive)], th_rest = tl ?p\<rparr>"
        proof
          assume t0: "ts ! 0 = \<lparr>th_held = [(shard, Exclusive)], th_rest = tl ?p\<rparr>"
          then have "m = Exclusive" "l = shard" using acquire(3) True by (simp_all add: log_interaction_locks_def)
          moreover have "ts ! 0 \<in> set ts" using step(3) by simp
          ultimately show False using acquire(4) t0 by (force simp: available_def list_all_iff)
        qed
        then show ?thesis using step(3) acquire True by (auto simp: log_interaction_locks_def)
      next
        case False
        then show ?thesis using step(3) acquire by simp
      qed
    next
      case (release i l p)
      then show ?thesis using step(3) by (cases "i = 0") (auto simp: log_interaction_locks_def)
    qed
  qed
  then show ?thesis
    by (cases ts) (auto simp: log_interaction_locks_def threads_done_def)
qed

theorem log_interaction_blocks_witness:
  "\<exists>ts. lock_step\<^sup>*\<^sup>* (start_threads [log_interaction_locks (0::nat) True]) ts \<and> \<not> threads_done ts"
  using log_interaction_blocks[of "0::nat" "[]" "start_threads [log_interaction_locks 0 True]"] by blast

section \<open>Bans\<close>

text \<open>The operations of others on the ban list of a peer \<open>p\<close>: queries, passes of the clean-up,
  updates and removals of peers, and bans and pardons of other peers.\<close>

datatype ('a, 'i) ban_op =
    QueryBan instant peer_id
  | CleanBans instant
  | UpdatePeer int peer_id "('a, 'i) peer_info"
  | RemovePeer peer_id string
  | BanPeer instant peer_id string "duration option"
  | UnbanPeer peer_id

primrec ban_step :: "('a, 'i) ban_op \<Rightarrow> ('k, 'a, 'i) peer_manager \<Rightarrow> ('k, 'a, 'i) peer_manager" where
  "ban_step (QueryBan now p) mg = snd (is_banned now p mg)"
| "ban_step (CleanBans now) mg = ban_cleanup now mg"
| "ban_step (UpdatePeer wall p info) mg = update_peer wall p info mg"
| "ban_step (RemovePeer p reason) mg = remove_peer p reason mg"
| "ban_step (BanPeer now p reason dur) mg = ban_peer now p reason dur mg"
| "ban_step (UnbanPeer p) mg = unban_peer p mg"

primrec leaves_ban :: "peer_id \<Rightarrow> instant \<Rightarrow> ('a, 'i) ban_op \<Rightarrow> bool" where
  "leaves_ban p t (QueryBan now q) \<longleftrightarrow> now \<le> t"
| "leaves_ban p t (CleanBans now) \<longleftrightarrow> now \<le> t"
| "leaves_ban p t (UpdatePeer wall q info) \<longleftrightarrow> True"
| "leaves_ban p t (RemovePeer q reason) \<longleftrightarrow> True"
| "leaves_ban p t (BanPeer now q reason dur) \<longleftrightarrow> q \<noteq> p"
| "leaves_ban p t (UnbanPeer q) \<longleftrightarrow> q \<noteq> p"

lemma remove_peer_banned [simp]: "mg_banned (remove_peer p r mg) = mg_banned mg"
  by (simp add: remove_peer_def emit_def)

lemma ban_peer_banned:
  "mg_banned (ban_peer now p r dur mg) = hm_insert p (map_option (\<lambda>d. now + int d) dur) (mg_banned mg)"
  by (simp add: ban_peer_def Let_def emit_def)

lemma unban_peer_banned: "hm_get (mg_banned (unban_peer q mg)) = (hm_get (mg_banned mg))(q := None)"
  by (auto simp: unban_peer_def emit_def)

lemma unban_peers_banned:
  "hm_get (mg_banned (fold unban_peer qs mg)) p = (if p \<in> set qs then None else hm_get (mg_banned mg) p)"
  by (induction qs arbitrary: mg) (auto simp: unban_peer_banned)

text \<open>An entry stays as it is until its time, after which it may be dropped.\<close>

definition ban_stands :: "instant \<Rightarrow> peer_id \<Rightarrow> instant option \<Rightarrow> ('k, 'a, 'i) peer_manager \<Rightarrow> bool" where
  "ban_stands t p expiry mg \<longleftrightarrow> hm_wf (mg_banned mg)
     \<and> (hm_get (mg_banned mg) p = Some expiry
        \<or> (hm_get (mg_banned mg) p = None \<and> (\<exists>x. expiry = Some x \<and> x \<le> t)))"

lemma unban_peers_wf: "hm_wf (mg_banned mg) \<Longrightarrow> hm_wf (mg_banned (fold unban_peer qs mg))"
  by (induction qs arbitrary: mg) (auto simp: unban_peer_def emit_def)

lemma ban_step_stands:
  assumes "ban_stands t p expiry mg" and "leaves_ban p t op"
  shows "ban_stands t p expiry (ban_step op mg)"
proof (cases op)
  case (CleanBans now)
  let ?qs = "map fst (filter (\<lambda>(_, x). case x of None \<Rightarrow> False | Some y \<Rightarrow> y \<le> now) (mg_banned mg))"
  have wf: "hm_wf (mg_banned mg)" using assms(1) by (simp add: ban_stands_def)
  have "\<exists>y. expiry = Some y \<and> y \<le> t" if "p \<in> set ?qs" "hm_get (mg_banned mg) p = Some expiry"
  proof -
    obtain x where "(p, x) \<in> set (mg_banned mg)" "case x of None \<Rightarrow> False | Some y \<Rightarrow> y \<le> now"
      using \<open>p \<in> set ?qs\<close> by auto
    then show ?thesis using that(2) wf assms(2) CleanBans
      by (auto simp: hm_in_set_iff split: option.splits)
  qed
  then show ?thesis
    using assms(1) CleanBans unban_peers_wf[OF wf, of ?qs]
    by (auto simp: ban_cleanup_def ban_stands_def unban_peers_banned)
qed (use assms in \<open>auto simp: ban_stands_def is_banned_def update_peer_def emit_def Let_def ban_peer_banned
       unban_peer_banned unban_peer_def remove_peer_def split: option.splits if_splits\<close>)

lemma ban_run_stands:
  "ban_stands t p expiry mg \<Longrightarrow> \<forall>op\<in>set ops. leaves_ban p t op \<Longrightarrow> ban_stands t p expiry (fold ban_step ops mg)"
  by (induction ops arbitrary: mg) (auto simp: ban_step_stands)

text \<open>C35: a peer banned for a duration is reported as banned exactly until the duration is over, and a
  peer banned without one always, whatever queries, clean-ups and other peers' bans come in
  between; times of these operations are not later than that of the question.\<close>

theorem ban_lasts_exactly:
  assumes "hm_wf (mg_banned mg)"
    and "\<forall>op\<in>set ops. leaves_ban p t op"
  shows "fst (is_banned t p (fold ban_step ops (ban_peer now p reason dur mg))) \<longleftrightarrow>
    (case dur of None \<Rightarrow> True | Some d \<Rightarrow> t < now + int d)"
proof -
  let ?x = "map_option (\<lambda>d. now + int d) dur"
  have "ban_stands t p ?x (ban_peer now p reason dur mg)"
    using assms(1) by (simp add: ban_stands_def ban_peer_banned)
  then have "ban_stands t p ?x (fold ban_step ops (ban_peer now p reason dur mg))"
    using assms(2) by (rule ban_run_stands)
  then show ?thesis by (cases dur) (auto simp: ban_stands_def is_banned_def split: if_splits)
qed


theorem ban_lasts_exactly_witness:
  "let mg = ban_peer 0 [1] ''late'' (Some 10) (manager_create (InstancePublicKeys [1::nat]));
       ops = [QueryBan 9 [1], BanPeer 3 [2] ''late'' None, CleanBans 9] :: (nat, nat) ban_op list
   in fst (is_banned 9 [1] (fold ban_step ops mg)) \<and> \<not> fst (is_banned 10 [1] (fold ban_step ops mg))"
  using ban_lasts_exactly[of "manager_create (InstancePublicKeys [1::nat]) :: (nat, nat, nat) peer_manager"
      "[QueryBan 9 [1], BanPeer 3 [2] ''late'' None, CleanBans 9]" "[1]" 9 0 "''late''" "Some 10"]
    ban_lasts_exactly[of "manager_create (InstancePublicKeys [1::nat]) :: (nat, nat, nat) peer_manager"
      "[QueryBan 9 [1], BanPeer 3 [2] ''late'' None, CleanBans 9]" "[1]" 10 0 "''late''" "Some 10"]
  unfolding Let_def by (simp add: manager_create_def)

end
