(* ===== verification/Blueprint_Handshake.thy ===== *)
theory Blueprint_Handshake
  imports Peer_Manager
begin

text \<open>
  The blueprint protocol of \<open>crates/networking/src/blueprint_protocol\<close>: the handshake that verifies
  peers, the per-peer rate limit, and the forwarding of direct and gossiped messages to the
  protocol handler. The transport of libp2p is left out: its events are the inputs, and what
  is sent goes to a log. The clock readings of a handler are the fields of \<open>readings\<close>. A handler
  returns \<open>None\<close> when it panics.
\<close>

section \<open>Messages\<close>

record handshake_message =
  hm_sender :: peer_id
  hm_timestamp :: "128 word"

definition handshake_max_age :: "128 word" where
  "handshake_max_age = 30000"

definition handshake_is_expired :: "128 word \<Rightarrow> 128 word \<Rightarrow> handshake_message \<Rightarrow> bool" where
  "handshake_is_expired now max_age msg \<longleftrightarrow>
     (if hm_timestamp msg \<le> now then now - hm_timestamp msg else 0) > max_age"

definition be_bytes_u128 :: "128 word \<Rightarrow> bytes" where
  "be_bytes_u128 w = map (\<lambda>i. ucast (drop_bit (8 * (15 - i)) w)) [0..<16]"

definition handshake_bytes :: "peer_id \<Rightarrow> handshake_message \<Rightarrow> bytes" where
  "handshake_bytes other msg = hm_sender msg @ other @ be_bytes_u128 (hm_timestamp msg)"

datatype ('k, 'sig) instance_request =
    HandshakeRequest "'k verification_key" 'sig handshake_message
  | ProtocolRequest string bytes "bytes option"

datatype ('k, 'sig) instance_response =
    HandshakeResponse "'k verification_key" 'sig handshake_message
  | SuccessResponse string "bytes option"
  | ErrorResponse u16 string

section \<open>Behaviour\<close>

record readings =
  rd_age :: "128 word"
  rd_new :: "128 word"
  rd_wall :: int
  rd_pending :: instant
  rd_ban :: instant
  rd_rate :: instant
  rd_expiry :: instant

record ('sk, 'k, 'sig, 'a, 'i) behaviour =
  bh_manager :: "('k, 'a, 'i) peer_manager"
  bh_local_peer :: peer_id
  bh_key_pair :: 'sk
  bh_inbound :: "(peer_id, instant) hmap"
  bh_outbound :: "(peer_id, instant) hmap"
  bh_forwarded :: "protocol_message list"
  bh_receiver_alive :: bool
  bh_use_address :: bool
  bh_rates :: "(peer_id, instant \<times> u32) hmap"
  bh_rate_cleanup :: instant
  bh_requests :: "(peer_id \<times> ('k, 'sig) instance_request) list"
  bh_responses :: "(peer_id \<times> ('k, 'sig) instance_response) list"

text \<open>\<open>decode\<close> is the canonical codec, \<open>debug\<close> the \<open>Debug\<close> rendering of a response.\<close>

record ('k, 'sig) wire_ops =
  wo_decode :: "bytes \<Rightarrow> string + protocol_message"
  wo_debug :: "('k, 'sig) instance_response \<Rightarrow> string"

definition sign_handshake ::
  "('sk, 'k, 'sig) key_ops \<Rightarrow> 'sk \<Rightarrow> peer_id \<Rightarrow> handshake_message \<Rightarrow> 'sig option" where
  "sign_handshake K key_pair peer msg =
     (case ko_sign K key_pair (handshake_bytes peer msg) of Inr s \<Rightarrow> Some s | Inl _ \<Rightarrow> None)"

definition send_request ::
  "peer_id \<Rightarrow> ('k, 'sig) instance_request \<Rightarrow> ('sk, 'k, 'sig, 'a, 'i) behaviour \<Rightarrow>
    ('sk, 'k, 'sig, 'a, 'i) behaviour" where
  "send_request peer request b = b\<lparr>bh_requests := bh_requests b @ [(peer, request)]\<rparr>"

text \<open>\<open>channel\<close>: the response channel of the request is still open.\<close>

definition send_response ::
  "bool \<Rightarrow> peer_id \<Rightarrow> ('k, 'sig) instance_response \<Rightarrow> ('sk, 'k, 'sig, 'a, 'i) behaviour \<Rightarrow>
    bool \<times> ('sk, 'k, 'sig, 'a, 'i) behaviour" where
  "send_response channel peer response b =
     (if channel then (True, b\<lparr>bh_responses := bh_responses b @ [(peer, response)]\<rparr>) else (False, b))"

definition send_handshake ::
  "('sk, 'k, 'sig) key_ops \<Rightarrow> readings \<Rightarrow> peer_id \<Rightarrow> ('sk, 'k, 'sig, 'a, 'i) behaviour \<Rightarrow>
    ('sk, 'k, 'sig, 'a, 'i) behaviour option" where
  "send_handshake K rd peer b =
     (let public_key = ko_public K (bh_key_pair b);
          msg = \<lparr>hm_sender = bh_local_peer b, hm_timestamp = rd_new rd\<rparr>
      in case sign_handshake K (bh_key_pair b) peer msg of
           None \<Rightarrow> Some b
         | Some signature \<Rightarrow>
             if bh_use_address b
             then map_option (\<lambda>address. send_request peer (HandshakeRequest (EvmAddress address) signature msg) b)
                    (get_address_from_compressed_pubkey K (ko_key_bytes K public_key))
             else Some (send_request peer (HandshakeRequest (InstancePublicKey public_key) signature msg) b))"

definition verify_handshake ::
  "('sk, 'k, 'sig) key_ops \<Rightarrow> readings \<Rightarrow> handshake_message \<Rightarrow> 'k verification_key \<Rightarrow> 'sig \<Rightarrow>
    ('sk, 'k, 'sig, 'a, 'i) behaviour \<Rightarrow> (('k, 'sig) instance_response + unit) option" where
  "verify_handshake K rd msg key signature b =
     (if handshake_is_expired (rd_age rd) handshake_max_age msg
      then Some (Inl (ErrorResponse 400 ''Handshake message expired''))
      else case verification_key_verify K (handshake_bytes (bh_local_peer b) msg) (ko_sig_bytes K signature) key of
             Inl VerifyPanic \<Rightarrow> None
           | Inl (VerifyError e) \<Rightarrow> Some (Inl (ErrorResponse 400 (''Invalid handshake signature: '' @ e)))
           | Inr valid \<Rightarrow>
               if \<not> valid then Some (Inl (ErrorResponse 400 ''Invalid handshake signature''))
               else Some (Inr ()))"

definition handle_handshake ::
  "('sk, 'k, 'sig) key_ops \<Rightarrow> readings \<Rightarrow> handshake_message \<Rightarrow> 'k verification_key \<Rightarrow> 'sig \<Rightarrow>
    ('sk, 'k, 'sig, 'a, 'i) behaviour \<Rightarrow>
    ((('k, 'sig) instance_response + unit) \<times> ('sk, 'k, 'sig, 'a, 'i) behaviour) option" where
  "handle_handshake K rd msg key signature b =
     (case verify_handshake K rd msg key signature b of
        None \<Rightarrow> None
      | Some (Inl e) \<Rightarrow> Some (Inl e, b)
      | Some (Inr _) \<Rightarrow>
          Some (Inr (), b\<lparr>bh_manager := link_peer_id_to_verification_id_key (hm_sender msg) key (bh_manager b)\<rparr>))"

definition handle_handshake_failure ::
  "readings \<Rightarrow> peer_id \<Rightarrow> string \<Rightarrow> ('sk, 'k, 'sig, 'a, 'i) behaviour \<Rightarrow> ('sk, 'k, 'sig, 'a, 'i) behaviour" where
  "handle_handshake_failure rd peer reason b =
     (case get_peer_info peer (bh_manager b) of
        None \<Rightarrow> b
      | Some info \<Rightarrow>
          (let info' = info\<lparr>pi_failures := pi_failures info + 1\<rparr>;
               mg = update_peer (rd_wall rd) peer info' (bh_manager b)
           in b\<lparr>bh_manager :=
                  (if 3 \<le> pi_failures info' then ban_peer (rd_ban rd) peer reason (Some (300 * 10 ^ 9)) mg
                   else mg)\<rparr>))"

definition complete_handshake ::
  "peer_id \<Rightarrow> 'k verification_key \<Rightarrow> ('sk, 'k, 'sig, 'a, 'i) behaviour \<Rightarrow> ('sk, 'k, 'sig, 'a, 'i) behaviour" where
  "complete_handshake peer key b =
     b\<lparr>bh_inbound := hm_remove peer (bh_inbound b),
       bh_outbound := hm_remove peer (bh_outbound b),
       bh_manager := verify_peer peer (link_peer_id_to_verification_id_key peer key (bh_manager b))\<rparr>"

section \<open>Rate limit\<close>

definition rate_window :: duration where
  "rate_window = 10 * 10 ^ 9"

definition rate_cleanup_interval :: duration where
  "rate_cleanup_interval = 60 * 10 ^ 9"

text \<open>\<open>now.duration_since(then)\<close>, which is zero when \<open>then\<close> is later.\<close>

definition since :: "instant \<Rightarrow> instant \<Rightarrow> duration" where
  "since now earlier = nat (now - earlier)"

definition check_peer_rate_limit ::
  "instant \<Rightarrow> peer_id \<Rightarrow> ('sk, 'k, 'sig, 'a, 'i) behaviour \<Rightarrow> bool \<times> ('sk, 'k, 'sig, 'a, 'i) behaviour" where
  "check_peer_rate_limit now peer b0 =
     (let b = (if since now (bh_rate_cleanup b0) > rate_cleanup_interval
               then b0\<lparr>bh_rates := hm_retain (\<lambda>_ (start, _). since now start < rate_window) (bh_rates b0),
                       bh_rate_cleanup := now\<rparr>
               else b0);
          (start, count) = (case hm_get (bh_rates b) peer of None \<Rightarrow> (now, 0) | Some e \<Rightarrow> e)
      in if since now start > rate_window
         then (True, b\<lparr>bh_rates := hm_insert peer (now, 1) (bh_rates b)\<rparr>)
         else (\<not> 100 < count + 1, b\<lparr>bh_rates := hm_insert peer (start, count + 1) (bh_rates b)\<rparr>))"

section \<open>Handlers\<close>

definition forward ::
  "protocol_message \<Rightarrow> ('sk, 'k, 'sig, 'a, 'i) behaviour \<Rightarrow> ('sk, 'k, 'sig, 'a, 'i) behaviour" where
  "forward m b = (if bh_receiver_alive b then b\<lparr>bh_forwarded := bh_forwarded b @ [m]\<rparr> else b)"

definition check_expired_handshakes ::
  "instant \<Rightarrow> ('sk, 'k, 'sig, 'a, 'i) behaviour \<Rightarrow> ('sk, 'k, 'sig, 'a, 'i) behaviour" where
  "check_expired_handshakes now b =
     b\<lparr>bh_inbound := hm_retain (\<lambda>_ t. \<not> since now t > 30 * 10 ^ 9) (bh_inbound b),
       bh_outbound := hm_retain (\<lambda>_ t. \<not> since now t > 30 * 10 ^ 9) (bh_outbound b)\<rparr>"

text \<open>The result of a branch: whether the function goes on to the check of expired handshakes.\<close>

definition on_handshake_request ::
  "('sk, 'k, 'sig) key_ops \<Rightarrow> ('k, 'sig) wire_ops \<Rightarrow> readings \<Rightarrow> peer_id \<Rightarrow> 'k verification_key \<Rightarrow> 'sig \<Rightarrow>
    handshake_message \<Rightarrow> bool \<Rightarrow> ('sk, 'k, 'sig, 'a, 'i) behaviour \<Rightarrow>
    (bool \<times> ('sk, 'k, 'sig, 'a, 'i) behaviour) option" where
  "on_handshake_request K W rd peer key signature msg channel b =
     (if \<not> is_key_whitelisted key (bh_manager b)
      then Some (False, b\<lparr>bh_manager := handle_nonwhitelisted_peer (rd_ban rd) peer (bh_manager b)\<rparr>)
      else case verify_handshake K rd msg key signature b of
             None \<Rightarrow> None
           | Some (Inl e) \<Rightarrow>
               Some (True, snd (send_response channel peer
                                  (ErrorResponse 400 (''Invalid handshake: '' @ wo_debug W e)) b))
           | Some (Inr _) \<Rightarrow>
               (let b1 = b\<lparr>bh_inbound := hm_insert peer (rd_pending rd) (bh_inbound b),
                           bh_manager := link_peer_id_to_verification_id_key peer key (bh_manager b)\<rparr>;
                    public_key = ko_public K (bh_key_pair b);
                    self_key =
                      (if bh_use_address b
                       then EvmAddress (drop 12 (ko_keccak K (ko_key_bytes K public_key)))
                       else InstancePublicKey public_key);
                    reply = \<lparr>hm_sender = bh_local_peer b, hm_timestamp = rd_new rd\<rparr>
                in case sign_handshake K (bh_key_pair b) peer reply of
                     None \<Rightarrow> Some (False, b1)
                   | Some s \<Rightarrow>
                       (let (sent, b2) = send_response channel peer (HandshakeResponse self_key s reply) b1
                        in if \<not> sent then Some (False, b2)
                           else Some (True, complete_handshake peer key b2))))"

definition on_handshake_response ::
  "('sk, 'k, 'sig) key_ops \<Rightarrow> readings \<Rightarrow> peer_id \<Rightarrow> 'k verification_key \<Rightarrow> 'sig \<Rightarrow>
    handshake_message \<Rightarrow> ('sk, 'k, 'sig, 'a, 'i) behaviour \<Rightarrow>
    (bool \<times> ('sk, 'k, 'sig, 'a, 'i) behaviour) option" where
  "on_handshake_response K rd peer key signature msg b =
     (if is_peer_verified peer (bh_manager b) then Some (False, b)
      else let b1 = b\<lparr>bh_outbound := hm_remove peer (bh_outbound b)\<rparr>
           in if \<not> is_key_whitelisted key (bh_manager b1)
              then Some (False, b1\<lparr>bh_manager := handle_nonwhitelisted_peer (rd_ban rd) peer (bh_manager b1)\<rparr>)
              else case verify_handshake K rd msg key signature b1 of
                     None \<Rightarrow> None
                   | Some (Inr _) \<Rightarrow> Some (True, complete_handshake peer key b1)
                   | Some (Inl e) \<Rightarrow>
                       Some (True, handle_handshake_failure rd peer ''Invalid handshake verification''
                                     (b1\<lparr>bh_outbound := hm_remove peer (bh_outbound b1)\<rparr>)))"

definition on_protocol_request ::
  "('k, 'sig) wire_ops \<Rightarrow> readings \<Rightarrow> peer_id \<Rightarrow> bytes \<Rightarrow> bool \<Rightarrow>
    ('sk, 'k, 'sig, 'a, 'i) behaviour \<Rightarrow> bool \<times> ('sk, 'k, 'sig, 'a, 'i) behaviour" where
  "on_protocol_request W rd peer payload channel b =
     (if peer = bh_local_peer b then (False, b)
      else if \<not> is_peer_verified peer (bh_manager b)
      then (False, snd (send_response channel peer (ErrorResponse 403 ''Handshake required'') b))
      else let (ok, b1) = check_peer_rate_limit (rd_rate rd) peer b
           in if \<not> ok then (False, b1)
              else case wo_decode W payload of
                     Inl e \<Rightarrow> (False, snd (send_response channel peer
                                       (ErrorResponse 400 (''Invalid protocol message: '' @ e)) b1))
                   | Inr m \<Rightarrow> (True, forward m b1))"

text \<open>The events of the request-response protocol; other events do nothing but the final check.\<close>

datatype ('k, 'sig) rr_event =
    Request peer_id "('k, 'sig) instance_request" bool
  | Response peer_id "('k, 'sig) instance_response"
  | OtherEvent

definition handle_request_response_event ::
  "('sk, 'k, 'sig) key_ops \<Rightarrow> ('k, 'sig) wire_ops \<Rightarrow> readings \<Rightarrow> ('k, 'sig) rr_event \<Rightarrow>
    ('sk, 'k, 'sig, 'a, 'i) behaviour \<Rightarrow> ('sk, 'k, 'sig, 'a, 'i) behaviour option" where
  "handle_request_response_event K W rd ev b =
     map_option (\<lambda>(go_on, b'). if go_on then check_expired_handshakes (rd_expiry rd) b' else b')
       (case ev of
          Request peer (HandshakeRequest key signature msg) channel \<Rightarrow>
            on_handshake_request K W rd peer key signature msg channel b
        | Response peer (HandshakeResponse key signature msg) \<Rightarrow>
            on_handshake_response K rd peer key signature msg b
        | Request peer (ProtocolRequest protocol payload metadata) channel \<Rightarrow>
            Some (on_protocol_request W rd peer payload channel b)
        | Response peer (ErrorResponse code message) \<Rightarrow> Some (is_peer_verified peer (bh_manager b), b)
        | Response peer (SuccessResponse protocol data) \<Rightarrow> Some (True, b)
        | OtherEvent \<Rightarrow> Some (True, b))"

definition handle_gossip_message ::
  "('k, 'sig) wire_ops \<Rightarrow> readings \<Rightarrow> peer_id \<Rightarrow> bytes \<Rightarrow>
    ('sk, 'k, 'sig, 'a, 'i) behaviour \<Rightarrow> ('sk, 'k, 'sig, 'a, 'i) behaviour" where
  "handle_gossip_message W rd source data b =
     (if \<not> is_peer_verified source (bh_manager b) then b
      else let (ok, b1) = check_peer_rate_limit (rd_rate rd) source b
           in if \<not> ok then b1
              else case wo_decode W data of Inl _ \<Rightarrow> b1 | Inr m \<Rightarrow> forward m b1)"

definition on_connection_established ::
  "('sk, 'k, 'sig) key_ops \<Rightarrow> readings \<Rightarrow> peer_id \<Rightarrow> ('sk, 'k, 'sig, 'a, 'i) behaviour \<Rightarrow>
    ('sk, 'k, 'sig, 'a, 'i) behaviour option" where
  "on_connection_established K rd peer b =
     (if \<not> is_peer_verified peer (bh_manager b)
      then map_option (\<lambda>b'. b'\<lparr>bh_outbound := hm_insert peer (rd_pending rd) (bh_outbound b')\<rparr>)
             (send_handshake K rd peer b)
      else Some b)"

definition on_connection_closed ::
  "peer_id \<Rightarrow> ('sk, 'k, 'sig, 'a, 'i) behaviour \<Rightarrow> ('sk, 'k, 'sig, 'a, 'i) behaviour" where
  "on_connection_closed peer b =
     (let mg = bh_manager b;
          mg1 = (if is_peer_verified peer mg then remove_peer peer ''connection closed'' mg else mg)
      in b\<lparr>bh_inbound := hm_remove peer (bh_inbound b),
           bh_outbound := hm_remove peer (bh_outbound b),
           bh_manager := remove_peer_id_from_verification_id_key peer mg1\<rparr>)"

section \<open>Runs\<close>

text \<open>What may happen to the behaviour and its peer manager, with the clock readings at the time.\<close>

datatype ('k, 'sig, 'a, 'i) net_event =
    RequestResponse "('k, 'sig) rr_event"
  | Gossip peer_id bytes
  | Connected peer_id
  | Closed peer_id
  | AllowedKeys "'k allowed_keys"
  | ManagerOp "('a, 'i) ban_op"

primrec net_step ::
  "('sk, 'k, 'sig) key_ops \<Rightarrow> ('k, 'sig) wire_ops \<Rightarrow> readings \<Rightarrow> ('sk, 'k, 'sig, 'a, 'i) behaviour \<Rightarrow>
    ('k, 'sig, 'a, 'i) net_event \<Rightarrow> ('sk, 'k, 'sig, 'a, 'i) behaviour option" where
  "net_step K W rd b (RequestResponse ev) = handle_request_response_event K W rd ev b"
| "net_step K W rd b (Gossip source data) = Some (handle_gossip_message W rd source data b)"
| "net_step K W rd b (Connected peer) = on_connection_established K rd peer b"
| "net_step K W rd b (Closed peer) = Some (on_connection_closed peer b)"
| "net_step K W rd b (AllowedKeys keys) =
     Some (b\<lparr>bh_manager := run_allowed_keys_updater [keys] (bh_manager b)\<rparr>)"
| "net_step K W rd b (ManagerOp op) = Some (b\<lparr>bh_manager := ban_step op (bh_manager b)\<rparr>)"

fun net_run ::
  "('sk, 'k, 'sig) key_ops \<Rightarrow> ('k, 'sig) wire_ops \<Rightarrow> ('sk, 'k, 'sig, 'a, 'i) behaviour \<Rightarrow>
    (readings \<times> ('k, 'sig, 'a, 'i) net_event) list \<Rightarrow> ('sk, 'k, 'sig, 'a, 'i) behaviour option" where
  "net_run K W b [] = Some b"
| "net_run K W b ((rd, ev) # evs) =
     (case net_step K W rd b ev of None \<Rightarrow> None | Some b' \<Rightarrow> net_run K W b' evs)"

end
