(* ===== verification/Blueprint_Correct.thy ===== *)
theory Blueprint_Correct
  imports Blueprint_Handshake
begin

text \<open>
  Properties of the handshake and of the rate limit: messages reach the protocol handler only
  from peers that presented a whitelisted key with a valid signature; what the handshake does
  not tie down; and how many messages of a peer pass in a time window.
\<close>

section \<open>Authentication\<close>

definition authentic ::
  "('sk, 'k, 'sig) key_ops \<Rightarrow> readings \<Rightarrow> peer_id \<Rightarrow> 'k verification_key \<Rightarrow> 'sig \<Rightarrow> handshake_message \<Rightarrow> bool" where
  "authentic K rd self key signature msg \<longleftrightarrow>
     \<not> handshake_is_expired (rd_age rd) handshake_max_age msg
     \<and> verification_key_verify K (handshake_bytes self msg) (ko_sig_bytes K signature) key = Inr True"

lemma verify_handshake_Inr:
  "verify_handshake K rd msg key signature b = Some (Inr u) \<longleftrightarrow>
     authentic K rd (bh_local_peer b) key signature msg"
  by (auto simp: verify_handshake_def authentic_def split: sum.splits verification_error.splits)

text \<open>The handshake an event carries, and the message an event carries from a peer.\<close>

fun handshake_of ::
  "('k, 'sig, 'a, 'i) net_event \<Rightarrow> (peer_id \<times> 'k verification_key \<times> 'sig \<times> handshake_message) option" where
  "handshake_of (RequestResponse (Request peer (HandshakeRequest key signature msg) channel)) =
     Some (peer, key, signature, msg)"
| "handshake_of (RequestResponse (Response peer (HandshakeResponse key signature msg))) =
     Some (peer, key, signature, msg)"
| "handshake_of _ = None"

fun payload_of :: "('k, 'sig, 'a, 'i) net_event \<Rightarrow> (peer_id \<times> bytes) option" where
  "payload_of (RequestResponse (Request peer (ProtocolRequest protocol payload metadata) channel)) =
     Some (peer, payload)"
| "payload_of (Gossip source data) = Some (source, data)"
| "payload_of _ = None"

abbreviation verified_of :: "('sk, 'k, 'sig, 'a, 'i) behaviour \<Rightarrow> peer_id list" where
  "verified_of b \<equiv> mg_verified (bh_manager b)"

lemma remove_peer_verified [simp]: "mg_verified (remove_peer p r mg) = mg_verified mg"
  by (simp add: remove_peer_def emit_def)

lemma ban_peer_verified [simp]: "mg_verified (ban_peer now p r dur mg) = mg_verified mg"
  by (simp add: ban_peer_def Let_def emit_def)

lemma allowed_keys_verified [simp]: "mg_verified (run_allowed_keys_updater ks mg) = mg_verified mg"
  unfolding run_allowed_keys_updater_def
  by (induction ks arbitrary: mg) (auto simp: insert_whitelisted_keys_def clear_whitelisted_keys_def)

lemma manager_verified [simp]:
  "mg_verified (handle_nonwhitelisted_peer now p mg) = mg_verified mg"
  "mg_verified (update_peer wall p info mg) = mg_verified mg"
  "mg_verified (link_peer_id_to_verification_id_key p key mg) = mg_verified mg"
  "mg_verified (unban_peer p mg) = mg_verified mg"
  "mg_verified (snd (is_banned now p mg)) = mg_verified mg"
  "mg_verified (remove_peer_id_from_verification_id_key p mg) = mg_verified mg"
  by (auto simp: handle_nonwhitelisted_peer_def update_peer_def emit_def Let_def
      link_peer_id_to_verification_id_key_def unban_peer_def is_banned_def
      remove_peer_id_from_verification_id_key_def split: option.splits)

lemma fold_unban_verified [simp]: "mg_verified (fold unban_peer ps mg) = mg_verified mg"
  by (induction ps arbitrary: mg) simp_all

lemma ban_step_verified [simp]: "mg_verified (ban_step op mg) = mg_verified mg"
  by (cases op) (simp_all add: ban_cleanup_def)

lemma rate_limit_frame [simp]:
  "bh_manager (snd (check_peer_rate_limit now p b)) = bh_manager b"
  "bh_forwarded (snd (check_peer_rate_limit now p b)) = bh_forwarded b"
  "bh_local_peer (snd (check_peer_rate_limit now p b)) = bh_local_peer b"
  "bh_receiver_alive (snd (check_peer_rate_limit now p b)) = bh_receiver_alive b"
  by (simp_all add: check_peer_rate_limit_def Let_def case_prod_beta)

lemma frames [simp]:
  "bh_manager (check_expired_handshakes now b) = bh_manager b"
  "bh_forwarded (check_expired_handshakes now b) = bh_forwarded b"
  "bh_local_peer (check_expired_handshakes now b) = bh_local_peer b"
  "bh_manager (snd (send_response ch p r b)) = bh_manager b"
  "bh_forwarded (snd (send_response ch p r b)) = bh_forwarded b"
  "bh_local_peer (snd (send_response ch p r b)) = bh_local_peer b"
  "bh_manager (forward m b) = bh_manager b"
  "bh_local_peer (forward m b) = bh_local_peer b"
  "bh_forwarded (complete_handshake p key b) = bh_forwarded b"
  "bh_local_peer (complete_handshake p key b) = bh_local_peer b"
  "verified_of (complete_handshake p key b) = hs_insert p (verified_of b)"
  by (simp_all add: check_expired_handshakes_def send_response_def forward_def complete_handshake_def verify_peer_def)

lemma failure_frame [simp]:
  "verified_of (handle_handshake_failure rd p r b) = verified_of b"
  "bh_forwarded (handle_handshake_failure rd p r b) = bh_forwarded b"
  "bh_local_peer (handle_handshake_failure rd p r b) = bh_local_peer b"
  by (simp_all add: handle_handshake_failure_def Let_def split: option.split)

text \<open>What one step does to the verified peers and the forwarded messages.\<close>

definition step_effect ::
  "('sk, 'k, 'sig) key_ops \<Rightarrow> ('k, 'sig) wire_ops \<Rightarrow> readings \<Rightarrow> ('k, 'sig, 'a, 'i) net_event \<Rightarrow>
    ('sk, 'k, 'sig, 'a, 'i) behaviour \<Rightarrow> ('sk, 'k, 'sig, 'a, 'i) behaviour \<Rightarrow> bool" where
  "step_effect K W rd ev b b' \<longleftrightarrow>
     bh_local_peer b' = bh_local_peer b
     \<and> (verified_of b' = verified_of b
        \<or> (\<exists>p key signature msg. handshake_of ev = Some (p, key, signature, msg)
             \<and> verified_of b' = hs_insert p (verified_of b) \<and> is_key_whitelisted key (bh_manager b)
             \<and> authentic K rd (bh_local_peer b) key signature msg))
     \<and> (bh_forwarded b' = bh_forwarded b
        \<or> (\<exists>p payload m. payload_of ev = Some (p, payload) \<and> wo_decode W payload = Inr m
             \<and> is_peer_verified p (bh_manager b) \<and> bh_forwarded b' = bh_forwarded b @ [m]))"

lemma request_effect:
  assumes "on_handshake_request K W rd p key signature msg channel b = Some (g, b')"
  shows "step_effect K W rd (RequestResponse (Request p (HandshakeRequest key signature msg) channel)) b b'"
proof (cases "is_key_whitelisted key (bh_manager b)")
  case False
  then show ?thesis using assms by (auto simp: on_handshake_request_def step_effect_def)
next
  case True
  obtain r where r: "verify_handshake K rd msg key signature b = Some r"
    using assms True by (auto simp: on_handshake_request_def split: option.splits)
  show ?thesis
  proof (cases r)
    case (Inl e)
    then show ?thesis using assms True r by (auto simp: on_handshake_request_def step_effect_def)
  next
    case (Inr u)
    then have auth: "authentic K rd (bh_local_peer b) key signature msg"
      using r by (simp add: verify_handshake_Inr)
    then show ?thesis using assms True r Inr
      by (auto simp: on_handshake_request_def step_effect_def Let_def case_prod_beta split: option.splits if_splits)
  qed
qed

lemma response_effect:
  assumes "on_handshake_response K rd p key signature msg b = Some (g, b')"
  shows "step_effect K W rd (RequestResponse (Response p (HandshakeResponse key signature msg))) b b'"
proof (cases "is_peer_verified p (bh_manager b) \<or> \<not> is_key_whitelisted key (bh_manager b)")
  case True
  then show ?thesis using assms
    by (auto simp: on_handshake_response_def step_effect_def Let_def split: if_splits)
next
  case False
  let ?b = "b\<lparr>bh_outbound := hm_remove p (bh_outbound b)\<rparr>"
  obtain r where r: "verify_handshake K rd msg key signature ?b = Some r"
    using assms False by (auto simp: on_handshake_response_def Let_def split: option.splits)
  show ?thesis
  proof (cases r)
    case (Inl e)
    then show ?thesis using assms False r by (auto simp: on_handshake_response_def step_effect_def Let_def)
  next
    case (Inr u)
    then have auth: "authentic K rd (bh_local_peer b) key signature msg"
      using r verify_handshake_Inr[of K rd msg key signature ?b u] by simp
    then show ?thesis using assms False r Inr
      by (auto simp: on_handshake_response_def step_effect_def Let_def)
  qed
qed

lemma protocol_effect:
  assumes "on_protocol_request W rd p payload channel b = (g, b')"
  shows "step_effect K W rd (RequestResponse (Request p (ProtocolRequest protocol payload metadata) channel)) b b'"
  using assms
  by (auto simp: on_protocol_request_def step_effect_def Let_def case_prod_beta forward_def
      split: if_splits sum.splits)

lemma step_effect_expired:
  "step_effect K W rd ev b b' \<Longrightarrow> step_effect K W rd ev b (check_expired_handshakes now b')"
  by (simp add: step_effect_def)

lemma step_effect_refl: "step_effect K W rd ev b b"
  by (simp add: step_effect_def)

lemma event_effect:
  assumes "handle_request_response_event K W rd ev b = Some b'"
  shows "step_effect K W rd (RequestResponse ev) b b'"
proof -
  obtain g c where c: "(case ev of
        Request peer (HandshakeRequest key signature msg) channel \<Rightarrow>
          on_handshake_request K W rd peer key signature msg channel b
      | Response peer (HandshakeResponse key signature msg) \<Rightarrow>
          on_handshake_response K rd peer key signature msg b
      | Request peer (ProtocolRequest protocol payload metadata) channel \<Rightarrow>
          Some (on_protocol_request W rd peer payload channel b)
      | Response peer (ErrorResponse code message) \<Rightarrow> Some (is_peer_verified peer (bh_manager b), b)
      | Response peer (SuccessResponse protocol data) \<Rightarrow> Some (True, b)
      | OtherEvent \<Rightarrow> Some (True, b)) = Some (g, c)"
    and b': "b' = (if g then check_expired_handshakes (rd_expiry rd) c else c)"
    using assms unfolding handle_request_response_event_def by (auto simp: map_option_eq_Some)
  have "step_effect K W rd (RequestResponse ev) b c"
  proof (cases ev)
    case (Request p req ch)
    then show ?thesis using c request_effect protocol_effect by (cases req) fastforce+
  next
    case (Response p resp)
    then show ?thesis using c response_effect step_effect_refl by (cases resp) fastforce+
  next
    case OtherEvent
    then show ?thesis using c step_effect_refl by simp
  qed
  then show ?thesis using b' by (simp add: step_effect_expired)
qed

lemma gossip_effect: "step_effect K W rd (Gossip p data) b (handle_gossip_message W rd p data b)"
  by (auto simp: handle_gossip_message_def step_effect_def Let_def case_prod_beta forward_def split: sum.split)

lemma connected_effect:
  "on_connection_established K rd p b = Some b' \<Longrightarrow> step_effect K W rd (Connected p) b b'"
  by (auto simp: on_connection_established_def send_handshake_def step_effect_def Let_def send_request_def
      split: if_splits option.splits)

lemma net_step_effect:
  assumes "net_step K W rd b ev = Some b'"
  shows "step_effect K W rd ev b b'"
proof (cases ev)
  case (RequestResponse rr)
  then show ?thesis using assms event_effect by simp
next
  case (Gossip p data)
  then show ?thesis using assms gossip_effect by auto
next
  case (Connected p)
  then show ?thesis using assms connected_effect by simp
next
  case (Closed p)
  then show ?thesis using assms by (auto simp: on_connection_closed_def step_effect_def Let_def)
next
  case (AllowedKeys ks)
  then show ?thesis using assms by (auto simp: step_effect_def)
next
  case (ManagerOp op)
  then show ?thesis using assms by (auto simp: step_effect_def)
qed

lemma net_run_append:
  "net_run K W b (evs @ evs') =
     (case net_run K W b evs of None \<Rightarrow> None | Some b' \<Rightarrow> net_run K W b' evs')"
  by (induction K W b evs rule: net_run.induct) (auto split: option.splits)

lemma net_run_snoc:
  assumes "net_run K W b (evs @ [(rd, ev)]) = Some b'"
  obtains c where "net_run K W b evs = Some c" "net_step K W rd c ev = Some b'"
  using assms by (auto simp: net_run_append split: option.splits)

lemma net_run_local: "net_run K W b evs = Some b' \<Longrightarrow> bh_local_peer b' = bh_local_peer b"
proof (induction evs arbitrary: b' rule: rev_induct)
  case (snoc x evs)
  obtain rd ev where x: "x = (rd, ev)" by (rule prod.exhaust)
  obtain c where "net_run K W b evs = Some c" "net_step K W rd c ev = Some b'"
    using snoc(2) x net_run_snoc by blast
  then show ?case using snoc(1) net_step_effect by (fastforce simp: step_effect_def)
qed simp

text \<open>The events before which a peer presented a whitelisted key and a valid signature.\<close>

definition handshaken ::
  "('sk, 'k, 'sig) key_ops \<Rightarrow> ('k, 'sig) wire_ops \<Rightarrow> ('sk, 'k, 'sig, 'a, 'i) behaviour \<Rightarrow>
    (readings \<times> ('k, 'sig, 'a, 'i) net_event) list \<Rightarrow> peer_id \<Rightarrow> bool" where
  "handshaken K W b evs p \<longleftrightarrow>
     (\<exists>pre rd ev post c key signature msg. evs = pre @ (rd, ev) # post \<and> net_run K W b pre = Some c
        \<and> handshake_of ev = Some (p, key, signature, msg) \<and> is_key_whitelisted key (bh_manager c)
        \<and> authentic K rd (bh_local_peer b) key signature msg)"

lemma handshaken_mono: "handshaken K W b evs p \<Longrightarrow> handshaken K W b (evs @ evs') p"
  unfolding handshaken_def by fastforce

lemma verified_handshaken:
  assumes "net_run K W b evs = Some b'" and "verified_of b = []" and "p \<in> set (verified_of b')"
  shows "handshaken K W b evs p"
  using assms(1,3)
proof (induction evs arbitrary: b' rule: rev_induct)
  case Nil
  then show ?case using assms(2) by simp
next
  case (snoc x evs)
  obtain rd ev where x: "x = (rd, ev)" by (rule prod.exhaust)
  obtain c where c: "net_run K W b evs = Some c" "net_step K W rd c ev = Some b'"
    using snoc(2) x net_run_snoc by blast
  note eff = net_step_effect[OF c(2)]
  show ?case
  proof (cases "p \<in> set (verified_of c)")
    case True
    then show ?thesis using snoc(1)[OF c(1)] handshaken_mono x by blast
  next
    case False
    then have "verified_of b' \<noteq> verified_of c" using snoc(3) by auto
    then obtain q key signature msg where q: "handshake_of ev = Some (q, key, signature, msg)"
        "verified_of b' = hs_insert q (verified_of c)" "is_key_whitelisted key (bh_manager c)"
        "authentic K rd (bh_local_peer c) key signature msg"
      using eff unfolding step_effect_def by blast
    have "p = q" using False snoc(3) q(2) by simp
    then show ?thesis
      using q c(1) net_run_local[OF c(1)] x unfolding handshaken_def by (metis append_Nil2)
  qed
qed

text \<open>C6: every message that reaches the protocol handler was sent by a peer that had before presented
  a whitelisted key together with a handshake message that was not expired and a signature
  that verifies under the key for that message and this node. This holds after any sequence
  of network events, changes of the whitelist and operations of the peer manager.\<close>

theorem only_handshaken_peers_heard:
  assumes "net_run K W b evs = Some b'" and "verified_of b = []" and "bh_forwarded b = []"
    and "m \<in> set (bh_forwarded b')"
  shows "\<exists>pre rd ev post p payload. evs = pre @ (rd, ev) # post \<and> payload_of ev = Some (p, payload)
    \<and> wo_decode W payload = Inr m \<and> handshaken K W b pre p"
  using assms(1,4)
proof (induction evs arbitrary: b' rule: rev_induct)
  case Nil
  then show ?case using assms(3) by simp
next
  case (snoc x evs)
  obtain rd ev where x: "x = (rd, ev)" by (rule prod.exhaust)
  obtain c where c: "net_run K W b evs = Some c" "net_step K W rd c ev = Some b'"
    using snoc(2) x net_run_snoc by blast
  note eff = net_step_effect[OF c(2)]
  show ?case
  proof (cases "m \<in> set (bh_forwarded c)")
    case True
    then obtain pre rd' ev' post p payload where "evs = pre @ (rd', ev') # post"
        "payload_of ev' = Some (p, payload)" "wo_decode W payload = Inr m" "handshaken K W b pre p"
      using snoc(1)[OF c(1)] by blast
    then show ?thesis by fastforce
  next
    case False
    then have "bh_forwarded b' \<noteq> bh_forwarded c" using snoc(3) by auto
    then obtain p payload m' where p: "payload_of ev = Some (p, payload)" "wo_decode W payload = Inr m'"
        "is_peer_verified p (bh_manager c)" "bh_forwarded b' = bh_forwarded c @ [m']"
      using eff unfolding step_effect_def by blast
    have "m' = m" using False snoc(3) p(4) by simp
    moreover have "handshaken K W b evs p"
      using verified_handshaken[OF c(1) assms(2)] p(3) by (simp add: is_peer_verified_def)
    ultimately show ?thesis using p(1,2) x by blast
  qed
qed


section \<open>A concrete node\<close>

text \<open>Keys are numbers and a signature is the key's number before the message. Node \<open>[0]\<close> has the
  keys of the nodes \<open>[2]\<close> and \<open>[3]\<close> on its whitelist.\<close>

definition demo_keys :: "(nat, nat, bytes) key_ops" where
  "demo_keys =
     \<lparr>ko_parse_rid = Some, ko_parse_signature = Some, ko_recover = (\<lambda>m s r. Some s),
      ko_parse_compressed = Some, ko_keccak = id, ko_public = id,
      ko_sign = (\<lambda>k m. Inr (of_nat k # m)), ko_verify = (\<lambda>k m s. s = of_nat k # m),
      ko_key_bytes = (\<lambda>k. [of_nat k]), ko_sig_bytes = id, ko_sig_of_bytes = Inr\<rparr>"

definition demo_message :: "bytes \<Rightarrow> protocol_message" where
  "demo_message payload =
     \<lparr>pm_protocol = ''demo'', pm_routing = \<lparr>mr_message_id = 0, mr_round_id = 0, mr_sender = [2],
        mr_recipient = None\<rparr>, pm_payload = payload\<rparr>"

definition demo_wire :: "(nat, bytes) wire_ops" where
  "demo_wire = \<lparr>wo_decode = (\<lambda>payload. Inr (demo_message payload)), wo_debug = (\<lambda>_. [])\<rparr>"

definition demo_readings :: readings where
  "demo_readings = \<lparr>rd_age = 1000, rd_new = 1000, rd_wall = 0, rd_pending = 0, rd_ban = 0, rd_rate = 0, rd_expiry = 0\<rparr>"

definition demo_node :: "(nat, nat, bytes, nat, nat) behaviour" where
  "demo_node =
     \<lparr>bh_manager = manager_create (InstancePublicKeys [2, 3]), bh_local_peer = [0], bh_key_pair = 1,
      bh_inbound = [], bh_outbound = [], bh_forwarded = [], bh_receiver_alive = True,
      bh_use_address = False, bh_rates = [], bh_rate_cleanup = 0, bh_requests = [], bh_responses = []\<rparr>"

definition demo_handshake :: handshake_message where
  "demo_handshake = \<lparr>hm_sender = [2], hm_timestamp = 900\<rparr>"

definition demo_signature :: bytes where
  "demo_signature = 2 # handshake_bytes [0] demo_handshake"

definition demo_hello :: "peer_id \<Rightarrow> readings \<times> (nat, bytes, nat, nat) net_event" where
  "demo_hello p = (demo_readings, RequestResponse
     (Request p (HandshakeRequest (InstancePublicKey 2) demo_signature demo_handshake) True))"

definition demo_say :: "peer_id \<Rightarrow> readings \<times> (nat, bytes, nat, nat) net_event" where
  "demo_say p = (demo_readings, RequestResponse (Request p (ProtocolRequest ''demo'' [5] None) True))"

lemma demo_authentic: "authentic demo_keys demo_readings [0] (InstancePublicKey 2) demo_signature demo_handshake"
  by (simp add: authentic_def handshake_is_expired_def demo_handshake_def demo_readings_def demo_keys_def
      demo_signature_def handshake_max_age_def word_less_nat_alt)

lemmas net_eval = handle_request_response_event_def on_handshake_request_def on_protocol_request_def
  is_key_whitelisted_def is_peer_verified_def send_response_def complete_handshake_def
  link_peer_id_to_verification_id_key_def verify_peer_def check_expired_handshakes_def hs_insert_def
  hm_insert_def hm_remove_def hm_retain_def check_peer_rate_limit_def since_def rate_window_def
  rate_cleanup_interval_def forward_def Let_def manager_create_def demo_hello_def demo_say_def
  demo_node_def demo_wire_def

lemma demo_verify:
  "bh_local_peer b = [0] \<Longrightarrow>
   verify_handshake demo_keys demo_readings demo_handshake (InstancePublicKey 2) demo_signature b = Some (Inr ())"
  using demo_authentic by (simp add: verify_handshake_Inr)

lemma demo_fields:
  "sign_handshake demo_keys k p m = Some (of_nat k # handshake_bytes p m)"
  "ko_public demo_keys k = k" "rd_new demo_readings = 1000" "rd_pending demo_readings = 0"
  "rd_rate demo_readings = 0" "rd_expiry demo_readings = 0"
  by (simp_all add: sign_handshake_def demo_keys_def demo_readings_def)

lemma demo_heard:
  "map_option (\<lambda>b. (verified_of b, bh_forwarded b)) (net_run demo_keys demo_wire demo_node [demo_hello p, demo_say p]) =
     Some ([p], [demo_message [5]])" if "p \<noteq> [0]"
  using that by (auto simp: net_eval demo_verify demo_fields)

theorem only_handshaken_peers_heard_witness:
  "\<exists>b'. net_run demo_keys demo_wire demo_node [demo_hello [2], demo_say [2]] = Some b'
    \<and> bh_forwarded b' = [demo_message [5]]
    \<and> (\<exists>pre rd ev post p payload. [demo_hello [2], demo_say [2]] = pre @ (rd, ev) # post
         \<and> payload_of ev = Some (p, payload) \<and> handshaken demo_keys demo_wire demo_node pre p)"
proof -
  obtain b' where b': "net_run demo_keys demo_wire demo_node [demo_hello [2], demo_say [2]] = Some b'"
      "bh_forwarded b' = [demo_message [5]]"
    using demo_heard[of "[2]"] by (auto simp: map_option_eq_Some)
  have "verified_of demo_node = []" "bh_forwarded demo_node = []"
    by (simp_all add: demo_node_def manager_create_def)
  then show ?thesis
    using only_handshaken_peers_heard[OF b'(1), of "demo_message [5]"] b' by fastforce
qed

section \<open>What the handshake leaves open\<close>

text \<open>C40: a handshake request verifies whatever peer delivers it: the sender named in the signed message
  is not compared with the peer of the connection, which becomes verified and takes over the
  key's place in the map from keys to peers.\<close>

theorem handshake_accepted_from_any_peer:
  assumes "is_key_whitelisted key (bh_manager b)" and "authentic K rd (bh_local_peer b) key signature msg"
    and "\<forall>bytes. \<exists>s. ko_sign K (bh_key_pair b) bytes = Inr s"
  shows "\<exists>b'. net_step K W rd b (RequestResponse (Request p (HandshakeRequest key signature msg) True)) = Some b'
    \<and> is_peer_verified p (bh_manager b') \<and> get_peer_id_from_verification_id_key key (bh_manager b') = Some p"
proof -
  let ?reply = "\<lparr>hm_sender = bh_local_peer b, hm_timestamp = rd_new rd\<rparr>"
  obtain s where "ko_sign K (bh_key_pair b) (handshake_bytes p ?reply) = Inr s" using assms(3) by blast
  then have "sign_handshake K (bh_key_pair b) p ?reply = Some s" by (simp add: sign_handshake_def)
  moreover have "verify_handshake K rd msg key signature b = Some (Inr ())"
    using assms(2) by (simp add: verify_handshake_Inr)
  ultimately show ?thesis
    using assms(1)
    by (simp add: handle_request_response_event_def on_handshake_request_def Let_def send_response_def
        is_peer_verified_def get_peer_id_from_verification_id_key_def complete_handshake_def verify_peer_def
        check_expired_handshakes_def link_peer_id_to_verification_id_key_def)
qed

theorem handshake_accepted_from_any_peer_witness:
  "hm_sender demo_handshake = [2] \<and> (\<exists>b'. net_step demo_keys demo_wire demo_readings demo_node
      (RequestResponse (Request [9] (HandshakeRequest (InstancePublicKey 2) demo_signature demo_handshake) True)) = Some b'
    \<and> is_peer_verified [9] (bh_manager b'))"
proof -
  have "is_key_whitelisted (InstancePublicKey 2) (bh_manager demo_node)"
    by (simp add: demo_node_def is_key_whitelisted_def manager_create_def)
  moreover have "authentic demo_keys demo_readings (bh_local_peer demo_node) (InstancePublicKey 2) demo_signature demo_handshake"
    using demo_authentic by (simp add: demo_node_def)
  moreover have "\<forall>bytes. \<exists>s. ko_sign demo_keys (bh_key_pair demo_node) bytes = Inr s" by (simp add: demo_keys_def)
  ultimately show ?thesis
    using handshake_accepted_from_any_peer[of "InstancePublicKey 2" demo_node demo_keys demo_readings
        demo_signature demo_handshake demo_wire "[9]"]
    by (auto simp: demo_handshake_def)
qed

lemma verified_stays: "net_run K W b evs = Some b' \<Longrightarrow> set (verified_of b) \<subseteq> set (verified_of b')"
proof (induction evs arbitrary: b' rule: rev_induct)
  case (snoc x evs)
  obtain rd ev where x: "x = (rd, ev)" by (rule prod.exhaust)
  obtain c where c: "net_run K W b evs = Some c" "net_step K W rd c ev = Some b'"
    using snoc(2) x net_run_snoc by blast
  show ?case using net_step_effect[OF c(2)] snoc(1)[OF c(1)] unfolding step_effect_def by auto
qed simp

text \<open>Verification is never withdrawn: a verified peer stays verified through bans, removals, the
  closing of its connections and changes of the whitelist, and its messages are still handed
  to the protocol handler.\<close>

theorem verification_outlasts_ban:
  assumes "is_peer_verified p (bh_manager b)" and "net_run K W b evs = Some b'"
    and "p \<noteq> bh_local_peer b" and "fst (check_peer_rate_limit (rd_rate rd) p b')" and "bh_receiver_alive b'"
    and "wo_decode W payload = Inr m"
  shows "is_peer_verified p (bh_manager b')
    \<and> (\<exists>b''. net_step K W rd b' (RequestResponse (Request p (ProtocolRequest protocol payload metadata) channel)) = Some b''
         \<and> bh_forwarded b'' = bh_forwarded b' @ [m])"
proof -
  have ver: "is_peer_verified p (bh_manager b')"
    using assms(1) verified_stays[OF assms(2)] by (auto simp: is_peer_verified_def)
  have "p \<noteq> bh_local_peer b'" using assms(3) net_run_local[OF assms(2)] by simp
  then show ?thesis
    using ver assms(4-6)
    by (auto simp: handle_request_response_event_def on_protocol_request_def Let_def case_prod_beta forward_def)
qed


theorem verification_outlasts_ban_witness:
  "let evs = [demo_hello [2], (demo_readings, ManagerOp (BanPeer 0 [2] ''spam'' None)),
              (demo_readings, AllowedKeys (InstancePublicKeys []))]
   in \<exists>b b'. net_run demo_keys demo_wire demo_node evs = Some b \<and> fst (is_banned 5 [2] (bh_manager b))
      \<and> mg_whitelist (bh_manager b) = []
      \<and> net_run demo_keys demo_wire b [demo_say [2]] = Some b' \<and> bh_forwarded b' = [demo_message [5]]"
proof -
  let ?evs = "[(demo_readings, ManagerOp (BanPeer 0 [2] ''spam'' None)),
      (demo_readings, AllowedKeys (InstancePublicKeys []))] :: (readings \<times> (nat, bytes, nat, nat) net_event) list"
  obtain a where a: "net_run demo_keys demo_wire demo_node [demo_hello [2]] = Some a"
      "is_peer_verified [2] (bh_manager a)" "bh_local_peer a = [0]" "bh_forwarded a = []"
      "bh_receiver_alive a" "bh_rates a = []" "bh_rate_cleanup a = 0"
    by (simp add: net_eval demo_verify demo_fields)
  obtain b where b: "net_run demo_keys demo_wire a ?evs = Some b" "fst (is_banned 5 [2] (bh_manager b))"
      "mg_whitelist (bh_manager b) = []" "bh_forwarded b = []" "bh_receiver_alive b" "bh_rates b = []"
      "bh_rate_cleanup b = 0"
    using a by (simp add: is_banned_def ban_peer_banned run_allowed_keys_updater_def
        insert_whitelisted_keys_def clear_whitelisted_keys_def)
  have rate: "fst (check_peer_rate_limit (rd_rate demo_readings) [2] b)"
    using b by (simp add: check_peer_rate_limit_def Let_def since_def rate_window_def rate_cleanup_interval_def demo_fields)
  have dec: "wo_decode demo_wire [5] = Inr (demo_message [5])" by (simp add: demo_wire_def)
  have ne: "[2] \<noteq> bh_local_peer a" using a(3) by simp
  obtain b' where b': "net_step demo_keys demo_wire demo_readings b
      (RequestResponse (Request [2] (ProtocolRequest ''demo'' [5] None) True)) = Some b'"
      "bh_forwarded b' = bh_forwarded b @ [demo_message [5]]"
    using verification_outlasts_ban[OF a(2) b(1) ne rate b(5) dec, of "''demo''" None True] by blast
  have "net_run demo_keys demo_wire demo_node (demo_hello [2] # ?evs) = Some b"
    using a(1) b(1) net_run_append[of demo_keys demo_wire demo_node "[demo_hello [2]]" ?evs] by simp
  moreover have "net_run demo_keys demo_wire b [demo_say [2]] = Some b'" using b'(1) by (simp add: demo_say_def)
  ultimately show ?thesis using b b' unfolding Let_def by auto
qed

section \<open>Rate limit\<close>

text \<open>The number of accepted requests of \<open>p\<close> in a sequence of checks, given by time and peer.\<close>

fun rate_accepted ::
  "peer_id \<Rightarrow> (instant \<times> peer_id) list \<Rightarrow> ('sk, 'k, 'sig, 'a, 'i) behaviour \<Rightarrow> nat" where
  "rate_accepted p [] b = 0"
| "rate_accepted p ((now, q) # calls) b =
     (let (ok, b') = check_peer_rate_limit now q b
      in (if ok \<and> q = p then 1 else 0) + rate_accepted p calls b')"

text \<open>How many more requests of \<open>p\<close> can pass in a window that starts at \<open>t\<close>.\<close>

definition rate_budget :: "instant \<Rightarrow> (instant \<times> u32) option \<Rightarrow> nat" where
  "rate_budget t e =
     (case e of None \<Rightarrow> 100
      | Some (start, count) \<Rightarrow> (100 - unat count) + (if start < t then 100 else 0))"

definition rate_count :: "(instant \<times> u32) option \<Rightarrow> nat" where
  "rate_count e = (case e of None \<Rightarrow> 0 | Some (start, count) \<Rightarrow> unat count)"

abbreviation rate_entry :: "peer_id \<Rightarrow> ('sk, 'k, 'sig, 'a, 'i) behaviour \<Rightarrow> (instant \<times> u32) option" where
  "rate_entry p b \<equiv> hm_get (bh_rates b) p"

text \<open>The clean-up drops an entry or leaves it; entries of the current window stay.\<close>

lemma rate_cleaned:
  assumes "hm_wf (bh_rates b)" and "t \<le> now" and "now < t + int rate_window"
  obtains c where "check_peer_rate_limit now q b =
      (let (start, count) = (case rate_entry q c of None \<Rightarrow> (now, 0) | Some e \<Rightarrow> e)
       in if since now start > rate_window
          then (True, c\<lparr>bh_rates := hm_insert q (now, 1) (bh_rates c)\<rparr>)
          else (\<not> 100 < count + 1, c\<lparr>bh_rates := hm_insert q (start, count + 1) (bh_rates c)\<rparr>))"
    "hm_wf (bh_rates c)" "rate_budget t (rate_entry p c) \<le> rate_budget t (rate_entry p b)"
    "rate_count (rate_entry p c) \<le> rate_count (rate_entry p b)"
proof (cases "since now (bh_rate_cleanup b) > rate_cleanup_interval")
  case True
  let ?c = "b\<lparr>bh_rates := hm_retain (\<lambda>_ (start, _). since now start < rate_window) (bh_rates b),
              bh_rate_cleanup := now\<rparr>"
  have ent: "rate_entry p ?c = (case rate_entry p b of None \<Rightarrow> None
      | Some (start, count) \<Rightarrow> if since now start < rate_window then Some (start, count) else None)"
    using assms(1) by (auto simp: hm_get_retain split: option.split)
  have "rate_budget t (rate_entry p ?c) \<le> rate_budget t (rate_entry p b)"
    unfolding ent using assms(2,3)
    by (auto simp: rate_budget_def since_def split: option.split)
  moreover have "rate_count (rate_entry p ?c) \<le> rate_count (rate_entry p b)"
    unfolding ent by (auto simp: rate_count_def split: option.split)
  moreover have "hm_wf (bh_rates ?c)" using assms(1) by simp
  ultimately show ?thesis using that[of ?c] True by (simp add: check_peer_rate_limit_def Let_def)
next
  case False
  then show ?thesis using that[of b] assms(1) by (simp add: check_peer_rate_limit_def Let_def)
qed

lemma rate_step:
  assumes "hm_wf (bh_rates b)" and "t \<le> now" and "now < t + int rate_window"
    and "rate_count (rate_entry p b) + 1 < 2 ^ 32" and "check_peer_rate_limit now q b = (ok, b')"
  shows "hm_wf (bh_rates b')
    \<and> (if ok \<and> q = p then 1 else 0) + rate_budget t (rate_entry p b') \<le> rate_budget t (rate_entry p b)
    \<and> rate_count (rate_entry p b') \<le> rate_count (rate_entry p b) + 1"
proof -
  obtain c where c: "check_peer_rate_limit now q b =
      (let (start, count) = (case rate_entry q c of None \<Rightarrow> (now, 0) | Some e \<Rightarrow> e)
       in if since now start > rate_window
          then (True, c\<lparr>bh_rates := hm_insert q (now, 1) (bh_rates c)\<rparr>)
          else (\<not> 100 < count + 1, c\<lparr>bh_rates := hm_insert q (start, count + 1) (bh_rates c)\<rparr>))"
    "hm_wf (bh_rates c)" "rate_budget t (rate_entry p c) \<le> rate_budget t (rate_entry p b)"
    "rate_count (rate_entry p c) \<le> rate_count (rate_entry p b)"
    using rate_cleaned[OF assms(1-3), of q p] by blast
  have wf: "hm_wf (bh_rates b')" using c(1,2) assms(5) by (auto simp: Let_def split: prod.splits if_splits)
  show ?thesis
  proof (cases "q = p")
    case False
    then have "rate_entry p b' = rate_entry p c"
      using c(1) assms(5) by (auto simp: Let_def split: prod.splits if_splits)
    then show ?thesis using wf c(3,4) False by simp
  next
    case True
    obtain start count where e: "(case rate_entry p c of None \<Rightarrow> (now, 0) | Some e \<Rightarrow> e) = (start, count)"
      by (rule prod.exhaust)
    have cnt: "unat (count + 1) = unat count + 1" "unat count = rate_count (rate_entry p c)"
    proof -
      show cc: "unat count = rate_count (rate_entry p c)"
        using e by (auto simp: rate_count_def split: option.splits)
      show "unat (count + 1) = unat count + 1"
        using assms(4) c(4) cc by (simp add: unat_word_ariths)
    qed
    have budget: "rate_budget t (rate_entry p c) = (100 - unat count) + (if start < t then 100 else 0)"
      using e assms(2) by (auto simp: rate_budget_def split: option.splits)
    show ?thesis
    proof (cases "since now start > rate_window")
      case reset: True
      then have "start < t" using assms(3) by (simp add: since_def)
      moreover have "ok" "rate_entry p b' = Some (now, 1)"
        using c(1) assms(5) e reset True by (auto simp: Let_def)
      ultimately show ?thesis using wf c(3,4) budget True assms(2) by (simp add: rate_budget_def rate_count_def)
    next
      case False
      have "ok = (\<not> 100 < count + 1)" "rate_entry p b' = Some (start, count + 1)"
        using c(1) assms(5) e False True by (auto simp: Let_def)
      moreover have "100 < count + 1 \<longleftrightarrow> 100 < unat count + 1" using cnt(1) by (simp add: word_less_nat_alt)
      ultimately show ?thesis using wf c(3,4) budget cnt True by (auto simp: rate_budget_def rate_count_def)
    qed
  qed
qed

lemma rate_accepted_budget:
  assumes "hm_wf (bh_rates b)" and "\<forall>(now, q)\<in>set calls. t \<le> now \<and> now < t + int rate_window"
    and "rate_count (rate_entry p b) + length calls < 2 ^ 32"
  shows "rate_accepted p calls b \<le> rate_budget t (rate_entry p b)"
  using assms
proof (induction p calls b rule: rate_accepted.induct)
  case (2 p now q calls b)
  obtain ok b' where ck: "check_peer_rate_limit now q b = (ok, b')" by (rule prod.exhaust)
  have s: "hm_wf (bh_rates b')"
    "(if ok \<and> q = p then 1 else 0) + rate_budget t (rate_entry p b') \<le> rate_budget t (rate_entry p b)"
    "rate_count (rate_entry p b') \<le> rate_count (rate_entry p b) + 1"
    using rate_step[OF 2(2) _ _ _ ck, of t p] 2(3,4) by auto
  have "rate_accepted p calls b' \<le> rate_budget t (rate_entry p b')"
    using 2(1)[OF ck[symmetric] refl s(1)] 2(3,4) s(3) by simp
  then show ?case using s(2) ck by simp
qed simp

text \<open>C22: of one peer at most 200 requests pass in any ten seconds, whatever the other peers send: a fixed
  window of 100 that may end within the interval, and the next one. The limit of 100 itself
  holds for an interval in which no window of the peer was open before.\<close>

theorem rate_limit_bound:
  assumes "hm_wf (bh_rates b)" and "\<forall>(now, q)\<in>set calls. t \<le> now \<and> now < t + int rate_window"
    and "rate_count (rate_entry p b) + length calls < 2 ^ 32"
  shows "rate_accepted p calls b \<le> 200 \<and> (rate_entry p b = None \<longrightarrow> rate_accepted p calls b \<le> 100)"
  using rate_accepted_budget[OF assms]
  by (cases "rate_entry p b") (auto simp: rate_budget_def split: if_splits)

theorem rate_limit_bound_witness:
  "rate_accepted [2] (replicate 150 (3, [2])) demo_node \<le> 100"
proof -
  have "\<forall>(now, q)\<in>set (replicate 150 (3, [2::u8])). (0::int) \<le> now \<and> now < 0 + int rate_window"
    by (simp add: rate_window_def)
  then show ?thesis
    using rate_limit_bound[of demo_node "replicate 150 (3, [2])" 0 "[2]"]
    by (simp add: demo_node_def rate_count_def)
qed

end
