(* ===== verification/Agg_Client.thy ===== *)
theory Agg_Client
  imports Agg_Api
begin

text \<open>
  The HTTP client of the aggregation service, \<open>crates/tangle-aggregation-svc/src/client.rs\<close>. What is
  below the client (\<open>reqwest\<close>, the network, the service at the other end and the time that passes)
  is the record \<open>server\<close> of its endpoints over a world \<open>'w\<close>. The locale \<open>aggregation_server\<close> states
  what the client relies on, and \<open>live_server\<close> provides it: a world with the modelled service, in
  which requests of other clients, clean-ups and lost requests or replies happen between any two
  calls.
\<close>

section \<open>The endpoints\<close>

text \<open>A left value is an error of \<open>reqwest\<close>. Where the client looks at the status before it reads
  the body, the body is a result of its own.\<close>

record 'w server =
  se_health :: "'w \<Rightarrow> (string + nat) \<times> 'w"
  se_init :: "init_request \<Rightarrow> 'w \<Rightarrow> (string + init_response) \<times> 'w"
  se_submit :: "submit_request \<Rightarrow> 'w \<Rightarrow> (string + submit_response) \<times> 'w"
  se_status :: "u64 \<Rightarrow> u64 \<Rightarrow> 'w \<Rightarrow> (string + status_response) \<times> 'w"
  se_aggregate :: "u64 \<Rightarrow> u64 \<Rightarrow> 'w \<Rightarrow> (string + nat \<times> (string + aggregated_result option)) \<times> 'w"
  se_mark :: "u64 \<Rightarrow> u64 \<Rightarrow> 'w \<Rightarrow> (string + nat \<times> (string + string option)) \<times> 'w"
  se_stats :: "'w \<Rightarrow> (string + nat \<times> (string + task_counts)) \<times> 'w"
  se_show_status :: "nat \<Rightarrow> string"
  se_now :: "'w \<Rightarrow> instant \<times> 'w"
  se_sleep :: "duration \<Rightarrow> 'w \<Rightarrow> 'w"

definition is_success :: "nat \<Rightarrow> bool" where
  "is_success status \<longleftrightarrow> 200 \<le> status \<and> status < 300"

section \<open>The client\<close>

datatype client_error =
    Http string
  | Server string
  | InvalidResponse string
  | NotFound
  | ThresholdNotMetC nat nat
  | AlreadySubmittedC

datatype threshold_wait_result =
    Aggregated aggregated_result
  | SubmittedC

definition client_health :: "'w server \<Rightarrow> 'w \<Rightarrow> (client_error + bool) \<times> 'w" where
  "client_health S w =
     (case se_health S w of
        (Inl e, w') \<Rightarrow> (Inl (Http e), w')
      | (Inr status, w') \<Rightarrow> (Inr (is_success status), w'))"

definition client_init_task_with_message ::
  "'w server \<Rightarrow> u64 \<Rightarrow> u64 \<Rightarrow> bytes \<Rightarrow> bytes \<Rightarrow> signature_scheme \<Rightarrow> u32 \<Rightarrow> threshold_config \<Rightarrow> 'w \<Rightarrow>
   (client_error + unit) \<times> 'w" where
  "client_init_task_with_message S service_id call_id output message scheme operator_count threshold w =
     (let request = \<lparr>iq_service_id = service_id, iq_call_id = call_id, iq_operator_count = operator_count,
                     iq_threshold = threshold, iq_output = output, iq_message = message,
                     iq_signature_scheme = scheme\<rparr>
      in case se_init S request w of
           (Inl e, w') \<Rightarrow> (Inl (Http e), w')
         | (Inr response, w') \<Rightarrow>
             (if ip_success response then Inr ()
              else Inl (Server (case ip_error response of None \<Rightarrow> ''Unknown error'' | Some e \<Rightarrow> e)), w'))"

definition client_init_task ::
  "('s, 'p) crypto \<Rightarrow> 'w server \<Rightarrow> u64 \<Rightarrow> u64 \<Rightarrow> bytes \<Rightarrow> u32 \<Rightarrow> threshold_config \<Rightarrow> 'w \<Rightarrow>
   (client_error + unit) \<times> 'w" where
  "client_init_task X S service_id call_id output operator_count threshold w =
     client_init_task_with_message S service_id call_id output
       (create_signing_message X service_id call_id output) ArkworksSha256 operator_count threshold w"

definition client_submit_signature ::
  "'w server \<Rightarrow> submit_request \<Rightarrow> 'w \<Rightarrow> (client_error + submit_response) \<times> 'w" where
  "client_submit_signature S request w =
     (case se_submit S request w of
        (Inl e, w') \<Rightarrow> (Inl (Http e), w')
      | (Inr response, w') \<Rightarrow>
          (if rs_accepted response then Inr response
           else Inl (Server (case rs_error response of None \<Rightarrow> ''Signature rejected'' | Some e \<Rightarrow> e)), w'))"

definition client_get_status ::
  "'w server \<Rightarrow> u64 \<Rightarrow> u64 \<Rightarrow> 'w \<Rightarrow> (client_error + status_response) \<times> 'w" where
  "client_get_status S service_id call_id w =
     (case se_status S service_id call_id w of
        (Inl e, w') \<Rightarrow> (Inl (Http e), w')
      | (Inr response, w') \<Rightarrow> (if \<not> sr_exists response then Inl NotFound else Inr response, w'))"

definition client_get_aggregated ::
  "'w server \<Rightarrow> u64 \<Rightarrow> u64 \<Rightarrow> 'w \<Rightarrow> (client_error + aggregated_result option) \<times> 'w" where
  "client_get_aggregated S service_id call_id w =
     (case se_aggregate S service_id call_id w of
        (Inl e, w') \<Rightarrow> (Inl (Http e), w')
      | (Inr (status, body), w') \<Rightarrow>
          (if status = status_not_found then Inr None
           else if \<not> is_success status then Inl (Server (''Server returned '' @ se_show_status S status))
           else res_map_err Http body, w'))"

definition client_get_aggregated_or_submitted ::
  "'w server \<Rightarrow> u64 \<Rightarrow> u64 \<Rightarrow> 'w \<Rightarrow> (client_error + threshold_wait_result) \<times> 'w" where
  "client_get_aggregated_or_submitted S service_id call_id w =
     (case client_get_aggregated S service_id call_id w of
        (Inl e, w1) \<Rightarrow> (Inl e, w1)
      | (Inr (Some result), w1) \<Rightarrow> (Inr (Aggregated result), w1)
      | (Inr None, w1) \<Rightarrow>
          (case client_get_status S service_id call_id w1 of
             (Inl e, w2) \<Rightarrow> (Inl e, w2)
           | (Inr status, w2) \<Rightarrow>
               (if sr_submitted status then Inr SubmittedC
                else Inl (ThresholdNotMetC (sr_signatures_collected status) (sr_threshold_required status)),
                w2)))"

definition client_mark_submitted ::
  "'w server \<Rightarrow> u64 \<Rightarrow> u64 \<Rightarrow> 'w \<Rightarrow> (client_error + unit) \<times> 'w" where
  "client_mark_submitted S service_id call_id w =
     (case se_mark S service_id call_id w of
        (Inl e, w') \<Rightarrow> (Inl (Http e), w')
      | (Inr (status, body), w') \<Rightarrow>
          (if \<not> is_success status
           then (case body of
                   Inl e \<Rightarrow> Inl (Http e)
                 | Inr None \<Rightarrow> Inl (Server ''Unknown error'')
                 | Inr (Some e) \<Rightarrow> Inl (Server e))
           else Inr (), w'))"

definition client_get_stats :: "'w server \<Rightarrow> 'w \<Rightarrow> (client_error + task_counts) \<times> 'w" where
  "client_get_stats S w =
     (case se_stats S w of
        (Inl e, w') \<Rightarrow> (Inl (Http e), w')
      | (Inr (status, body), w') \<Rightarrow>
          (if \<not> is_success status then Inl (Server (''Server returned '' @ se_show_status S status))
           else res_map_err Http body, w'))"

text \<open>What happens once the time is up.\<close>

definition wait_timed_out ::
  "'w server \<Rightarrow> u64 \<Rightarrow> u64 \<Rightarrow> 'w \<Rightarrow> (client_error + threshold_wait_result) \<times> 'w" where
  "wait_timed_out S service_id call_id w =
     (case client_get_status S service_id call_id w of
        (Inl e, w') \<Rightarrow> (Inl e, w')
      | (Inr status, w') \<Rightarrow>
          (if sr_submitted status then Inr SubmittedC
           else Inl (ThresholdNotMetC (sr_signatures_collected status) (sr_threshold_required status)), w'))"

partial_function (option) wait_loop ::
  "'w server \<Rightarrow> u64 \<Rightarrow> u64 \<Rightarrow> duration \<Rightarrow> duration \<Rightarrow> instant \<Rightarrow> 'w \<Rightarrow>
   ((client_error + threshold_wait_result) \<times> 'w) option" where
  "wait_loop S service_id call_id poll_interval timeout start w =
     (case se_now S w of
        (now, w0) \<Rightarrow>
          if timeout < elapsed now start then Some (wait_timed_out S service_id call_id w0)
          else (case client_get_aggregated S service_id call_id w0 of
             (Inl e, w1) \<Rightarrow> Some (Inl e, w1)
           | (Inr (Some result), w1) \<Rightarrow> Some (Inr (Aggregated result), w1)
           | (Inr None, w1) \<Rightarrow>
               (case client_get_status S service_id call_id w1 of
                  (Inl e, w2) \<Rightarrow> Some (Inl e, w2)
                | (Inr status, w2) \<Rightarrow>
                    if sr_submitted status then Some (Inr SubmittedC, w2)
                    else wait_loop S service_id call_id poll_interval timeout start
                           (se_sleep S poll_interval w2))))"

definition wait_for_threshold_or_submitted ::
  "'w server \<Rightarrow> u64 \<Rightarrow> u64 \<Rightarrow> duration \<Rightarrow> duration \<Rightarrow> 'w \<Rightarrow>
   ((client_error + threshold_wait_result) \<times> 'w) option" where
  "wait_for_threshold_or_submitted S service_id call_id poll_interval timeout w =
     (case se_now S w of
        (start, w') \<Rightarrow> wait_loop S service_id call_id poll_interval timeout start w')"

definition wait_for_threshold ::
  "'w server \<Rightarrow> u64 \<Rightarrow> u64 \<Rightarrow> duration \<Rightarrow> duration \<Rightarrow> 'w \<Rightarrow>
   ((client_error + aggregated_result) \<times> 'w) option" where
  "wait_for_threshold S service_id call_id poll_interval timeout w =
     map_option (\<lambda>(r, w'). (case r of
          Inl e \<Rightarrow> Inl e
        | Inr (Aggregated result) \<Rightarrow> Inr result
        | Inr SubmittedC \<Rightarrow> Inl AlreadySubmittedC, w'))
       (wait_for_threshold_or_submitted S service_id call_id poll_interval timeout w)"

section \<open>What the client relies on\<close>

text \<open>An endpoint is served by the handler \<open>h\<close>: in between, the service seen through \<open>view\<close> moves
  along \<open>R\<close>, and a reply that arrives is the handler's, given in a state on the way; \<open>fits\<close>
  relates what the handler returns and what the client reads.\<close>

definition served ::
  "('w \<Rightarrow> bool) \<Rightarrow> ('w \<Rightarrow> 'v) \<Rightarrow> ('w \<Rightarrow> instant) \<Rightarrow> ('v \<Rightarrow> 'v \<Rightarrow> bool) \<Rightarrow> ('q \<Rightarrow> 'r \<Rightarrow> bool) \<Rightarrow>
   (clock \<Rightarrow> 'v \<Rightarrow> 'q \<times> 'v) \<Rightarrow> 'w \<Rightarrow> (string + 'r) \<times> 'w \<Rightarrow> bool" where
  "served ok view time R fits h w out \<longleftrightarrow>
     ok (snd out) \<and> time w \<le> time (snd out) \<and> R (view w) (view (snd out))
     \<and> (\<forall>r. fst out = Inr r \<longrightarrow>
          (\<exists>c v q. R (view w) v \<and> h c v = (q, view (snd out)) \<and> fits q r))"

definition fits_body :: "nat \<times> 'b \<Rightarrow> nat \<times> (string + 'b) \<Rightarrow> bool" where
  "fits_body q r \<longleftrightarrow> fst r = fst q \<and> (\<forall>b. snd r = Inr b \<longrightarrow> b = snd q)"

definition fits_response :: "nat \<times> 'b \<Rightarrow> 'b \<Rightarrow> bool" where
  "fits_response q r \<longleftrightarrow> r = snd q"

lemma served_Inr:
  assumes "served ok view time R fits h w (Inr r, w')"
  obtains c v q where "R (view w) v" "h c v = (q, view w')" "fits q r" "ok w'" "time w \<le> time w'"
    "R (view w) (view w')"
  using assms unfolding served_def by auto

text \<open>What a wait may answer about the service it ends with: an aggregate or a submission that
  is there, a time-out that is over, and no answer the handlers do not give.\<close>

definition wait_answer ::
  "('s, 'p, 'b) deps \<Rightarrow> u64 \<Rightarrow> u64 \<Rightarrow> duration \<Rightarrow> instant \<Rightarrow> client_error + threshold_wait_result \<Rightarrow>
   ('s, 'p, 'b) service \<Rightarrow> instant \<Rightarrow> bool" where
  "wait_answer D sid cid timeout start x sv now =
     (case x of
        Inr (Aggregated r) \<Rightarrow> \<exists>c. svc_get_aggregated_result D c sid cid sv = Some r
      | Inr SubmittedC \<Rightarrow> \<exists>t. hm_get (sv_state sv) (TaskId sid cid) = Some t \<and> ts_submitted t
      | Inl (ThresholdNotMetC n m) \<Rightarrow> timeout < elapsed now start \<and>
          (\<exists>t. hm_get (sv_state sv) (TaskId sid cid) = Some t \<and> \<not> ts_submitted t
             \<and> n = signature_count t \<and> m = threshold_value t)
      | Inl NotFound \<Rightarrow> hm_get (sv_state sv) (TaskId sid cid) = None
      | Inl (Http e) \<Rightarrow> True
      | _ \<Rightarrow> False)"

lemma status_of_task:
  "sr_exists (api_get_status c sid cid sv) \<longleftrightarrow> hm_get (sv_state sv) (TaskId sid cid) \<noteq> None"
  "hm_get (sv_state sv) (TaskId sid cid) = Some t \<Longrightarrow>
     sr_submitted (api_get_status c sid cid sv) = ts_submitted t
     \<and> sr_signatures_collected (api_get_status c sid cid sv) = signature_count t
     \<and> sr_threshold_required (api_get_status c sid cid sv) = threshold_value t"
  by (auto simp: api_get_status_def svc_get_status_def get_status_def split: option.splits)

lemma elapsed_mono: "a \<le> b \<Longrightarrow> elapsed a s \<le> elapsed b s"
  by (simp add: elapsed_def)

locale aggregation_server =
  fixes S :: "'w server"
    and D :: "('s, 'p, 'b) deps"
    and ok :: "'w \<Rightarrow> bool"
    and view :: "'w \<Rightarrow> ('s, 'p, 'b) service"
    and time :: "'w \<Rightarrow> instant"
    and R :: "('s, 'p, 'b) service \<Rightarrow> ('s, 'p, 'b) service \<Rightarrow> bool"
  assumes R_refl: "R v v"
    and R_trans: "R u v \<Longrightarrow> R v v' \<Longrightarrow> R u v'"
    and init: "ok w \<Longrightarrow> served ok view time R (=) (\<lambda>c. api_init_task D c req) w (se_init S req w)"
    and submit: "ok w \<Longrightarrow>
      served ok view time R fits_response (\<lambda>c. api_submit_signature D c sub) w (se_submit S sub w)"
    and status: "ok w \<Longrightarrow>
      served ok view time R (=) (\<lambda>c v. (api_get_status c sid cid v, v)) w (se_status S sid cid w)"
    and aggregate: "ok w \<Longrightarrow>
      served ok view time R fits_body (\<lambda>c v. (api_get_aggregated D c sid cid v, v)) w
        (se_aggregate S sid cid w)"
    and now: "ok w \<Longrightarrow> se_now S w = (t, w') \<Longrightarrow>
      ok w' \<and> R (view w) (view w') \<and> time w \<le> t \<and> t \<le> time w'"
    and sleep: "ok w \<Longrightarrow> ok (se_sleep S d w) \<and> R (view w) (view (se_sleep S d w))
      \<and> time w + int d \<le> time (se_sleep S d w)"
begin

lemma get_status:
  assumes "ok w" and "client_get_status S sid cid w = (x, w')"
  shows "ok w' \<and> time w \<le> time w' \<and> R (view w) (view w')"
    and "x = Inr st \<Longrightarrow> \<exists>c. st = api_get_status c sid cid (view w') \<and> sr_exists st"
    and "x = Inl e \<Longrightarrow> (\<exists>m. e = Http m) \<or>
      e = NotFound \<and> hm_get (sv_state (view w')) (TaskId sid cid) = None"
proof -
  obtain y w1 where y: "se_status S sid cid w = (y, w1)" by (rule prod.exhaust)
  note sv = status [OF assms(1), of sid cid, unfolded y]
  have w1: "w1 = w'"
    using assms(2) y by (auto simp: client_get_status_def split: sum.splits)
  show "ok w' \<and> time w \<le> time w' \<and> R (view w) (view w')"
    using sv w1 by (simp add: served_def)
  have reply: "\<exists>c. r = api_get_status c sid cid (view w')" if "y = Inr r" for r
    using sv w1 that by (auto simp: served_def)
  show "\<exists>c. st = api_get_status c sid cid (view w') \<and> sr_exists st" if "x = Inr st"
    using assms(2) y reply that by (auto simp: client_get_status_def split: sum.splits if_splits)
  show "(\<exists>m. e = Http m) \<or> e = NotFound \<and> hm_get (sv_state (view w')) (TaskId sid cid) = None"
    if "x = Inl e"
    using assms(2) y reply that status_of_task(1)
    by (fastforce simp: client_get_status_def split: sum.splits if_splits)
qed

lemma get_aggregated:
  assumes "ok w" and "client_get_aggregated S sid cid w = (x, w')"
  shows "ok w' \<and> time w \<le> time w' \<and> R (view w) (view w')"
    and "x = Inr (Some r) \<Longrightarrow> \<exists>c. svc_get_aggregated_result D c sid cid (view w') = Some r"
    and "x = Inl e \<Longrightarrow> \<exists>m. e = Http m"
proof -
  obtain y w1 where y: "se_aggregate S sid cid w = (y, w1)" by (rule prod.exhaust)
  note sv = aggregate [OF assms(1), of sid cid, unfolded y]
  have w1: "w1 = w'"
    using assms(2) y by (auto simp: client_get_aggregated_def split: sum.splits prod.splits)
  show "ok w' \<and> time w \<le> time w' \<and> R (view w) (view w')"
    using sv w1 by (simp add: served_def)
  have reply: "\<exists>c. fits_body (api_get_aggregated D c sid cid (view w')) q" if "y = Inr q" for q
    using sv w1 that by (auto simp: served_def)
  have codes: "fits_body (api_get_aggregated D c sid cid v) (status, body) \<Longrightarrow>
      status = 404 \<or> status = 200 \<and> (\<forall>b. body = Inr b \<longrightarrow> b = svc_get_aggregated_result D c sid cid v)"
    for c v status body
    by (auto simp: fits_body_def api_get_aggregated_def status_ok_def status_not_found_def
        split: option.splits)
  show "\<exists>c. svc_get_aggregated_result D c sid cid (view w') = Some r" if x: "x = Inr (Some r)"
  proof -
    obtain status where "y = Inr (status, Inr (Some r))" "status \<noteq> 404"
      using assms(2) y x
      by (auto simp: client_get_aggregated_def status_not_found_def res_map_err_Inr_iff
          split: sum.splits prod.splits if_splits)
    then show ?thesis using reply codes by fastforce
  qed
  show "\<exists>m. e = Http m" if "x = Inl e"
  proof (cases y)
    case (Inl m)
    then show ?thesis using assms(2) y that by (auto simp: client_get_aggregated_def)
  next
    case (Inr q)
    obtain st body where q: "q = (st, body)" by (rule prod.exhaust)
    have "st = 404 \<or> st = 200" using reply [OF Inr] codes q by blast
    then show ?thesis
      using assms(2) y that Inr q
      by (cases body) (auto simp: client_get_aggregated_def is_success_def status_not_found_def)
  qed
qed

lemma timed_out:
  assumes "ok w" and "wait_timed_out S sid cid w = (x, w')" and "timeout < elapsed (time w) start"
  shows "ok w' \<and> R (view w) (view w') \<and> wait_answer D sid cid timeout start x (view w') (time w')"
proof -
  obtain y w1 where y: "client_get_status S sid cid w = (y, w1)" by (rule prod.exhaust)
  note st = get_status [OF assms(1) y]
  have w1: "w1 = w'" using assms(2) y by (auto simp: wait_timed_out_def split: sum.splits)
  have over: "timeout < elapsed (time w') start"
    using assms(3) st(1) w1 elapsed_mono [of "time w" "time w'" start] by simp
  show ?thesis
  proof (cases y)
    case (Inl e)
    then have "x = Inl e" using assms(2) y by (simp add: wait_timed_out_def)
    then show ?thesis using st(1) st(3) [OF Inl] w1 by (auto simp: wait_answer_def)
  next
    case (Inr s)
    then obtain c t where s: "s = api_get_status c sid cid (view w')"
      and t: "hm_get (sv_state (view w')) (TaskId sid cid) = Some t"
      using st(2) [OF Inr] w1 status_of_task(1) by blast
    have "x = (if ts_submitted t then Inr SubmittedC
        else Inl (ThresholdNotMetC (signature_count t) (threshold_value t)))"
      using assms(2) y Inr status_of_task(2) [OF t, of c] by (auto simp: wait_timed_out_def s)
    then show ?thesis using st(1) w1 t over by (simp add: wait_answer_def)
  qed
qed

text \<open>One pass of the loop: it ends with an answer, or sleeps with the time-out not over.\<close>

lemma wait_pass:
  assumes "ok w" and "0 \<le> time w - start"
  obtains (ends) x w' where "wait_loop S sid cid poll timeout start w = Some (x, w')" "ok w'"
      "R (view w) (view w')" "wait_answer D sid cid timeout start x (view w') (time w')"
  | (sleeps) w' where "wait_loop S sid cid poll timeout start w =
        wait_loop S sid cid poll timeout start (se_sleep S poll w')" "ok w'" "R (view w) (view w')"
      "time w \<le> time w'" "time w \<le> start + int timeout"
proof -
  obtain t w0 where t: "se_now S w = (t, w0)" by (rule prod.exhaust)
  note n = now [OF assms(1) t]
  obtain y w1 where y: "client_get_aggregated S sid cid w0 = (y, w1)" by (rule prod.exhaust)
  have ok0: "ok w0" using n by blast
  note g = get_aggregated [OF ok0 y]
  have ok1: "ok w1" using g(1) by blast
  obtain z w2 where z: "client_get_status S sid cid w1 = (z, w2)" by (rule prod.exhaust)
  note st = get_status [OF ok1 z]
  have R1: "R (view w) (view w1)" and R2: "R (view w) (view w2)"
    using n g(1) st(1) R_trans by blast+
  note unf = wait_loop.simps [of S sid cid poll timeout start w, unfolded t prod.case]
  consider (late) "timeout < elapsed t start"
    | (err) e where "\<not> timeout < elapsed t start" "y = Inl e"
    | (agg) r where "\<not> timeout < elapsed t start" "y = Inr (Some r)"
    | (err2) e where "\<not> timeout < elapsed t start" "y = Inr None" "z = Inl e"
    | (st) s where "\<not> timeout < elapsed t start" "y = Inr None" "z = Inr s"
    by (metis option.exhaust old.sum.exhaust)
  then show ?thesis
  proof cases
    case late
    obtain x w' where x: "wait_timed_out S sid cid w0 = (x, w')" by (rule prod.exhaust)
    have "timeout < elapsed (time w0) start"
      using late n elapsed_mono [of t "time w0" start] by simp
    from timed_out [OF ok0 x this] n R_trans show ?thesis
      using late x unf by (intro ends [of x w']) auto
  next
    case err
    then show ?thesis
      using unf y g R1 by (intro ends [of "Inl e" w1]) (auto simp: wait_answer_def)
  next
    case agg
    then show ?thesis
      using unf y g R1 by (intro ends [of "Inr (Aggregated r)" w1]) (auto simp: wait_answer_def)
  next
    case err2
    then show ?thesis
      using unf y z st(1,3) R2 by (intro ends [of "Inl e" w2]) (auto simp: wait_answer_def)
  next
    case (st s)
    obtain c tk where s: "s = api_get_status c sid cid (view w2)"
      and tk: "hm_get (sv_state (view w2)) (TaskId sid cid) = Some tk"
      using get_status(2) [OF ok1 z st(3)] status_of_task(1) by blast
    show ?thesis
    proof (cases "sr_submitted s")
      case True
      then show ?thesis
        using unf y z st R2 get_status(1) [OF ok1 z] status_of_task(2) [OF tk, of c] tk s
        by (intro ends [of "Inr SubmittedC" w2]) (auto simp: wait_answer_def)
    next
      case False
      then show ?thesis
        using unf y z st R2 get_status(1) [OF ok1 z] g(1) n
        by (intro sleeps [of w2]) (auto simp: elapsed_def)
    qed
  qed
qed

lemma wait_loop_answers:
  assumes "ok w" and "0 \<le> time w - start" and "0 < poll"
  shows "\<exists>x w'. wait_loop S sid cid poll timeout start w = Some (x, w') \<and> ok w' \<and> R (view w) (view w')
    \<and> wait_answer D sid cid timeout start x (view w') (time w')"
  using assms(1,2)
proof (induction "nat (start + int timeout + 1 - time w)" arbitrary: w rule: less_induct)
  case less
  show ?case
  proof (cases rule: wait_pass [OF less.prems, of sid cid poll timeout, case_names ends sleeps])
    case (ends x w')
    then show ?thesis by blast
  next
    case (sleeps w1)
    let ?w = "se_sleep S poll w1"
    note sl = sleep [OF sleeps(2), of poll]
    have "nat (start + int timeout + 1 - time ?w) < nat (start + int timeout + 1 - time w)"
      using sl sleeps(4,5) assms(3) by linarith
    moreover have "ok ?w" "0 \<le> time ?w - start" "R (view w) (view ?w)"
      using sl sleeps less.prems(2) R_trans [OF sleeps(3)] by auto
    moreover from calculation obtain x w' where "wait_loop S sid cid poll timeout start ?w = Some (x, w')"
      "ok w'" "R (view ?w) (view w')" "wait_answer D sid cid timeout start x (view w') (time w')"
      using less.hyps [of ?w] by blast
    ultimately show ?thesis
      using sleeps(1) R_trans [of "view w" "view ?w" "view w'"] by auto
  qed
qed

lemma wait_answers:
  assumes "ok w" and "0 < poll"
  shows "\<exists>x w'. wait_for_threshold_or_submitted S sid cid poll timeout w = Some (x, w') \<and> ok w'
    \<and> R (view w) (view w')
    \<and> wait_answer D sid cid timeout (fst (se_now S w)) x (view w') (time w')"
proof -
  obtain t w0 where t: "se_now S w = (t, w0)" by (rule prod.exhaust)
  note n = now [OF assms(1) t]
  then obtain x w' where "wait_loop S sid cid poll timeout t w0 = Some (x, w')" "ok w'"
    "R (view w0) (view w')" "wait_answer D sid cid timeout t x (view w') (time w')"
    using wait_loop_answers [of w0 t poll sid cid timeout] assms(2) by auto
  then show ?thesis
    using n R_trans [of "view w" "view w0" "view w'"]
    by (auto simp: wait_for_threshold_or_submitted_def t)
qed

end

section \<open>A network with other clients\<close>

text \<open>What may happen to one exchange, and what other parties ask of the service before it.\<close>

datatype fault = Delivered | RequestLost string | ResponseLost string | BodyLost string

datatype other_request =
    OtherInit init_request
  | OtherSubmit submit_request
  | OtherMark u64 u64
  | OtherRemove u64 u64
  | OtherCleanup cleanup_kind

primrec other_step ::
  "('s, 'p, 'b) deps \<Rightarrow> clock \<Rightarrow> other_request \<Rightarrow> ('s, 'p, 'b) service \<Rightarrow> ('s, 'p, 'b) service" where
  "other_step D c (OtherInit req) sv = snd (api_init_task D c req sv)"
| "other_step D c (OtherSubmit req) sv = snd (api_submit_signature D c req sv)"
| "other_step D c (OtherMark sid cid) sv = snd (api_mark_submitted D c sid cid sv)"
| "other_step D c (OtherRemove sid cid) sv = snd (svc_remove_task D c sid cid sv)"
| "other_step D c (OtherCleanup kind) sv = snd (cleanup_with_persistence D c kind sv)"

record turn =
  tu_others :: "(clock \<times> other_request) list"
  tu_clock :: clock
  tu_elapsed :: duration
  tu_fault :: fault

record ('s, 'p, 'b) world =
  wo_service :: "('s, 'p, 'b) service"
  wo_now :: instant
  wo_turns :: "nat \<Rightarrow> turn"
  wo_turn :: nat

definition this_turn :: "('s, 'p, 'b) world \<Rightarrow> turn" where
  "this_turn w = wo_turns w (wo_turn w)"

definition pass_turn :: "('s, 'p, 'b) deps \<Rightarrow> ('s, 'p, 'b) world \<Rightarrow> ('s, 'p, 'b) world" where
  "pass_turn D w =
     w\<lparr>wo_service := fold (\<lambda>(c, req). other_step D c req) (tu_others (this_turn w)) (wo_service w),
       wo_now := wo_now w + int (tu_elapsed (this_turn w)), wo_turn := Suc (wo_turn w)\<rparr>"

text \<open>One exchange; \<open>read\<close> is what the client reads of the handler's answer, with the error of the
  body if that is lost.\<close>

definition exchange ::
  "('s, 'p, 'b) deps \<Rightarrow> (string option \<Rightarrow> 'q \<Rightarrow> string + 'r) \<Rightarrow>
   (clock \<Rightarrow> ('s, 'p, 'b) service \<Rightarrow> 'q \<times> ('s, 'p, 'b) service) \<Rightarrow> ('s, 'p, 'b) world \<Rightarrow>
   (string + 'r) \<times> ('s, 'p, 'b) world" where
  "exchange D read h w =
     (let w1 = pass_turn D w; (q, sv) = h (tu_clock (this_turn w)) (wo_service w1);
          w2 = w1\<lparr>wo_service := sv\<rparr>
      in case tu_fault (this_turn w) of
           RequestLost e \<Rightarrow> (Inl e, w1)
         | ResponseLost e \<Rightarrow> (Inl e, w2)
         | BodyLost e \<Rightarrow> (read (Some e) q, w2)
         | Delivered \<Rightarrow> (read None q, w2))"

definition read_all :: "string option \<Rightarrow> 'q \<Rightarrow> string + 'q" where
  "read_all lost q = (case lost of None \<Rightarrow> Inr q | Some e \<Rightarrow> Inl e)"

definition read_response :: "string option \<Rightarrow> nat \<times> 'q \<Rightarrow> string + 'q" where
  "read_response lost q = read_all lost (snd q)"

definition read_status :: "string option \<Rightarrow> nat \<times> 'q \<Rightarrow> string + nat \<times> (string + 'q)" where
  "read_status lost q = Inr (fst q, read_all lost (snd q))"

definition live_server :: "(nat \<Rightarrow> string) \<Rightarrow> ('s, 'p, 'b) deps \<Rightarrow> ('s, 'p, 'b) world server" where
  "live_server show_status D =
     \<lparr>se_health = exchange D read_response (\<lambda>c sv. ((status_ok, status_ok), sv)),
      se_init = (\<lambda>req. exchange D read_all (\<lambda>c. api_init_task D c req)),
      se_submit = (\<lambda>req. exchange D read_response (\<lambda>c. api_submit_signature D c req)),
      se_status = (\<lambda>sid cid. exchange D read_all (\<lambda>c sv. (api_get_status c sid cid sv, sv))),
      se_aggregate = (\<lambda>sid cid. exchange D read_status (\<lambda>c sv. (api_get_aggregated D c sid cid sv, sv))),
      se_mark = (\<lambda>sid cid. exchange D read_status (\<lambda>c sv.
        case api_mark_submitted D c sid cid sv of ((status, _, error), sv') \<Rightarrow> ((status, error), sv'))),
      se_stats = exchange D read_status (\<lambda>c sv. ((status_ok, api_get_stats c sv), sv)),
      se_show_status = show_status,
      se_now = (\<lambda>w. (wo_now w, w)),
      se_sleep = (\<lambda>d w. (pass_turn D w)\<lparr>wo_now := wo_now (pass_turn D w) + int d\<rparr>)\<rparr>"

lemma pass_turn_now: "wo_now (pass_turn D w) = wo_now w + int (tu_elapsed (this_turn w))"
  by (simp add: pass_turn_def)

lemma exchange_served:
  assumes "ok (pass_turn D w)" and "R (wo_service w) (wo_service (pass_turn D w))"
    and trans: "\<And>u v v'. R u v \<Longrightarrow> R v v' \<Longrightarrow> R u v'"
    and step: "\<And>c u. ok u \<Longrightarrow> R (wo_service u) (snd (h c (wo_service u)))
        \<and> ok (u\<lparr>wo_service := snd (h c (wo_service u))\<rparr>)"
    and fits: "\<And>lost q r. read lost q = Inr r \<Longrightarrow> fits q r"
  shows "served ok wo_service wo_now R fits h w (exchange D read h w)"
proof -
  let ?w1 = "pass_turn D w"
  obtain q sv where h: "h (tu_clock (this_turn w)) (wo_service ?w1) = (q, sv)" by (rule prod.exhaust)
  have st: "R (wo_service ?w1) sv" "ok (?w1\<lparr>wo_service := sv\<rparr>)"
    using step [OF assms(1), of "tu_clock (this_turn w)"] h by simp_all
  have now: "wo_now w \<le> wo_now ?w1" by (simp add: pass_turn_def)
  have "\<exists>c v q'. R (wo_service w) v \<and> h c v = (q', sv) \<and> fits q' r" if "read lost q = Inr r" for lost r
    using assms(2) h fits [OF that] by blast
  then show ?thesis
    using st now assms(1,2) trans [OF assms(2) st(1)]
    by (auto simp: served_def exchange_def h Let_def split: fault.splits)
qed

lemmas read_defs = read_all_def read_response_def read_status_def

lemma api_reachable:
  "svc_reachable D sv (snd (api_init_task D c req sv))"
  "svc_reachable D sv (snd (api_submit_signature D c sub sv))"
  "svc_reachable D sv (snd (api_mark_submitted D c sid cid sv))"
proof -
  have init: "svc_reachable D sv (snd (svc_init_task_with_message_config D c sid cid out msg sch n
      (api_task_config th) sv))" for sid cid out msg sch n th
    by (rule svc_reachable.step [OF svc_reachable.start svc_step.init]) (rule api_task_config_stakes)
  then show "svc_reachable D sv (snd (api_init_task D c req sv))"
    by (auto simp: api_init_task_def svc_init_task_with_config_def Let_def split: prod.splits sum.splits)
       (metis snd_conv)+
  have "svc_reachable D sv (snd (svc_submit_signature D c sub sv))"
    by (rule svc_reachable.step [OF svc_reachable.start svc_step.submit])
  then show "svc_reachable D sv (snd (api_submit_signature D c sub sv))"
    by (auto simp: api_submit_signature_def split: prod.splits sum.splits)
  have "svc_reachable D sv (snd (svc_mark_submitted D c sid cid sv))"
    by (rule svc_reachable.step [OF svc_reachable.start svc_step.mark])
  then show "svc_reachable D sv (snd (api_mark_submitted D c sid cid sv))"
    by (auto simp: api_mark_submitted_def split: prod.splits sum.splits)
qed

lemma svc_reachable_trans: "svc_reachable D u v \<Longrightarrow> svc_reachable D v v' \<Longrightarrow> svc_reachable D u v'"
  by (rotate_tac 1, induction rule: svc_reachable.induct) (auto intro: svc_reachable.step)

lemma other_step_reachable: "svc_reachable D sv (other_step D c req sv)"
  by (cases req)
    (simp_all add: api_reachable svc_reachable.step [OF svc_reachable.start svc_step.remove]
      svc_reachable.step [OF svc_reachable.start svc_step.cleanup])

lemma pass_turn_reachable: "svc_reachable D (wo_service w) (wo_service (pass_turn D w))"
proof -
  have "svc_reachable D sv (fold (\<lambda>(c, req). other_step D c req) others sv)" for others sv
  proof (induction others arbitrary: sv)
    case (Cons a os)
    obtain c req where a: "a = (c, req)" by (rule prod.exhaust)
    show ?case
      using svc_reachable_trans [OF other_step_reachable Cons.IH] by (simp add: a)
  qed (simp add: svc_reachable.start)
  then show ?thesis by (simp add: pass_turn_def)
qed

interpretation live: aggregation_server "live_server show_status D" D "\<lambda>_. True" wo_service wo_now "svc_reachable D"
  for show_status :: "nat \<Rightarrow> string" and D :: "('s, 'p, 'b) deps"
proof
  show "svc_reachable D v v" for v by (rule svc_reachable.start)
  show "svc_reachable D u v'" if "svc_reachable D u v" "svc_reachable D v v'" for u v v'
    using that by (rule svc_reachable_trans)
qed (auto simp: live_server_def read_defs fits_body_def fits_response_def api_reachable pass_turn_reachable
    svc_reachable.start pass_turn_now split: option.splits
    intro!: exchange_served intro: svc_reachable_trans)

section \<open>Tasks stay while nothing is cleaned up\<close>

definition task_stays :: "('s, 'p) task_state \<Rightarrow> ('s, 'p) task_state \<Rightarrow> bool" where
  "task_stays t t' \<longleftrightarrow>
     ts_output t' = ts_output t \<and> ts_message t' = ts_message t
     \<and> ts_signature_scheme t' = ts_signature_scheme t
     \<and> ts_threshold_type t' = ts_threshold_type t
     \<and> (\<forall>i. has_signed i t \<longrightarrow> has_signed i t'
          \<and> hm_get (ts_signatures t') i = hm_get (ts_signatures t) i
          \<and> hm_get (ts_public_keys t') i = hm_get (ts_public_keys t) i)"

definition tasks_stay :: "('s, 'p) agg_state \<Rightarrow> ('s, 'p) agg_state \<Rightarrow> bool" where
  "tasks_stay s s' \<longleftrightarrow>
     (\<forall>tid t. hm_get s tid = Some t \<longrightarrow> (\<exists>t'. hm_get s' tid = Some t' \<and> task_stays t t'))"

lemma task_stays_refl [simp]: "task_stays t t"
  by (simp add: task_stays_def)

lemma task_stays_trans: "task_stays t u \<Longrightarrow> task_stays u v \<Longrightarrow> task_stays t v"
  by (simp add: task_stays_def)

lemma tasks_stay_refl [simp]: "tasks_stay s s"
  by (simp add: tasks_stay_def)

lemma tasks_stay_trans: "tasks_stay s u \<Longrightarrow> tasks_stay u v \<Longrightarrow> tasks_stay s v"
  unfolding tasks_stay_def by (meson task_stays_trans)

lemma tasks_stayD:
  assumes "tasks_stay s s'" and "hm_get s tid = Some t"
  obtains t' where "hm_get s' tid = Some t'" "task_stays t t'"
  using assms unfolding tasks_stay_def by blast

lemma task_grows_stays: "task_grows t t' \<Longrightarrow> task_stays t t'"
  by (simp add: task_grows_def task_stays_def)

lemma tasks_stay_sim:
  assumes "state_sim s' s"
  shows "tasks_stay s s'"
  unfolding tasks_stay_def
proof (intro allI impI)
  fix tid t assume t: "hm_get s tid = Some t"
  have "rel_option task_sim (hm_get s' tid) (hm_get s tid)"
    using assms by (simp add: state_sim_def)
  then obtain t' where "hm_get s' tid = Some t'" "task_sim t' t"
    unfolding t by (auto simp: option_rel_Some2)
  then show "\<exists>t'. hm_get s' tid = Some t' \<and> task_stays t t'"
    by (auto simp: task_stays_def task_sim_def has_signed_def)
qed

lemma tasks_stay_insert:
  "(\<And>t. hm_get s tid = Some t \<Longrightarrow> task_stays t t') \<Longrightarrow> tasks_stay s (hm_insert tid t' s)"
  by (auto simp: tasks_stay_def)

lemma tasks_stay_init:
  "tasks_stay s (snd (init_task_with_message_config now sid cid out msg sch n cfg s))"
  by (auto simp: init_task_with_message_config_def Let_def intro!: tasks_stay_insert split: option.split)

lemma tasks_stay_mark: "tasks_stay s (snd (mark_submitted now sid cid s))"
  by (auto simp: mark_submitted_def Let_def intro!: tasks_stay_insert task_grows_stays split: option.split)

lemma tasks_stay_submit: "tasks_stay s (snd (submit_signature now now' sid cid i sig pk s))"
proof (cases rule: submit_cases [of now now' sid cid i sig pk s])
  case (rejected e)
  then show ?thesis by simp
next
  case (accepted t)
  then show ?thesis
    by (auto intro!: tasks_stay_insert task_grows_stays task_grows_put)
qed

lemma tasks_stay_request:
  assumes "request_outcome sv f out" and "tasks_stay (sv_state sv) (snd f)"
  shows "tasks_stay (sv_state sv) (sv_state (snd out))"
  using assms tasks_stay_sim
  by (auto simp: request_outcome_def holds_tasks_def split: sum.splits)

lemma api_tasks_stay:
  assumes K: "codec_ok (dp_codec D)" and inv: "agg_inv (sv_state sv)"
  shows "tasks_stay (sv_state sv) (sv_state (snd (api_init_task D c req sv)))"
    and "tasks_stay (sv_state sv) (sv_state (snd (api_submit_signature D c sub sv)))"
    and "tasks_stay (sv_state sv) (sv_state (snd (api_mark_submitted D c sid cid sv)))"
proof -
  have init: "tasks_stay (sv_state sv) (sv_state (snd (svc_init_task_with_message_config D c sid cid out
      msg sch n cfg sv)))" for sid cid out msg sch n cfg
    by (rule tasks_stay_request [OF svc_init_outcome [OF K inv] tasks_stay_init])
  then show "tasks_stay (sv_state sv) (sv_state (snd (api_init_task D c req sv)))"
    by (auto simp: api_init_task_def svc_init_task_with_config_def Let_def split: prod.splits sum.splits)
       (metis snd_conv)+
  have "tasks_stay (sv_state sv) (sv_state (snd (svc_submit_signature D c sub sv)))"
  proof (cases "check_submission D (at_call c 1) sub sv")
    case (Inl e)
    then show ?thesis using svc_submit_outcome [OF K inv, of c sub] by simp
  next
    case (Inr q)
    obtain sig pk status where q: "q = (sig, pk, status)" by (metis surj_pair)
    show ?thesis
      by (rule tasks_stay_request [OF _ tasks_stay_submit])
        (use svc_submit_outcome [OF K inv, of c sub] Inr q in simp)
  qed
  then show "tasks_stay (sv_state sv) (sv_state (snd (api_submit_signature D c sub sv)))"
    by (auto simp: api_submit_signature_def split: prod.splits sum.splits)
  have "tasks_stay (sv_state sv) (sv_state (snd (svc_mark_submitted D c sid cid sv)))"
    by (rule tasks_stay_request [OF svc_mark_outcome [OF K inv] tasks_stay_mark])
  then show "tasks_stay (sv_state sv) (sv_state (snd (api_mark_submitted D c sid cid sv)))"
    by (auto simp: api_mark_submitted_def split: prod.splits sum.splits)
qed

text \<open>No other party removes tasks.\<close>

primrec removes :: "other_request \<Rightarrow> bool" where
  "removes (OtherInit req) = False"
| "removes (OtherSubmit req) = False"
| "removes (OtherMark sid cid) = False"
| "removes (OtherRemove sid cid) = True"
| "removes (OtherCleanup kind) = True"

definition nothing_removed :: "('s, 'p, 'b) world \<Rightarrow> bool" where
  "nothing_removed w \<longleftrightarrow> (\<forall>n. list_all (\<lambda>(c, req). \<not> removes req) (tu_others (wo_turns w n)))"

definition steady :: "('s, 'p, 'b) deps \<Rightarrow> ('s, 'p, 'b) world \<Rightarrow> bool" where
  "steady D w \<longleftrightarrow> codec_ok (dp_codec D) \<and> svc_inv D (wo_service w) \<and> nothing_removed w"

definition evolves :: "('s, 'p, 'b) deps \<Rightarrow> ('s, 'p, 'b) service \<Rightarrow> ('s, 'p, 'b) service \<Rightarrow> bool" where
  "evolves D sv sv' \<longleftrightarrow> svc_reachable D sv sv' \<and> tasks_stay (sv_state sv) (sv_state sv')"

lemma evolves_refl: "evolves D sv sv"
  by (simp add: evolves_def svc_reachable.start)

lemma evolves_trans: "evolves D u v \<Longrightarrow> evolves D v v' \<Longrightarrow> evolves D u v'"
  unfolding evolves_def using svc_reachable_trans tasks_stay_trans by blast

lemma api_evolves:
  assumes "codec_ok (dp_codec D)" and "svc_inv D sv"
  shows "evolves D sv (snd (api_init_task D c req sv))"
    and "evolves D sv (snd (api_submit_signature D c sub sv))"
    and "evolves D sv (snd (api_mark_submitted D c sid cid sv))"
  using assms by (simp_all add: evolves_def api_reachable api_tasks_stay svc_inv_def)

lemma steady_api:
  assumes "steady D w"
  shows "evolves D (wo_service w) (snd (api_init_task D c req (wo_service w)))"
    and "evolves D (wo_service w) (snd (api_submit_signature D c sub (wo_service w)))"
  using assms by (simp_all add: steady_def api_evolves)

lemma steady_now: "steady D (w\<lparr>wo_now := t\<rparr>) = steady D w"
  by (simp add: steady_def nothing_removed_def)

lemma steady_step: "steady D w \<Longrightarrow> evolves D (wo_service w) sv \<Longrightarrow> steady D (w\<lparr>wo_service := sv\<rparr>)"
  by (auto simp: steady_def evolves_def nothing_removed_def intro: svc_reachable_inv)

lemma steady_turn:
  assumes "steady D w"
  shows "evolves D (wo_service w) (wo_service (pass_turn D w)) \<and> steady D (pass_turn D w)"
proof -
  have "evolves D sv (fold (\<lambda>(c, req). other_step D c req) others sv)"
    if "codec_ok (dp_codec D)" "svc_inv D sv" "list_all (\<lambda>(c, req). \<not> removes req) others" for others sv
    using that(2,3)
  proof (induction others arbitrary: sv)
    case (Cons a others)
    obtain c req where a: "a = (c, req)" by (rule prod.exhaust)
    have ev: "evolves D sv (other_step D c req sv)"
      using Cons.prems a api_evolves [OF that(1) Cons.prems(1)] by (cases req) auto
    moreover have "svc_inv D (other_step D c req sv)"
      using ev Cons.prems(1) that(1) by (auto simp: evolves_def intro: svc_reachable_inv)
    ultimately show ?case
      using Cons.IH Cons.prems(2) evolves_trans [OF ev] by (simp add: a)
  qed (simp add: evolves_refl)
  then have ev: "evolves D (wo_service w) (wo_service (pass_turn D w))"
    using assms by (simp add: pass_turn_def steady_def nothing_removed_def this_turn_def)
  moreover have "svc_inv D (wo_service (pass_turn D w))"
    using ev assms by (auto simp: steady_def evolves_def intro: svc_reachable_inv)
  ultimately show ?thesis
    using assms by (simp add: steady_def nothing_removed_def pass_turn_def)
qed

interpretation steady: aggregation_server "live_server show_status D" D "steady D" wo_service wo_now "evolves D"
  for show_status :: "nat \<Rightarrow> string" and D :: "('s, 'p, 'b) deps"
proof
  show "evolves D v v" for v by (rule evolves_refl)
  show "evolves D u v'" if "evolves D u v" "evolves D v v'" for u v v'
    using that by (rule evolves_trans)
qed (auto simp: live_server_def read_defs fits_body_def fits_response_def steady_api steady_turn
    evolves_refl pass_turn_now steady_step steady_now split: option.splits
    intro!: exchange_served intro: evolves_trans)

text \<open>
  C16: waiting for an aggregate ends, whatever other clients do and whichever requests or replies are
  lost: with a positive poll interval the call returns, and its answer is true of the service at
  that moment. An aggregate is the one the service hands out, \<open>Submitted\<close> is reported for a task
  marked as submitted, \<open>NotFound\<close> for a task that does not exist, and \<open>ThresholdNotMet\<close> only
  after more than the time-out, with the task's number of signatures and threshold.
\<close>

theorem client_wait_answers:
  assumes "0 < poll_interval"
  shows "\<exists>x w'. wait_for_threshold_or_submitted (live_server show_status D) sid cid poll_interval timeout w
      = Some (x, w')
    \<and> svc_reachable D (wo_service w) (wo_service w')
    \<and> wait_answer D sid cid timeout (wo_now w) x (wo_service w') (wo_now w')"
  using live.wait_answers [OF TrueI assms, of show_status D sid cid timeout w]
  by (auto simp: live_server_def)

section \<open>A concrete wait\<close>

definition demo_turn :: turn where
  "demo_turn = \<lparr>tu_others = [], tu_clock = demo_clock 20, tu_elapsed = 1, tu_fault = Delivered\<rparr>"

definition demo_world :: "(nat, nat, unit) service \<Rightarrow> (nat, nat, unit) world" where
  "demo_world sv = \<lparr>wo_service = sv, wo_now = 0, wo_turns = (\<lambda>_. demo_turn), wo_turn = 0\<rparr>"

lemma demo_wait_run:
  "wait_for_threshold_or_submitted (live_server show_nat demo_deps) 7 1 5 60 (demo_world demo_service)
     = Some (Inr (Aggregated demo_answer), (demo_world demo_service)\<lparr>wo_now := 1, wo_turn := 1\<rparr>)"
  by (simp add: wait_for_threshold_or_submitted_def wait_loop.simps elapsed_def live_server_def demo_world_def
      client_get_aggregated_def exchange_def pass_turn_def this_turn_def demo_turn_def read_defs
      api_get_aggregated_def demo_answer_run is_success_def status_ok_def status_not_found_def)

theorem client_wait_answers_witness:
  "\<exists>w'. wait_for_threshold_or_submitted (live_server show_nat demo_deps) 7 1 5 60 (demo_world demo_service)
      = Some (Inr (Aggregated demo_answer), w')
    \<and> (\<exists>c. svc_get_aggregated_result demo_deps c 7 1 (wo_service w') = Some demo_answer)"
  using client_wait_answers [of 5 show_nat demo_deps 7 1 60 "demo_world demo_service"]
  by (simp add: demo_wait_run wait_answer_def)

end
