(* ===== verification/Http_Strategy.thy ===== *)
theory Http_Strategy
  imports Agg_Client
begin

text \<open>
  The aggregation strategy over HTTP, \<open>crates/tangle-extra/src/strategy.rs\<close>: an operator signs its
  output, registers the task, submits the signature and fetches the aggregate. The key type is a
  parameter (\<open>signer\<close>); the bytes of points are those of the service's codec, whose errors are panics
  here (\<open>to_bytes\<close> unwraps). A \<open>None\<close> is a wait that does not end.
\<close>

section \<open>Types\<close>

record ('sk, 's, 'p) signer =
  sg_public :: "'sk \<Rightarrow> 'p"
  sg_sign :: "'sk \<Rightarrow> bytes \<Rightarrow> string + 's"

record ('sk, 'p) http_config =
  hc_bls_secret :: 'sk
  hc_bls_public :: 'p
  hc_operator_index :: u32
  hc_wait_for_threshold :: bool
  hc_threshold_timeout :: duration
  hc_poll_interval :: duration

definition http_config_new :: "('sk, 's, 'p) signer \<Rightarrow> 'sk \<Rightarrow> u32 \<Rightarrow> ('sk, 'p) http_config" where
  "http_config_new G bls_secret operator_index =
     \<lparr>hc_bls_secret = bls_secret, hc_bls_public = sg_public G bls_secret,
      hc_operator_index = operator_index, hc_wait_for_threshold = False,
      hc_threshold_timeout = secs 60, hc_poll_interval = secs 1\<rparr>"

definition with_wait_for_threshold :: "bool \<Rightarrow> ('sk, 'p) http_config \<Rightarrow> ('sk, 'p) http_config" where
  "with_wait_for_threshold wait config = config\<lparr>hc_wait_for_threshold := wait\<rparr>"

definition with_threshold_timeout :: "duration \<Rightarrow> ('sk, 'p) http_config \<Rightarrow> ('sk, 'p) http_config" where
  "with_threshold_timeout timeout config = config\<lparr>hc_threshold_timeout := timeout\<rparr>"

definition with_poll_interval :: "duration \<Rightarrow> ('sk, 'p) http_config \<Rightarrow> ('sk, 'p) http_config" where
  "with_poll_interval interval config = config\<lparr>hc_poll_interval := interval\<rparr>"

record strategy_result =
  sa_service_id :: u64
  sa_call_id :: u64
  sa_output :: bytes
  sa_signature :: bytes
  sa_pubkey :: bytes
  sa_signer_bitmap :: u256
  sa_non_signer_indices :: "u32 list"

datatype strategy_error =
    HttpService client_error
  | P2PProtocol string
  | Bls string
  | NoAggregationStrategy
  | ThresholdNotMetS nat nat
  | TimeoutS
  | AlreadySubmittedS
  | SerializationS string
  | PanickedS

section \<open>The strategy\<close>

definition finish_http ::
  "(client_error + threshold_wait_result) \<times> 'w \<Rightarrow> (strategy_error + strategy_result) \<times> 'w" where
  "finish_http out =
     (case fst out of
        Inl e \<Rightarrow> Inl (HttpService e)
      | Inr SubmittedC \<Rightarrow> Inl AlreadySubmittedS
      | Inr (Aggregated result) \<Rightarrow>
          Inr \<lparr>sa_service_id = ar_service_id result, sa_call_id = ar_call_id result,
               sa_output = ar_output result, sa_signature = ar_signature result,
               sa_pubkey = ar_pubkey result, sa_signer_bitmap = ar_signer_bitmap result,
               sa_non_signer_indices = ar_non_signer_indices result\<rparr>, snd out)"

definition aggregate_via_http ::
  "('s, 'p) crypto \<Rightarrow> ('s, 'p) point_codec \<Rightarrow> ('sk, 's, 'p) signer \<Rightarrow> 'w server \<Rightarrow> ('sk, 'p) http_config \<Rightarrow>
   u64 \<Rightarrow> u64 \<Rightarrow> bytes \<Rightarrow> u32 \<Rightarrow> u32 \<Rightarrow> 'w \<Rightarrow> ((strategy_error + strategy_result) \<times> 'w) option" where
  "aggregate_via_http X K G S config service_id call_id output total_operators threshold w =
     (let message = create_signing_message X service_id call_id output in
      case sg_sign G (hc_bls_secret config) message of
        Inl e \<Rightarrow> Some (Inl (Bls e), w)
      | Inr signature \<Rightarrow>
          (case (pc_pk_ser K (hc_bls_public config), pc_sig_ser K signature) of
             (Inr pubkey_bytes, Inr sig_bytes) \<Rightarrow>
               (let (_, w1) = client_init_task X S service_id call_id output total_operators
                                (CountConfig (max threshold 1)) w;
                    submit_request = \<lparr>rq_service_id = service_id, rq_call_id = call_id,
                      rq_operator_index = hc_operator_index config, rq_output = output,
                      rq_signature = sig_bytes, rq_public_key = pubkey_bytes\<rparr>
                in case client_submit_signature S submit_request w1 of
                     (Inl e, w2) \<Rightarrow> Some (Inl (HttpService e), w2)
                   | (Inr response, w2) \<Rightarrow>
                       if hc_wait_for_threshold config
                       then map_option finish_http
                              (wait_for_threshold_or_submitted S service_id call_id
                                 (hc_poll_interval config) (hc_threshold_timeout config) w2)
                       else if rs_threshold_met response
                       then Some (finish_http (client_get_aggregated_or_submitted S service_id call_id w2))
                       else Some (Inl (ThresholdNotMetS (rs_signatures_collected response)
                                         (rs_threshold_required response)), w2))
           | _ \<Rightarrow> Some (Inl PanickedS, w)))"

section \<open>The calls of the strategy\<close>

context aggregation_server
begin

lemma client_init:
  assumes "ok w"
  shows "ok (snd (client_init_task X S sid cid out n th w))
    \<and> R (view w) (view (snd (client_init_task X S sid cid out n th w)))"
proof -
  obtain y w' where y: "se_init S \<lparr>iq_service_id = sid, iq_call_id = cid, iq_operator_count = n,
      iq_threshold = th, iq_output = out, iq_message = create_signing_message X sid cid out,
      iq_signature_scheme = ArkworksSha256\<rparr> w = (y, w')" by (rule prod.exhaust)
  then show ?thesis
    using init [OF assms, of "\<lparr>iq_service_id = sid, iq_call_id = cid, iq_operator_count = n,
        iq_threshold = th, iq_output = out, iq_message = create_signing_message X sid cid out,
        iq_signature_scheme = ArkworksSha256\<rparr>"]
    by (simp add: client_init_task_def client_init_task_with_message_def Let_def served_def
        split: sum.split)
qed

lemma client_submit:
  assumes "ok w" and "client_submit_signature S req w = (Inr resp, w')"
  shows "ok w' \<and> rs_accepted resp
    \<and> (\<exists>c v status. R (view w) v \<and> api_submit_signature D c req v = ((status, resp), view w'))"
proof -
  have y: "se_submit S req w = (Inr resp, w')" and acc: "rs_accepted resp"
    using assms(2) by (auto simp: client_submit_signature_def split: sum.splits prod.splits if_splits)
  have "served ok view time R fits_response (\<lambda>c. api_submit_signature D c req) w (Inr resp, w')"
    using submit [OF assms(1), of req] y by simp
  then show ?thesis
    using acc by (auto simp: served_def fits_response_def)
qed

lemma client_fetch:
  assumes "ok w" and "client_get_aggregated_or_submitted S sid cid w = (Inr (Aggregated r), w')"
  shows "ok w' \<and> R (view w) (view w') \<and> (\<exists>c. svc_get_aggregated_result D c sid cid (view w') = Some r)"
proof -
  obtain y w1 where y: "client_get_aggregated S sid cid w = (y, w1)" by (rule prod.exhaust)
  obtain z w2 where z: "client_get_status S sid cid w1 = (z, w2)" by (rule prod.exhaust)
  have "y = Inr (Some r) \<and> w1 = w'"
    using assms(2) y z
    by (cases y; cases z) (auto simp: client_get_aggregated_or_submitted_def split: option.splits if_splits)
  then show ?thesis using get_aggregated [OF assms(1) y] by auto
qed

lemma client_wait:
  assumes "ok w" and "0 < poll"
    and "wait_for_threshold_or_submitted S sid cid poll timeout w = Some (Inr (Aggregated r), w')"
  shows "ok w' \<and> R (view w) (view w') \<and> (\<exists>c. svc_get_aggregated_result D c sid cid (view w') = Some r)"
  using wait_answers [OF assms(1,2), of sid cid timeout] assms(3) by (simp add: wait_answer_def)

text \<open>A result of the strategy: an accepted submission and a later aggregate of the service.\<close>

lemma aggregate_via_http_ok:
  assumes "ok w" and "0 < hc_poll_interval config"
    and "aggregate_via_http X K G S config sid cid output n th w = Some (Inr r, w')"
  obtains signature sig_bytes pk_bytes c c' v v1 status resp a where
    "sg_sign G (hc_bls_secret config) (create_signing_message X sid cid output) = Inr signature"
    "pc_sig_ser K signature = Inr sig_bytes" "pc_pk_ser K (hc_bls_public config) = Inr pk_bytes"
    "R (view w) v"
    "api_submit_signature D c \<lparr>rq_service_id = sid, rq_call_id = cid,
       rq_operator_index = hc_operator_index config, rq_output = output, rq_signature = sig_bytes,
       rq_public_key = pk_bytes\<rparr> v = ((status, resp), v1)" "rs_accepted resp"
    "R v1 (view w')" "svc_get_aggregated_result D c' sid cid (view w') = Some a"
    "r = \<lparr>sa_service_id = ar_service_id a, sa_call_id = ar_call_id a, sa_output = ar_output a,
       sa_signature = ar_signature a, sa_pubkey = ar_pubkey a, sa_signer_bitmap = ar_signer_bitmap a,
       sa_non_signer_indices = ar_non_signer_indices a\<rparr>"
proof -
  let ?m = "create_signing_message X sid cid output"
  obtain signature where sg: "sg_sign G (hc_bls_secret config) ?m = Inr signature"
    using assms(3) by (auto simp: aggregate_via_http_def split: sum.splits)
  obtain sb where sb: "pc_sig_ser K signature = Inr sb"
    using assms(3) sg by (auto simp: aggregate_via_http_def split: sum.splits)
  obtain pb where pb: "pc_pk_ser K (hc_bls_public config) = Inr pb"
    using assms(3) sg sb by (auto simp: aggregate_via_http_def split: sum.splits)
  let ?req = "\<lparr>rq_service_id = sid, rq_call_id = cid, rq_operator_index = hc_operator_index config,
      rq_output = output, rq_signature = sb, rq_public_key = pb\<rparr>"
  obtain u w1 where init: "client_init_task X S sid cid output n (CountConfig (max th 1)) w = (u, w1)"
    by (rule prod.exhaust)
  have w1: "ok w1" "R (view w) (view w1)"
    using client_init [OF assms(1)] init by (metis snd_conv)+
  obtain y w2 where sub: "client_submit_signature S ?req w1 = (y, w2)" by (rule prod.exhaust)
  obtain resp where y: "y = Inr resp"
    using assms(3) sg sb pb init sub by (auto simp: aggregate_via_http_def split: sum.splits)
  obtain c v status where sv: "ok w2" "rs_accepted resp" "R (view w1) v"
    "api_submit_signature D c ?req v = ((status, resp), view w2)"
    using client_submit [OF w1(1)] sub y by blast
  have "\<exists>a. finish_http (Inr (Aggregated a), w') = (Inr r, w') \<and> R (view w2) (view w')
      \<and> (\<exists>c. svc_get_aggregated_result D c sid cid (view w') = Some a)"
  proof (cases "hc_wait_for_threshold config")
    case True
    then obtain x w3 where x: "wait_for_threshold_or_submitted S sid cid (hc_poll_interval config)
        (hc_threshold_timeout config) w2 = Some (x, w3)" "finish_http (x, w3) = (Inr r, w')"
      using assms(3) sg sb pb init sub y by (auto simp: aggregate_via_http_def)
    then obtain a where "x = Inr (Aggregated a)" "w3 = w'"
      by (auto simp: finish_http_def split: sum.splits threshold_wait_result.splits)
    then show ?thesis using client_wait [OF sv(1) assms(2)] x by blast
  next
    case False
    then obtain x w3 where x: "client_get_aggregated_or_submitted S sid cid w2 = (x, w3)"
      "finish_http (x, w3) = (Inr r, w')"
      using assms(3) sg sb pb init sub y
      by (cases "client_get_aggregated_or_submitted S sid cid w2")
        (auto simp: aggregate_via_http_def split: if_splits)
    then obtain a where "x = Inr (Aggregated a)" "w3 = w'"
      by (auto simp: finish_http_def split: sum.splits threshold_wait_result.splits)
    then show ?thesis using client_fetch [OF sv(1)] x by blast
  qed
  then obtain a c' where a: "finish_http (Inr (Aggregated a), w') = (Inr r, w')" "R (view w2) (view w')"
    "svc_get_aggregated_result D c' sid cid (view w') = Some a" by blast
  show thesis
    by (rule that [OF sg sb pb R_trans [OF w1(2) sv(3)] sv(4,2) a(2,3)])
      (use a(1) in \<open>simp add: finish_http_def\<close>)
qed

end

section \<open>Accepted submissions\<close>

lemma svc_step_config:
  assumes K: "codec_ok (dp_codec D)" and "svc_step D sv sv'" and inv: "agg_inv (sv_state sv)"
  shows "sv_config sv' = sv_config sv"
  using assms(2)
proof cases
  case (init cfg c sid cid out msg sch n)
  then show ?thesis using svc_init_outcome [OF K inv, of c sid cid out msg sch n cfg]
    by (simp add: request_outcome_def)
next
  case (submit c req)
  then show ?thesis
    using svc_submit_outcome [OF K inv, of c req]
    by (cases "check_submission D (at_call c 1) req sv") (auto simp: request_outcome_def)
next
  case (mark c sid cid)
  then show ?thesis using svc_mark_outcome [OF K inv, of c sid cid] by (simp add: request_outcome_def)
next
  case (remove c sid cid)
  then show ?thesis using svc_remove_outcome [OF prod.collapse [symmetric], of D c sid cid sv] by simp
next
  case (cleanup c kind)
  then show ?thesis using cleanup_outcome [OF K inv prod.collapse [symmetric], of c kind] by simp
qed

lemma svc_reachable_config:
  assumes "svc_reachable D sv sv'" and K: "codec_ok (dp_codec D)" and inv: "svc_inv D sv"
  shows "sv_config sv' = sv_config sv"
  using assms(1)
proof (induction rule: svc_reachable.induct)
  case (step u v)
  then have "agg_inv (sv_state u)"
    using svc_reachable_inv [OF _ K inv] by (simp add: svc_inv_def)
  with step show ?case using svc_step_config [OF K] by simp
qed simp

lemma api_submit_accepted:
  assumes K: "codec_ok (dp_codec D)" and inv: "agg_inv (sv_state v)"
    and cfg: "cf_verify_on_submit (sv_config v)" "cf_validate_output (sv_config v)"
    and run: "api_submit_signature D c req v = ((status, resp), v')" and acc: "rs_accepted resp"
  obtains t sig pk where
    "hm_get (sv_state v) (TaskId (rq_service_id req) (rq_call_id req)) = Some t"
    "pc_sig_de (dp_codec D) (rq_signature req) = Inr sig" "pc_pk_de (dp_codec D) (rq_public_key req) = Inr pk"
    "scheme_verify (dp_crypto D) (ts_signature_scheme t) pk (ts_message t) sig"
    "ts_output t = rq_output req"
    "hm_get (sv_state v') (TaskId (rq_service_id req) (rq_call_id req))
       = Some (put_signature (rq_operator_index req) sig pk t)"
proof -
  have svc: "svc_submit_signature D c req v = (Inr resp, v')"
    using run acc by (auto simp: api_submit_signature_def split: prod.splits sum.splits)
  note out = svc_submit_outcome [OF K inv, of c req]
  obtain sig pk st where chk: "check_submission D (at_call c 1) req v = Inr (sig, pk, st)"
    using out svc by (cases "check_submission D (at_call c 1) req v") auto
  let ?f = "submit_signature (now_of (at_call c 2)) (now_of (at_call c 3)) (rq_service_id req)
      (rq_call_id req) (rq_operator_index req) sig pk (sv_state v)"
  have "(\<exists>a. fst ?f = Inr a) \<and> sv_state v' = snd ?f"
    using out chk svc by (simp add: request_outcome_def)
  then obtain a where f: "?f = (Inr a, sv_state v')" by (metis prod.collapse)
  then obtain t where t: "hm_get (sv_state v) (TaskId (rq_service_id req) (rq_call_id req)) = Some t"
    "sv_state v' = hm_insert (TaskId (rq_service_id req) (rq_call_id req))
       (put_signature (rq_operator_index req) sig pk t) (sv_state v)"
    unfolding submit_Inr_iff by blast
  have "check_output v req = Inr ()" "pc_sig_de (dp_codec D) (rq_signature req) = Inr sig"
    "pc_pk_de (dp_codec D) (rq_public_key req) = Inr pk"
    using chk by (auto simp: check_submission_def res_bind_Inr_iff res_map_err_Inr_iff split: if_splits)
  moreover from this(1) have "ts_output t = rq_output req"
    using t(1) cfg(2) by (auto simp: check_output_def get_task_output_def split: if_splits)
  ultimately show thesis
    using that [OF t(1)] t check_submission_verified [OF chk cfg(1) t(1)] by simp
qed

section \<open>Properties\<close>

text \<open>What is relied on of the key type: a signature made for a message verifies under the signer's
  key for that message only, and only in the scheme it was made in.\<close>

definition signs_only :: "('s, 'p) crypto \<Rightarrow> ('sk, 's, 'p) signer \<Rightarrow> bool" where
  "signs_only X G \<longleftrightarrow>
     (\<forall>sk m s sch m'. sg_sign G sk m = Inr s \<longrightarrow> scheme_verify X sch (sg_public G sk) m' s \<longrightarrow>
        sch = ArkworksSha256 \<and> m' = m)"


section \<open>An undisturbed call\<close>

text \<open>No other party acts and every message arrives.\<close>

definition undisturbed :: "('s, 'p, 'b) world \<Rightarrow> bool" where
  "undisturbed w \<longleftrightarrow> (\<forall>n. tu_others (wo_turns w n) = [] \<and> tu_fault (wo_turns w n) = Delivered)"

lemma undisturbed_turn:
  assumes "undisturbed w"
  shows "wo_service (pass_turn D w) = wo_service w" and "undisturbed (pass_turn D w)"
    and "undisturbed (w\<lparr>wo_service := sv\<rparr>)"
  using assms by (simp_all add: undisturbed_def pass_turn_def this_turn_def)

lemma undisturbed_exchange:
  assumes "undisturbed w" and "\<And>c. h c (wo_service w) = (q c, sv c)"
  obtains c w' where "exchange D read h w = (read None (q c), w')" "wo_service w' = sv c" "undisturbed w'"
proof
  let ?c = "tu_clock (this_turn w)"
  show "exchange D read h w = (read None (q ?c), (pass_turn D w)\<lparr>wo_service := sv ?c\<rparr>)"
    using assms undisturbed_turn(1) [OF assms(1), of D]
    by (simp add: exchange_def Let_def) (simp add: undisturbed_def this_turn_def)
  show "wo_service ((pass_turn D w)\<lparr>wo_service := sv ?c\<rparr>) = sv ?c" by simp
  show "undisturbed ((pass_turn D w)\<lparr>wo_service := sv ?c\<rparr>)"
    using undisturbed_turn(2,3) [of "pass_turn D w"] undisturbed_turn(2) [OF assms(1), of D] by blast
qed

lemma api_init_existing:
  assumes K: "codec_ok (dp_codec D)" and inv: "agg_inv (sv_state sv)" and B: "dp_backend D = no_backend"
    and t: "hm_get (sv_state sv) (TaskId (iq_service_id req) (iq_call_id req)) = Some t"
  shows "snd (api_init_task D c req sv) = sv"
proof -
  have "snd (svc_init_task_with_message_config D c (iq_service_id req) (iq_call_id req) out msg sch n cfg sv)
      = sv" for out msg sch n cfg
  proof -
    obtain before where "svc_snapshot D (at_call c 0) sv = Inr before"
      by (rule svc_snapshot_ok [OF K inv])
    moreover have "snd (init_task_with_message_config (now_of (at_call c 1)) (iq_service_id req)
        (iq_call_id req) out msg sch n cfg (sv_state sv)) = sv_state sv"
      using t by (simp add: init_task_with_message_config_def Let_def)
    ultimately show ?thesis
      using t by (auto simp: svc_init_task_with_message_config_def persist_no_backend [OF K inv B]
          split: prod.splits sum.splits)
  qed
  then show ?thesis
    by (auto simp: api_init_task_def svc_init_task_with_config_def Let_def split: prod.splits sum.splits)
       (metis snd_conv)+
qed

text \<open>The request of an operator that may still sign a task of its own output.\<close>

definition may_sign :: "('s, 'p, 'b) deps \<Rightarrow> ('s, 'p) task_state \<Rightarrow> u32 \<Rightarrow> bytes \<Rightarrow> 's \<Rightarrow> 'p \<Rightarrow> bool" where
  "may_sign D t i output sig pk \<longleftrightarrow>
     ts_output t = output \<and> \<not> ts_submitted t \<and> ts_expires_at t = None \<and> i < ts_operator_count t
     \<and> \<not> has_signed i t \<and> scheme_verify (dp_crypto D) (ts_signature_scheme t) pk (ts_message t) sig"

lemma api_submit_run:
  assumes K: "codec_ok (dp_codec D)" and inv: "agg_inv (sv_state sv)" and B: "dp_backend D = no_backend"
    and t: "hm_get (sv_state sv) (TaskId (rq_service_id req) (rq_call_id req)) = Some t"
    and de: "pc_sig_de (dp_codec D) (rq_signature req) = Inr sig"
      "pc_pk_de (dp_codec D) (rq_public_key req) = Inr pk"
    and may: "may_sign D t (rq_operator_index req) (rq_output req) sig pk"
  shows "api_submit_signature D c req sv =
    ((200, \<lparr>rs_accepted = True,
            rs_signatures_collected = signature_count (put_signature (rq_operator_index req) sig pk t),
            rs_threshold_required = threshold_value t,
            rs_threshold_met = threshold_met (put_signature (rq_operator_index req) sig pk t),
            rs_error = None\<rparr>),
     sv\<lparr>sv_state := hm_insert (TaskId (rq_service_id req) (rq_call_id req))
          (put_signature (rq_operator_index req) sig pk t) (sv_state sv)\<rparr>)"
proof -
  let ?tid = "TaskId (rq_service_id req) (rq_call_id req)"
  let ?t' = "put_signature (rq_operator_index req) sig pk t"
  let ?s' = "hm_insert ?tid ?t' (sv_state sv)"
  obtain before where b: "svc_snapshot D (at_call c 0) sv = Inr before"
    by (rule svc_snapshot_ok [OF K inv])
  have chk: "check_submission D (at_call c 1) req sv =
      Inr (sig, pk, the (get_status (now_of (at_call (at_call c 1) 0)) (rq_service_id req) (rq_call_id req) (sv_state sv)))"
    using t de may
    by (simp add: check_submission_def check_output_def check_verified_def get_task_output_def
        get_task_signature_context_def get_status_def is_expired_def may_sign_def)
  have f: "submit_signature now now' (rq_service_id req) (rq_call_id req) (rq_operator_index req) sig pk (sv_state sv)
      = (Inr (signature_count ?t', threshold_met ?t'), ?s')" for now now'
    using t may by (auto simp: submit_Inr_iff is_expired_def may_sign_def)
  have "agg_inv ?s'"
    using submit_inv [OF inv, of 0 0 "rq_service_id req" "rq_call_id req" "rq_operator_index req" sig pk] f [of 0 0] by simp
  then have "persist_or_undo D (at_call c 4) before (rq_service_id req) (rq_call_id req) r (sv\<lparr>sv_state := ?s'\<rparr>)
      = (Inr r, sv\<lparr>sv_state := ?s'\<rparr>)" for r :: submit_response
    by (intro persist_no_backend [OF K _ B]) simp_all
  then show ?thesis
    using b chk f t
    by (simp add: api_submit_signature_def svc_submit_signature_def status_ok_def get_status_def)
qed

lemma aggregate_total:
  assumes "codec_ok (dp_codec D)" and "task_inv t" and "hm_get (ts_signatures t) i = Some sig"
    and "hm_get (sv_state sv) (TaskId sid cid) = Some t"
    and "threshold_met t" "\<not> ts_submitted t" "ts_expires_at t = None"
  shows "\<exists>a. (\<forall>c. svc_get_aggregated_result D c sid cid sv = Some a)
    \<and> ar_signer_bitmap a = ts_signer_bitmap t \<and> ar_non_signer_indices a = get_non_signers t"
proof -
  let ?ss = "fst (get_signatures_for_aggregation t)" and ?ks = "snd (get_signatures_for_aggregation t)"
  note g = get_signatures_for_aggregation_inv [OF assms(2)]
  have "length ?ss = length (get_signers t)" "length ?ks = length (get_signers t)"
    using arg_cong [OF g(1), of length] arg_cong [OF g(2), of length] by simp_all
  moreover have "i \<in> set (get_signers t)"
    using get_signers_inv(2) [OF assms(2)] assms(3) by blast
  ultimately have "?ss \<noteq> []" "?ks \<noteq> []" "length ?ss = length ?ks"
    by (metis length_0_conv list.set(1) empty_iff)+
  then obtain asig apk where agg: "bn254_aggregate (dp_crypto D) ?ss ?ks = Inr (asig, apk)"
    by (metis (no_types, lifting) bn254_aggregate_def surj_pair)
  obtain sb pb where "pc_sig_ser (dp_codec D) asig = Inr sb" "pc_pk_ser (dp_codec D) apk = Inr pb"
    using codec_okD(4,5) [OF assms(1)] by metis
  then show ?thesis
    using assms(4-7) agg
    by (auto simp: svc_get_aggregated_result_def get_for_aggregation_def is_expired_def res_ok_def
        case_prod_beta)
qed

lemma undisturbed_init:
  assumes "undisturbed w" and "\<And>c. snd (api_init_task D c q (wo_service w)) = wo_service w"
  shows "\<exists>u w'. se_init (live_server show_status D) q w = (u, w') \<and> wo_service w' = wo_service w \<and> undisturbed w'"
  using undisturbed_exchange [OF assms(1), of "\<lambda>c. api_init_task D c q"
      "\<lambda>c. fst (api_init_task D c q (wo_service w))" "\<lambda>_. wo_service w" D read_all] assms(2)
  by (simp add: live_server_def prod_eq_iff) blast

lemma undisturbed_submit:
  assumes "undisturbed w" and "\<And>c. api_submit_signature D c q (wo_service w) = ((status, resp), sv)"
  shows "\<exists>w'. se_submit (live_server show_status D) q w = (Inr resp, w') \<and> wo_service w' = sv \<and> undisturbed w'"
  using undisturbed_exchange [OF assms(1), of "\<lambda>c. api_submit_signature D c q" "\<lambda>_. (status, resp)" "\<lambda>_. sv"
      D read_response] assms(2)
  by (auto simp: live_server_def read_defs)

lemma undisturbed_aggregate:
  assumes "undisturbed w" and "\<And>c. svc_get_aggregated_result D c sid cid (wo_service w) = Some a"
  shows "\<exists>w'. client_get_aggregated_or_submitted (live_server show_status D) sid cid w = (Inr (Aggregated a), w')"
proof -
  obtain c w' where "se_aggregate (live_server show_status D) sid cid w = (read_status None (200, Some a), w')"
    using undisturbed_exchange [OF assms(1), of "\<lambda>c sv. (api_get_aggregated D c sid cid sv, sv)"
        "\<lambda>_. (200, Some a)" "\<lambda>_. wo_service w" D read_status] assms(2)
    by (auto simp: live_server_def api_get_aggregated_def status_ok_def)
  then show ?thesis
    by (simp add: client_get_aggregated_or_submitted_def client_get_aggregated_def read_defs is_success_def
        status_not_found_def)
qed

lemma aggregate_via_http_run:
  assumes K: "codec_ok (dp_codec D)" and inv: "agg_inv (sv_state (wo_service w))"
    and B: "dp_backend D = no_backend" and calm: "undisturbed w"
    and sign: "sg_sign G (hc_bls_secret config) (create_signing_message (dp_crypto D) sid cid output) = Inr s"
    and t: "hm_get (sv_state (wo_service w)) (TaskId sid cid) = Some t"
    and may: "may_sign D t (hc_operator_index config) output s (hc_bls_public config)"
    and wait: "\<not> hc_wait_for_threshold config"
  shows "\<exists>x w'. aggregate_via_http (dp_crypto D) (dp_codec D) G (live_server show_status D) config sid cid
      output n th w = Some (x, w')
    \<and> (let t' = put_signature (hc_operator_index config) s (hc_bls_public config) t in
       if threshold_met t'
       then (\<exists>r. x = Inr r \<and> sa_signer_bitmap r = ts_signer_bitmap t'
               \<and> sa_non_signer_indices r = get_non_signers t')
       else x = Inl (ThresholdNotMetS (signature_count t') (threshold_value t)))"
proof -
  let ?X = "dp_crypto D" and ?S = "live_server show_status D" and ?i = "hc_operator_index config"
  let ?pk = "hc_bls_public config"
  let ?t = "put_signature ?i s ?pk t"
  obtain sb pb where ser: "pc_sig_ser (dp_codec D) s = Inr sb" "pc_pk_ser (dp_codec D) ?pk = Inr pb"
    and de: "pc_sig_de (dp_codec D) sb = Inr s" "pc_pk_de (dp_codec D) pb = Inr ?pk"
    using K unfolding codec_ok_def by metis
  let ?q = "\<lparr>iq_service_id = sid, iq_call_id = cid, iq_operator_count = n,
      iq_threshold = CountConfig (max th 1), iq_output = output,
      iq_message = create_signing_message ?X sid cid output, iq_signature_scheme = ArkworksSha256\<rparr>"
  have "snd (api_init_task D c ?q (wo_service w)) = wo_service w" for c
    using api_init_existing [OF K inv B, of ?q t c] t by simp
  from undisturbed_init [OF calm this] obtain u w1 where
    "se_init ?S ?q w = (u, w1)" and w1: "wo_service w1 = wo_service w" "undisturbed w1" by blast
  then have init: "snd (client_init_task ?X ?S sid cid output n (CountConfig (max th 1)) w) = w1"
    by (simp add: client_init_task_def client_init_task_with_message_def Let_def split: sum.split)
  let ?req = "\<lparr>rq_service_id = sid, rq_call_id = cid, rq_operator_index = ?i, rq_output = output,
      rq_signature = sb, rq_public_key = pb\<rparr>"
  let ?resp = "\<lparr>rs_accepted = True, rs_signatures_collected = signature_count ?t,
      rs_threshold_required = threshold_value t, rs_threshold_met = threshold_met ?t, rs_error = None\<rparr>"
  let ?sv = "(wo_service w)\<lparr>sv_state := hm_insert (TaskId sid cid) ?t (sv_state (wo_service w))\<rparr>"
  have "api_submit_signature D c ?req (wo_service w1) = ((200, ?resp), ?sv)" for c
    using api_submit_run [OF K inv B, of ?req t s ?pk c] t de may w1 by simp
  from undisturbed_submit [OF w1(2) this] obtain w2 where
    "se_submit ?S ?req w1 = (Inr ?resp, w2)" and w2: "wo_service w2 = ?sv" "undisturbed w2" by blast
  then have sub: "client_submit_signature ?S ?req w1 = (Inr ?resp, w2)"
    by (simp add: client_submit_signature_def)
  have run: "aggregate_via_http ?X (dp_codec D) G ?S config sid cid output n th w =
      (if threshold_met ?t then Some (finish_http (client_get_aggregated_or_submitted ?S sid cid w2))
       else Some (Inl (ThresholdNotMetS (signature_count ?t) (threshold_value t)), w2))"
    using sign ser init sub wait by (simp add: aggregate_via_http_def case_prod_beta Let_def)
  show ?thesis
  proof (cases "threshold_met ?t")
    case False
    then show ?thesis by (simp add: run)
  next
    case True
    have ti: "task_inv ?t"
      by (rule put_signature_inv [OF agg_invD(1) [OF inv t]]) (use may in \<open>simp add: may_sign_def\<close>)
    obtain a where a: "\<And>c. svc_get_aggregated_result D c sid cid (wo_service w2) = Some a"
      "ar_signer_bitmap a = ts_signer_bitmap ?t" "ar_non_signer_indices a = get_non_signers ?t"
      using aggregate_total [OF K ti, of ?i s "wo_service w2" sid cid] True may
      by (auto simp: w2 put_signature_def may_sign_def)
    from undisturbed_aggregate [OF w2(2) a(1)] obtain w3 where
      "client_get_aggregated_or_submitted ?S sid cid w2 = (Inr (Aggregated a), w3)" by blast
    then show ?thesis using True a by (simp add: run finish_http_def)
  qed
qed


section \<open>A concrete operator\<close>

text \<open>Keys are lists of numbers, a signature lists for each of them the number, the scheme and the
  message.\<close>

definition tag_crypto :: "(bytes, bytes) crypto" where
  "tag_crypto = \<lparr>cr_verify = (\<lambda>k m s. s = concat (map (\<lambda>a. a # 0 # m) k)),
     cr_verify_tangle = (\<lambda>k m s. s = concat (map (\<lambda>a. a # 1 # m) k)), cr_sig_zero = [], cr_sig_add = (@),
     cr_pk_zero = [], cr_pk_add = (@), cr_keccak256 = (\<lambda>bs. bs)\<rparr>"

definition tag_codec :: "(bytes, bytes) point_codec" where
  "tag_codec = \<lparr>pc_sig_ser = Inr, pc_sig_de = Inr, pc_pk_ser = Inr, pc_pk_de = Inr,
     pc_hex_encode = pc_hex_encode demo_codec, pc_hex_decode = pc_hex_decode demo_codec,
     pc_u256_fmt = pc_u256_fmt demo_codec, pc_u256_parse = pc_u256_parse demo_codec\<rparr>"

definition tag_deps :: "(bytes, bytes, unit) deps" where
  "tag_deps = \<lparr>dp_backend = no_backend, dp_codec = tag_codec, dp_crypto = tag_crypto\<rparr>"

definition tag_signer :: "(u8, bytes, bytes) signer" where
  "tag_signer = \<lparr>sg_public = (\<lambda>sk. [sk]), sg_sign = (\<lambda>sk m. Inr (sk # 0 # m))\<rparr>"

definition tag_start :: "(bytes, bytes, unit) service" where
  "tag_start = service_new service_config_default"

definition tag_init :: init_request where
  "tag_init = \<lparr>iq_service_id = 7, iq_call_id = 1, iq_operator_count = 3, iq_threshold = CountConfig 1,
     iq_output = [9], iq_message = create_signing_message tag_crypto 7 1 [9],
     iq_signature_scheme = ArkworksSha256\<rparr>"

definition tag_world :: "(bytes, bytes, unit) world" where
  "tag_world = \<lparr>wo_service = snd (api_init_task tag_deps (demo_clock 0) tag_init tag_start),
     wo_now = 0, wo_turns = (\<lambda>_. demo_turn), wo_turn = 0\<rparr>"

definition tag_task :: "(bytes, bytes) task_state" where
  "tag_task = with_message_config 0 7 1 [9] (create_signing_message tag_crypto 7 1 [9]) ArkworksSha256 3
     (Count 1) None None"

definition tag_config :: "(u8, bytes) http_config" where
  "tag_config = http_config_new tag_signer 5 1"

lemma tag_laws:
  "codec_ok (dp_codec tag_deps)" "bls_ok (dp_crypto tag_deps)" "signs_only (dp_crypto tag_deps) tag_signer"
  "dp_backend tag_deps = no_backend"
proof -
  show "codec_ok (dp_codec tag_deps)"
    using demo_codec_ok by (simp add: tag_deps_def tag_codec_def codec_ok_def)
  show "bls_ok (dp_crypto tag_deps)"
    by (auto simp: tag_deps_def bls_ok_def tag_crypto_def scheme_verify_def split: signature_scheme.split)
  show "signs_only (dp_crypto tag_deps) tag_signer"
    by (auto simp: tag_deps_def signs_only_def tag_crypto_def tag_signer_def scheme_verify_def
        split: signature_scheme.splits)
qed (simp add: tag_deps_def)

lemma tag_world_task:
  "hm_get (sv_state (wo_service tag_world)) (TaskId 7 1) = Some tag_task"
  "sv_config (wo_service tag_world) = service_config_default" "svc_inv tag_deps (wo_service tag_world)"
proof -
  have inv: "svc_inv tag_deps tag_start" by (simp add: svc_inv_empty tag_start_def service_new_def)
  have agg: "agg_inv (sv_state tag_start)" using inv by (simp add: svc_inv_def)
  have reach: "svc_reachable tag_deps tag_start (wo_service tag_world)"
    by (simp add: tag_world_def api_reachable)
  from svc_reachable_inv [OF reach tag_laws(1) inv]
  show "svc_inv tag_deps (wo_service tag_world)" .
  from svc_reachable_config [OF reach tag_laws(1) inv]
  show "sv_config (wo_service tag_world) = service_config_default"
    by (simp add: tag_start_def service_new_def)
  have cfg: "api_task_config (CountConfig 1) = task_config_default\<lparr>tc_threshold_type := Count 1,
      tc_operator_stakes := None\<rparr>"
    by (simp add: api_task_config_def)
  let ?cfg = "api_task_config (CountConfig 1)"
  let ?s = "[(TaskId 7 1, tag_task)]"
  have ne: "create_signing_message tag_crypto 7 1 [9] \<noteq> []" by (simp add: create_signing_message_def be_bytes_def)
  have f: "init_task_with_message_config (now_of (at_call (demo_clock 0) 1)) 7 1 [9]
      (create_signing_message tag_crypto 7 1 [9]) ArkworksSha256 3 ?cfg (sv_state tag_start) = (Inr (), ?s)"
    by (simp add: init_task_with_message_config_def tag_start_def service_new_def hm_insert_def tag_task_def cfg
        task_config_default_def now_of_def at_call_def demo_clock_def)
  obtain before where b: "svc_snapshot tag_deps (at_call (demo_clock 0) 0) tag_start = Inr before"
    by (rule svc_snapshot_ok [OF tag_laws(1) agg])
  have "agg_inv ?s"
    by (auto simp: agg_inv_def hm_wf_def tag_task_def intro!: with_message_config_inv)
  then have p: "persist_or_undo tag_deps (at_call (demo_clock 0) 2) before 7 1 () (tag_start\<lparr>sv_state := ?s\<rparr>)
      = (Inr (), tag_start\<lparr>sv_state := ?s\<rparr>)"
    by (intro persist_no_backend [OF tag_laws(1) _ tag_laws(4)]) simp_all
  have "svc_init_task_with_message_config tag_deps (demo_clock 0) 7 1 [9]
      (create_signing_message tag_crypto 7 1 [9]) ArkworksSha256 3 ?cfg tag_start
      = (Inr (), tag_start\<lparr>sv_state := ?s\<rparr>)"
    using b f p by (simp add: svc_init_task_with_message_config_def)
  then show "hm_get (sv_state (wo_service tag_world)) (TaskId 7 1) = Some tag_task"
    using ne by (simp add: tag_world_def api_init_task_def tag_init_def)
qed

lemma tag_world_calm: "undisturbed tag_world" "nothing_removed tag_world"
  by (simp_all add: undisturbed_def nothing_removed_def tag_world_def demo_turn_def)

lemma tag_signature:
  "sg_sign tag_signer (hc_bls_secret tag_config) (create_signing_message (dp_crypto tag_deps) 7 1 [9])
     = Inr (5 # 0 # create_signing_message tag_crypto 7 1 [9])"
  by (simp add: tag_signer_def tag_config_def http_config_new_def tag_deps_def)

lemma tag_may_sign:
  "may_sign tag_deps tag_task (hc_operator_index tag_config) [9]
     (5 # 0 # create_signing_message tag_crypto 7 1 [9]) (hc_bls_public tag_config)"
  by (simp add: may_sign_def tag_task_def tag_config_def http_config_new_def tag_signer_def tag_deps_def
      scheme_verify_def tag_crypto_def has_signed_def)

lemma tag_threshold: "threshold_met (put_signature i s k tag_task)"
  by (simp add: threshold_met_def signature_count_def put_signature_def tag_task_def hm_insert_def)

lemma tag_run:
  "\<exists>r w'. aggregate_via_http (dp_crypto tag_deps) (dp_codec tag_deps) tag_signer
     (live_server show_nat tag_deps) tag_config 7 1 [9] 3 3 tag_world = Some (Inr r, w')"
  using aggregate_via_http_run [OF tag_laws(1) _ tag_laws(4) tag_world_calm(1) tag_signature
      tag_world_task(1) tag_may_sign, of show_nat 3 3] tag_world_task(3) tag_threshold
  by (auto simp: svc_inv_def tag_config_def http_config_new_def Let_def)



end
