(* ===== verification/P2p_Strategy.thy ===== *)
theory P2p_Strategy
  imports Agg_Sig_Correct Http_Strategy "HOL-Library.Multiset"
begin

text \<open>
  The aggregation strategy over gossip and the choice between the two strategies,
  \<open>crates/tangle-extra/src/strategy.rs\<close>. The protocol run is that of \<open>Agg_Sig_Protocol\<close> for the
  BN254 key type, whose aggregation is \<open>bn254_aggregate\<close>; the events of the run are an argument. A
  \<open>HashMap\<close> is iterated in the order of its list. \<open>debug\<close> is the derived \<open>Debug\<close> of the
  protocol's error.
\<close>

section \<open>Configuration\<close>

datatype strategy_threshold = CountBased | StakeWeightedT

definition strategy_threshold_from :: "u8 \<Rightarrow> strategy_threshold" where
  "strategy_threshold_from value = (if value = 1 then StakeWeightedT else CountBased)"

record ('sk, 'p) p2p_config =
  pg_network_handle :: "'sk network_handle"
  pg_num_aggregators :: u16
  pg_timeout :: duration
  pg_threshold_bps :: u16
  pg_threshold_type :: strategy_threshold
  pg_participant_public_keys :: "(peer_id, 'p) hmap"
  pg_operator_weights :: "(peer_id, u64) hmap"

definition p2p_config_new :: "'sk network_handle \<Rightarrow> (peer_id, 'p) hmap \<Rightarrow> ('sk, 'p) p2p_config" where
  "p2p_config_new network_handle participant_public_keys =
     \<lparr>pg_network_handle = network_handle, pg_num_aggregators = 2, pg_timeout = secs 30,
      pg_threshold_bps = 6700, pg_threshold_type = CountBased,
      pg_participant_public_keys = participant_public_keys, pg_operator_weights = []\<rparr>"

definition with_num_aggregators :: "u16 \<Rightarrow> ('sk, 'p) p2p_config \<Rightarrow> ('sk, 'p) p2p_config" where
  "with_num_aggregators num config = config\<lparr>pg_num_aggregators := num\<rparr>"

definition with_timeout :: "duration \<Rightarrow> ('sk, 'p) p2p_config \<Rightarrow> ('sk, 'p) p2p_config" where
  "with_timeout timeout config = config\<lparr>pg_timeout := timeout\<rparr>"

definition with_threshold_percentage :: "u8 \<Rightarrow> ('sk, 'p) p2p_config \<Rightarrow> ('sk, 'p) p2p_config" where
  "with_threshold_percentage percentage config = config\<lparr>pg_threshold_bps := ucast percentage * 100\<rparr>"

definition with_threshold_bps :: "u16 \<Rightarrow> ('sk, 'p) p2p_config \<Rightarrow> ('sk, 'p) p2p_config" where
  "with_threshold_bps bps config = config\<lparr>pg_threshold_bps := bps\<rparr>"

definition with_threshold_type :: "strategy_threshold \<Rightarrow> ('sk, 'p) p2p_config \<Rightarrow> ('sk, 'p) p2p_config" where
  "with_threshold_type threshold_type config = config\<lparr>pg_threshold_type := threshold_type\<rparr>"

definition with_operator_weights :: "(peer_id, u64) hmap \<Rightarrow> ('sk, 'p) p2p_config \<Rightarrow> ('sk, 'p) p2p_config" where
  "with_operator_weights weights config = config\<lparr>pg_operator_weights := weights\<rparr>"

definition with_stake_weighted_threshold ::
  "u16 \<Rightarrow> (peer_id, u64) hmap \<Rightarrow> ('sk, 'p) p2p_config \<Rightarrow> ('sk, 'p) p2p_config" where
  "with_stake_weighted_threshold threshold_bps weights config =
     config\<lparr>pg_threshold_bps := threshold_bps, pg_threshold_type := StakeWeightedT,
            pg_operator_weights := weights\<rparr>"

section \<open>The strategy\<close>

text \<open>\<open>DynamicWeight::equal\<close>; the left value is the failed assertion.\<close>

definition dynamic_equal :: "nat \<Rightarrow> u8 \<Rightarrow> string + dynamic_weight" where
  "dynamic_equal total_participants threshold_percentage =
     res_bind (equal_new (of_nat total_participants) threshold_percentage) (\<lambda>w. Inr (EqualW w))"

definition dynamic_custom :: "(peer_id, u64) hmap \<Rightarrow> u64 \<Rightarrow> dynamic_weight" where
  "dynamic_custom weights threshold_weight =
     CustomW \<lparr>cu_weights = weights, cu_threshold_weight = threshold_weight\<rparr>"

definition strategy_weight :: "('sk, 'p) p2p_config \<Rightarrow> string + dynamic_weight" where
  "strategy_weight config =
     (let by_count = dynamic_equal (hm_len (pg_participant_public_keys config))
                       (ucast (pg_threshold_bps config div 100))
      in case pg_threshold_type config of
           CountBased \<Rightarrow> by_count
         | StakeWeightedT \<Rightarrow>
             (let total_weight = sum_list (hm_values (pg_operator_weights config));
                  threshold_weight = (total_weight * ucast (pg_threshold_bps config)) div 10000
              in if pg_operator_weights config = [] then by_count
                 else Inr (dynamic_custom (pg_operator_weights config) threshold_weight)))"

text \<open>The loop that builds the bitmap and the list of non-signers.\<close>

definition signer_bits :: "peer_id list \<Rightarrow> peer_id list \<Rightarrow> u256 \<times> u32 list" where
  "signer_bits sorted_peers contributors =
     fold (\<lambda>(idx, peer_id) (signer_bitmap, non_signer_indices).
         if peer_id \<in> set contributors
         then (or signer_bitmap (push_bit idx 1), non_signer_indices)
         else (signer_bitmap, non_signer_indices @ [of_nat idx]))
       (enumerate 0 sorted_peers) (0, [])"

definition aggregate_keys ::
  "('s, 'p) crypto \<Rightarrow> ('s, 'p) point_codec \<Rightarrow> 's \<Rightarrow> 'p list \<Rightarrow> strategy_error + bytes" where
  "aggregate_keys X K signature signer_pubkeys =
     (if length signer_pubkeys = 1
      then res_map_err (\<lambda>_. PanickedS) (pc_pk_ser K (hd signer_pubkeys))
      else let dummy_sigs = map (\<lambda>_. signature) [0..<length signer_pubkeys]
           in res_bind (res_map_err (\<lambda>e. Bls (''Failed to aggregate pubkeys: '' @ e))
                          (bn254_aggregate X dummy_sigs signer_pubkeys)) (\<lambda>(_, agg_pk).
              res_map_err (\<lambda>_. PanickedS) (pc_pk_ser K agg_pk)))"

definition p2p_result ::
  "('s, 'p) crypto \<Rightarrow> ('s, 'p) point_codec \<Rightarrow> ('sk, 'p) p2p_config \<Rightarrow> u64 \<Rightarrow> u64 \<Rightarrow> bytes \<Rightarrow>
   's aggregation_result \<Rightarrow> strategy_error + strategy_result" where
  "p2p_result X K config service_id call_id output result =
     res_bind (res_map_err (\<lambda>_. PanickedS) (pc_sig_ser K (aggregation_result.ar_signature result))) (\<lambda>sig_bytes.
       let sorted_peers = hm_keys (pg_participant_public_keys config);
           (signer_bitmap, non_signer_indices) = signer_bits sorted_peers (ar_contributors result);
           signer_pubkeys = List.map_filter (hm_get (pg_participant_public_keys config))
             (filter (\<lambda>p. p \<in> set (ar_contributors result)) sorted_peers)
       in res_bind (aggregate_keys X K (aggregation_result.ar_signature result) signer_pubkeys) (\<lambda>aggregated_pubkey.
            Inr \<lparr>sa_service_id = service_id, sa_call_id = call_id, sa_output = output,
                 sa_signature = sig_bytes, sa_pubkey = aggregated_pubkey,
                 sa_signer_bitmap = signer_bitmap, sa_non_signer_indices = non_signer_indices\<rparr>))"

definition aggregate_via_p2p ::
  "('s, 'p) crypto \<Rightarrow> ('s, 'p) point_codec \<Rightarrow> (aggregation_error \<Rightarrow> string) \<Rightarrow>
   ('sk, 'p, 's, 's, 'p, 'c) env \<Rightarrow> ('sk, 'p) p2p_config \<Rightarrow> u64 \<Rightarrow> u64 \<Rightarrow> bytes \<Rightarrow> loop_event list \<Rightarrow>
   (strategy_error + strategy_result) option" where
  "aggregate_via_p2p X K debug E config service_id call_id output evs =
     (let message = create_signing_message X service_id call_id output;
          message_hash = en_blake3 E message;
          protocol_config = protocol_config_new (pg_network_handle config) (pg_num_aggregators config)
                              (pg_timeout config)
      in case strategy_weight config of
           Inl _ \<Rightarrow> Some (Inl PanickedS)
         | Inr weight_scheme \<Rightarrow>
             (case protocol_run E message_hash evs
                     (protocol_new E protocol_config (dynamic_scheme weight_scheme)
                        (pg_participant_public_keys config)) of
                None \<Rightarrow> None
              | Some (Inl Panicked, _) \<Rightarrow> Some (Inl PanickedS)
              | Some (Inl e, _) \<Rightarrow> Some (Inl (P2PProtocol (debug e)))
              | Some (Inr result, _) \<Rightarrow> Some (p2p_result X K config service_id call_id output result)))"

section \<open>The choice of a strategy\<close>

datatype ('sk, 'p) aggregation_strategy =
    HttpStrategy "('sk, 'p) http_config"
  | P2PGossip "('sk, 'p) p2p_config"

definition strategy_aggregate ::
  "('s, 'p) crypto \<Rightarrow> ('s, 'p) point_codec \<Rightarrow> (aggregation_error \<Rightarrow> string) \<Rightarrow> ('sk, 's, 'p) signer \<Rightarrow>
   'w server \<Rightarrow> ('sk, 'p, 's, 's, 'p, 'c) env \<Rightarrow> loop_event list \<Rightarrow> ('sk, 'p) aggregation_strategy \<Rightarrow>
   u64 \<Rightarrow> u64 \<Rightarrow> bytes \<Rightarrow> u32 \<Rightarrow> u32 \<Rightarrow> 'w \<Rightarrow> ((strategy_error + strategy_result) \<times> 'w) option" where
  "strategy_aggregate X K debug G S E evs strategy service_id call_id output total_operators threshold w =
     (case strategy of
        HttpStrategy config \<Rightarrow>
          aggregate_via_http X K G S config service_id call_id output total_operators threshold w
      | P2PGossip config \<Rightarrow>
          map_option (\<lambda>r. (r, w)) (aggregate_via_p2p X K debug E config service_id call_id output evs))"

section \<open>Bitmap and keys\<close>

lemma signer_bits_snoc:
  "signer_bits (ps @ [p]) cs =
     (let (bits, rest) = signer_bits ps cs in
      if p \<in> set cs then (or bits (push_bit (length ps) 1), rest) else (bits, rest @ [of_nat (length ps)]))"
  by (simp add: signer_bits_def enumerate_append_eq Let_def case_prod_beta)

lemma signer_bits_spec:
  "(\<forall>i. bit (fst (signer_bits ps cs)) i \<longleftrightarrow> i < 256 \<and> i < length ps \<and> ps ! i \<in> set cs)
   \<and> snd (signer_bits ps cs) = map of_nat (filter (\<lambda>i. ps ! i \<notin> set cs) [0..<length ps])"
proof (induction ps rule: rev_induct)
  case Nil
  then show ?case by (simp add: signer_bits_def)
next
  case (snoc p ps)
  have rest: "filter (\<lambda>i. (ps @ [p]) ! i \<notin> set cs) [0..<length ps] = filter (\<lambda>i. ps ! i \<notin> set cs) [0..<length ps]"
    by (rule filter_cong) (simp_all add: nth_append)
  obtain bits rest where b: "signer_bits ps cs = (bits, rest)" by (rule prod.exhaust)
  have IH: "bit bits i \<longleftrightarrow> i < 256 \<and> i < length ps \<and> ps ! i \<in> set cs"
    "rest = map of_nat (filter (\<lambda>i. ps ! i \<notin> set cs) [0..<length ps])" for i
    using snoc b by simp_all
  have "bit (fst (signer_bits (ps @ [p]) cs)) i \<longleftrightarrow>
      bit bits i \<or> i = length ps \<and> i < 256 \<and> p \<in> set cs" for i
    by (auto simp: signer_bits_snoc b bit_or_iff bit_exp_iff)
  moreover have "i < length (ps @ [p]) \<and> (ps @ [p]) ! i \<in> set cs \<longleftrightarrow>
      (i < length ps \<and> ps ! i \<in> set cs) \<or> (i = length ps \<and> p \<in> set cs)" for i
    by (cases "i < length ps"; cases "i = length ps") (simp_all add: nth_append)
  moreover have "snd (signer_bits (ps @ [p]) cs) =
      map of_nat (filter (\<lambda>i. (ps @ [p]) ! i \<notin> set cs) [0..<length (ps @ [p])])"
    using rest by (simp add: signer_bits_snoc b IH(2))
  ultimately show ?case using IH(1) by blast
qed

text \<open>What is relied on of the curve besides \<open>bls_ok\<close>: the keys form a commutative group, of which
  the neutral element, associativity and commutativity are used. For BN254 the parameters of the
  protocol are these functions.\<close>

definition keys_commute :: "('s, 'p) crypto \<Rightarrow> bool" where
  "keys_commute X \<longleftrightarrow>
     (\<forall>a b. cr_pk_add X a b = cr_pk_add X b a)
     \<and> (\<forall>a b c. cr_pk_add X (cr_pk_add X a b) c = cr_pk_add X a (cr_pk_add X b c))
     \<and> (\<forall>a. cr_pk_add X (cr_pk_zero X) a = a)"

definition bn254_env :: "('s, 'p) crypto \<Rightarrow> ('sk, 'p, 's, 's, 'p, 'c) env \<Rightarrow> bool" where
  "bn254_env X E \<longleftrightarrow> en_verify E = cr_verify X \<and> en_aggregate E = bn254_aggregate X
     \<and> en_verify_aggregate E = verify_aggregate X"

definition sum_keys :: "('s, 'p) crypto \<Rightarrow> 'p list \<Rightarrow> 'p" where
  "sum_keys X ks = fold (\<lambda>k a. cr_pk_add X a k) ks (cr_pk_zero X)"

lemma sum_keys_mset:
  assumes "keys_commute X" and "mset ks = mset ls"
  shows "sum_keys X ks = sum_keys X ls"
proof -
  have "cr_pk_add X (cr_pk_add X a k) l = cr_pk_add X (cr_pk_add X a l) k" for a k l
    using assms(1) unfolding keys_commute_def by metis
  then have "fold (\<lambda>k a. cr_pk_add X a k) ks = fold (\<lambda>k a. cr_pk_add X a k) ls"
    by (intro fold_multiset_equiv assms(2)) (simp add: fun_eq_iff)
  then show ?thesis by (simp add: sum_keys_def)
qed

lemma aggregate_key_sum:
  assumes "bn254_aggregate X sigs ks = Inr (asig, apk)"
  shows "apk = sum_keys X ks"
proof -
  have "snd (fold (\<lambda>(i, key) (as, ak). (cr_sig_add X as (sigs ! i), cr_pk_add X ak key)) ps (a, b))
      = fold (\<lambda>(i, key) ak. cr_pk_add X ak key) ps b" for ps :: "(nat \<times> 'b) list" and a b
    by (induction ps arbitrary: a b) auto
  moreover have "fold (\<lambda>(i, key) ak. cr_pk_add X ak key) (enumerate n ks) b = fold (\<lambda>k a. cr_pk_add X a k) ks b" for n b
    by (induction ks arbitrary: n b) auto
  ultimately show ?thesis
    using assms by (auto simp: bn254_aggregate_def sum_keys_def split: if_splits) (metis snd_conv)
qed

lemma aggregate_keys_sum:
  assumes "keys_commute X" and "codec_ok K" and "aggregate_keys X K sig ks = Inr bs"
  shows "pc_pk_de K bs = Inr (sum_keys X ks)"
proof (cases "length ks = 1")
  case True
  then obtain k where k: "ks = [k]" by (metis One_nat_def length_0_conv length_Suc_conv)
  then have "pc_pk_ser K k = Inr bs"
    using assms(3) by (simp add: aggregate_keys_def res_map_err_Inr_iff)
  then have "pc_pk_de K bs = Inr k"
    using assms(2) unfolding codec_ok_def by (metis sum.inject(2))
  moreover have "cr_pk_add X (cr_pk_zero X) k = k"
    using assms(1) unfolding keys_commute_def by blast
  then have "sum_keys X ks = k" by (simp add: sum_keys_def k)
  ultimately show ?thesis by simp
next
  case False
  then obtain asig apk where "bn254_aggregate X (map (\<lambda>_. sig) [0..<length ks]) ks = Inr (asig, apk)"
    "pc_pk_ser K apk = Inr bs"
    using assms(3) by (auto simp: aggregate_keys_def res_bind_Inr_iff res_map_err_Inr_iff)
  then show ?thesis
    using assms(2) aggregate_key_sum unfolding codec_ok_def by (metis sum.inject(2))
qed

lemma map_filter_mset: "mset xs = mset ys \<Longrightarrow> mset (List.map_filter f xs) = mset (List.map_filter f ys)"
  by (simp add: List.map_filter_def mset_filter mset_map)

lemma participants_mset:
  assumes "hm_wf m" and "distinct cs" and "set cs \<subseteq> set (hm_keys m)"
  shows "mset (filter (\<lambda>p. p \<in> set cs) (hm_keys m)) = mset cs"
proof -
  have "distinct (filter (\<lambda>p. p \<in> set cs) (hm_keys m))" using assms(1) by (simp add: hm_wf_def)
  moreover have "set (filter (\<lambda>p. p \<in> set cs) (hm_keys m)) = set cs" using assms(3) by auto
  ultimately show ?thesis using assms(2) by (simp only: set_eq_iff_mset_eq_distinct [symmetric])
qed

lemma protocol_new_contributors:
  assumes "protocol_run E m evs (protocol_new E config ws keys) = Some (x, P')"
  shows "distinct (contributors_of P' m')" and "pr_public_keys P' = keys"
proof -
  have adv: "advances (protocol_new E config ws keys) P'"
    by (rule run_advances [OF assms])
  have "distinct (contributors_of (protocol_new E config ws keys) m')"
    by (simp add: contributors_of_def protocol_new_def state_new_def)
  with adv show "distinct (contributors_of P' m')" by (simp add: advances_def)
  from adv show "pr_public_keys P' = keys" by (simp add: advances_def protocol_new_def)
qed

text \<open>The aggregate of a certified result under the keys of all its contributors.\<close>

lemma certified_verifies:
  assumes E: "bn254_env X E" and cert: "certified E P r"
    and honest: "set (ar_contributors r) \<inter> set (ar_malicious r) = {}"
  shows "cr_verify X (sum_keys X (List.map_filter (hm_get (pr_public_keys P)) (ar_contributors r)))
    (ar_message r) (aggregation_result.ar_signature r)"
proof -
  have h: "honest P (ar_contributors r) = ar_contributors r"
    using honest cert by (auto simp: honest_def filter_id_conv certified_def)
  obtain sigs keys key where "collect_signatures_and_public_keys P (ar_contributors r) = Inr (sigs, keys)"
    and agg: "en_aggregate E sigs keys = Inr (aggregation_result.ar_signature r, key)"
    and ver: "en_verify_aggregate E (ar_message r) (aggregation_result.ar_signature r) key = Inr True"
    using cert unfolding certified_def by blast
  then have "keys = List.map_filter (hm_get (pr_public_keys P)) (ar_contributors r)"
    by (auto simp: collect_signatures_and_public_keys_def h Let_def split: if_splits)
  moreover have "key = sum_keys X keys"
    using agg E by (auto simp: bn254_env_def intro: aggregate_key_sum)
  ultimately show ?thesis
    using ver E by (simp add: bn254_env_def verify_aggregate_def)
qed

section \<open>Properties\<close>

abbreviation p2p_run ::
  "('s, 'p) crypto \<Rightarrow> ('sk, 'p, 's, 's, 'p, 'c) env \<Rightarrow> ('sk, 'p) p2p_config \<Rightarrow> dynamic_weight \<Rightarrow> u64 \<Rightarrow> u64 \<Rightarrow>
   bytes \<Rightarrow> loop_event list \<Rightarrow>
   ((aggregation_error + 's aggregation_result) \<times> ('sk, 'p, 's, 's, 'c) protocol) option" where
  "p2p_run X E config weight sid cid output evs \<equiv>
     protocol_run E (en_blake3 E (create_signing_message X sid cid output)) evs
       (protocol_new E (protocol_config_new (pg_network_handle config) (pg_num_aggregators config)
          (pg_timeout config)) (dynamic_scheme weight) (pg_participant_public_keys config))"

lemma aggregate_via_p2p_ok:
  assumes "aggregate_via_p2p X K debug E config sid cid output evs = Some (Inr r)"
  obtains weight res P' where "strategy_weight config = Inr weight"
    "p2p_run X E config weight sid cid output evs = Some (Inr res, P')"
    "p2p_result X K config sid cid output res = Inr r"
proof -
  obtain weight where w: "strategy_weight config = Inr weight"
    using assms by (cases "strategy_weight config") (simp_all add: aggregate_via_p2p_def)
  obtain y where y: "p2p_run X E config weight sid cid output evs = Some y"
    using assms w by (cases "p2p_run X E config weight sid cid output evs")
      (simp_all add: aggregate_via_p2p_def)
  obtain x P' where xp: "y = (x, P')" by (rule prod.exhaust)
  obtain res where "x = Inr res"
    using assms w y xp
    by (cases x) (auto simp: aggregate_via_p2p_def split: aggregation_error.splits)
  then show thesis
    using that w y xp assms by (simp add: aggregate_via_p2p_def)
qed

text \<open>
  C17: an aggregate obtained over gossip is consistent: the bitmap marks exactly the participants
  listed as contributors, at their positions in the iteration order of the map and below 256, the
  list of non-signers is the rest, and, if no contributor is known as malicious and all are
  participants, the aggregated signature is valid under the aggregated key for the message the
  protocol agreed on.
\<close>

theorem p2p_result_verifies:
  assumes env: "bn254_env X E" and comm: "keys_commute X" and K: "codec_ok K"
    and wf: "hm_wf (pg_participant_public_keys config)"
    and run: "aggregate_via_p2p X K debug E config sid cid output evs = Some (Inr r)"
  shows "\<exists>weight res P'. strategy_weight config = Inr weight
    \<and> p2p_run X E config weight sid cid output evs = Some (Inr res, P')
    \<and> sa_service_id r = sid \<and> sa_call_id r = cid \<and> sa_output r = output
    \<and> (\<forall>i. bit (sa_signer_bitmap r) i \<longleftrightarrow> i < 256 \<and> i < hm_len (pg_participant_public_keys config)
         \<and> hm_keys (pg_participant_public_keys config) ! i \<in> set (ar_contributors res))
    \<and> sa_non_signer_indices r = map of_nat
         (filter (\<lambda>i. hm_keys (pg_participant_public_keys config) ! i \<notin> set (ar_contributors res))
            [0..<hm_len (pg_participant_public_keys config)])
    \<and> (set (ar_contributors res) \<inter> set (ar_malicious res) = {}
       \<and> set (ar_contributors res) \<subseteq> set (hm_keys (pg_participant_public_keys config)) \<longrightarrow>
       (\<exists>asig apk. pc_sig_de K (sa_signature r) = Inr asig \<and> pc_pk_de K (sa_pubkey r) = Inr apk
          \<and> cr_verify X apk (ar_message res) asig))"
proof -
  let ?keys = "pg_participant_public_keys config"
  obtain weight res P' where w: "strategy_weight config = Inr weight"
    and res: "p2p_run X E config weight sid cid output evs = Some (Inr res, P')"
    and r: "p2p_result X K config sid cid output res = Inr r"
    by (rule aggregate_via_p2p_ok [OF run])
  have cert: "certified E P' res" by (rule protocol_run_certified [OF res])
  note new = protocol_new_contributors [OF res]
  let ?cs = "ar_contributors res" and ?s = "aggregation_result.ar_signature res"
  obtain sb where sb: "pc_sig_ser K ?s = Inr sb" "sa_signature r = sb"
    using r by (auto simp: p2p_result_def res_bind_Inr_iff res_map_err_Inr_iff Let_def case_prod_beta)
  obtain pb where pb: "aggregate_keys X K ?s (List.map_filter (hm_get ?keys)
      (filter (\<lambda>p. p \<in> set ?cs) (hm_keys ?keys))) = Inr pb" "sa_pubkey r = pb"
    using r sb(1) by (auto simp: p2p_result_def res_bind_Inr_iff Let_def case_prod_beta)
  have shape: "sa_service_id r = sid" "sa_call_id r = cid" "sa_output r = output"
    "sa_signer_bitmap r = fst (signer_bits (hm_keys ?keys) ?cs)"
    "sa_non_signer_indices r = snd (signer_bits (hm_keys ?keys) ?cs)"
    using r sb(1) pb(1) by (auto simp: p2p_result_def Let_def case_prod_beta)
  have verify: "\<exists>asig apk. pc_sig_de K (sa_signature r) = Inr asig \<and> pc_pk_de K (sa_pubkey r) = Inr apk
      \<and> cr_verify X apk (ar_message res) asig"
    if "set ?cs \<inter> set (ar_malicious res) = {}" "set ?cs \<subseteq> set (hm_keys ?keys)"
  proof -
    have "contributors_of P' (ar_message res) = ?cs"
      using cert by (simp add: certified_def contributors_of_def)
    then have "distinct ?cs" using new(1) [of "ar_message res"] by simp
    then have "mset (List.map_filter (hm_get ?keys) (filter (\<lambda>p. p \<in> set ?cs) (hm_keys ?keys)))
        = mset (List.map_filter (hm_get ?keys) ?cs)"
      using that(2) by (intro map_filter_mset participants_mset wf)
    then have "pc_pk_de K pb = Inr (sum_keys X (List.map_filter (hm_get ?keys) ?cs))"
      using aggregate_keys_sum [OF comm K pb(1)] sum_keys_mset [OF comm] by metis
    moreover have "pc_sig_de K sb = Inr ?s"
      using K sb(1) unfolding codec_ok_def by (metis sum.inject(2))
    ultimately show ?thesis
      using certified_verifies [OF env cert that(1)] new(2) sb(2) pb(2) by simp
  qed
  show ?thesis
    by (intro exI [of _ weight] exI [of _ res] exI [of _ P'] conjI w res shape impI)
      (use shape signer_bits_spec [of "hm_keys ?keys" ?cs] verify in \<open>simp_all\<close>)
qed

section \<open>Concrete runs\<close>

text \<open>A key is a number, a signature a number with the message it is for; the hash of a signing
  message is the output in it. A payload of two bytes is a share of peer \<open>[k]\<close> for output \<open>[m]\<close>, one of
  one byte a report against a peer.\<close>

definition sum_crypto :: "(nat \<times> bytes, nat) crypto" where
  "sum_crypto = \<lparr>cr_verify = (\<lambda>k m s. s = (k, m)), cr_verify_tangle = (\<lambda>k m s. s = (k, m)),
     cr_sig_zero = (0, []), cr_sig_add = (\<lambda>(a, m) (b, n). (a + b, n)), cr_pk_zero = 0, cr_pk_add = (+),
     cr_keccak256 = (\<lambda>bs. bs)\<rparr>"

definition sum_codec :: "(nat \<times> bytes, nat) point_codec" where
  "sum_codec = \<lparr>pc_sig_ser = (\<lambda>(n, m). Inr (replicate n 1 @ 0 # m)),
     pc_sig_de = (\<lambda>bs. Inr (length (takeWhile (\<lambda>b. b = 1) bs), tl (dropWhile (\<lambda>b. b = 1) bs))),
     pc_pk_ser = pc_pk_ser demo_codec, pc_pk_de = pc_pk_de demo_codec,
     pc_hex_encode = pc_hex_encode demo_codec, pc_hex_decode = pc_hex_decode demo_codec,
     pc_u256_fmt = pc_u256_fmt demo_codec, pc_u256_parse = pc_u256_parse demo_codec\<rparr>"

definition sum_decode :: "bytes \<Rightarrow> string + (nat \<times> bytes, nat \<times> bytes) agg_sig_message" where
  "sum_decode payload =
     (case payload of
        [k, m] \<Rightarrow> Inr (SignatureShare [k] (unat k, [m]) [m])
      | [k] \<Rightarrow> Inr (MaliciousReport [k] (evidence.InvalidSignature (0, []) [1]))
      | _ \<Rightarrow> Inl ''malformed'')"

definition sum_env ::
  "(nat, nat, nat \<times> bytes, nat \<times> bytes, nat, nat \<times> (message_hash \<times> cache_entry) list) env" where
  "sum_env =
     \<lparr>en_verify = cr_verify sum_crypto, en_sign = (\<lambda>k m. (Inr (k, m), k)),
      en_aggregate = bn254_aggregate sum_crypto, en_verify_aggregate = verify_aggregate sum_crypto,
      en_key_bytes = (\<lambda>k. [of_nat k]), en_serialize = (\<lambda>_. Inr []), en_deserialize = sum_decode,
      en_encode = (\<lambda>m. Inr (pm_payload m)), en_blake3 = drop 16, en_hasher = (\<lambda>_ _. 0),
      en_lru = list_lru\<rparr>"

definition sum_config :: "(nat, nat) p2p_config" where
  "sum_config = with_num_aggregators 3
     (p2p_config_new \<lparr>nh_local_peer_id = [1], nh_protocol_name = ''agg'', nh_signing_key = 1,
        nh_sent = [], nh_connected = True\<rparr> [([1], 1), ([2], 2), ([3], 3)])"

definition pair_config :: "(nat, nat) p2p_config" where
  "pair_config = with_threshold_percentage 50
     (p2p_config_new \<lparr>nh_local_peer_id = [1], nh_protocol_name = ''agg'', nh_signing_key = 1,
        nh_sent = [], nh_connected = True\<rparr> [([1], 1), ([2], 2)])"

lemma sum_laws: "bn254_env sum_crypto sum_env" "keys_commute sum_crypto" "codec_ok sum_codec"
  "hm_wf (pg_participant_public_keys sum_config)"
proof -
  show "bn254_env sum_crypto sum_env" by (simp add: bn254_env_def sum_env_def)
  show "keys_commute sum_crypto" by (simp add: keys_commute_def sum_crypto_def)
  have "takeWhile (\<lambda>b. b = 1) (replicate n 1 @ 0 # m) = replicate n (1 :: u8)"
    "dropWhile (\<lambda>b. b = 1) (replicate n 1 @ 0 # m) = 0 # (m :: bytes)" for n m
    by (induction n) simp_all
  then show "codec_ok sum_codec"
    using demo_codec_ok by (simp add: codec_ok_def sum_codec_def)
  show "hm_wf (pg_participant_public_keys sum_config)"
    by (simp add: sum_config_def with_num_aggregators_def p2p_config_new_def hm_wf_def)
qed

lemma sum_points:
  "pc_sig_de sum_codec bs = Inr (length (takeWhile (\<lambda>b. b = 1) bs), tl (dropWhile (\<lambda>b. b = 1) bs))"
  "pc_pk_de sum_codec bs = Inr (length bs)" "cr_verify sum_crypto k m s \<longleftrightarrow> s = (k, m)"
  by (simp_all add: sum_codec_def demo_codec_def sum_crypto_def)

lemma sum_hash [simp]: "en_blake3 sum_env (create_signing_message sum_crypto sid cid output) = output"
  by (simp add: sum_env_def create_signing_message_def be_bytes_def sum_crypto_def)

lemmas sum_eval = protocol_eval sum_env_def sum_config_def pair_config_def with_threshold_percentage_def sum_decode_def sum_crypto_def demo_msg_def
  equal_scheme_def sat_add_def sat_mul_def u64_max_def word_gt_0 dedup_new_def list_lru_def list_iter_def
  entry_expired_def without_def bn254_aggregate_def verify_aggregate_def with_num_aggregators_def
  p2p_config_new_def handle_malicious_report_def

lemma sum_weight: "strategy_weight sum_config = Inr (EqualW \<lparr>eq_total_participants = 3, eq_threshold_percentage = 67\<rparr>)"
  by (simp add: strategy_weight_def dynamic_equal_def equal_new_def sum_config_def with_num_aggregators_def
      p2p_config_new_def word_le_nat_alt)

lemma pair_weight: "strategy_weight pair_config = Inr (EqualW \<lparr>eq_total_participants = 2, eq_threshold_percentage = 50\<rparr>)"
  by (simp add: strategy_weight_def dynamic_equal_def equal_new_def pair_config_def
      with_threshold_percentage_def p2p_config_new_def word_le_nat_alt)

lemma sum_foreign_run:
  "map_option fst (protocol_run sum_env [1] [MessagePoll [demo_msg [2] [2, 2], demo_msg [3] [3, 2]]]
     (protocol_new sum_env (protocol_config_new (pg_network_handle sum_config) (pg_num_aggregators sum_config)
        (pg_timeout sum_config)) (dynamic_scheme (EqualW \<lparr>eq_total_participants = 3, eq_threshold_percentage = 67\<rparr>))
        (pg_participant_public_keys sum_config)))
   = Some (Inr \<lparr>ar_message = [2], ar_signature = (5, [2]), ar_contributors = [[2], [3]],
       ar_total_weight = Some 2, ar_malicious = []\<rparr>)"
  by (simp add: sum_eval)

definition foreign_evs :: "loop_event list" where
  "foreign_evs = [MessagePoll [demo_msg [2] [2, 2], demo_msg [3] [3, 2]]]"

definition framed_evs :: "loop_event list" where
  "framed_evs = [MessagePoll [demo_msg [2] [2, 1], demo_msg [3] [2]]]"

lemma sum_framed_run:
  "map_option fst (protocol_run sum_env [1] framed_evs
     (protocol_new sum_env (protocol_config_new (pg_network_handle pair_config) (pg_num_aggregators pair_config)
        (pg_timeout pair_config)) (dynamic_scheme (EqualW \<lparr>eq_total_participants = 2, eq_threshold_percentage = 50\<rparr>))
        (pg_participant_public_keys pair_config)))
   = Some (Inr \<lparr>ar_message = [1], ar_signature = (1, [1]), ar_contributors = [[1], [2]],
       ar_total_weight = Some 2, ar_malicious = [[2]]\<rparr>)"
  by (simp add: sum_eval framed_evs_def)

lemma sum_p2p:
  assumes "strategy_weight config = Inr weight"
    and "map_option fst (protocol_run sum_env output evs
     (protocol_new sum_env (protocol_config_new (pg_network_handle config) (pg_num_aggregators config)
        (pg_timeout config)) (dynamic_scheme weight) (pg_participant_public_keys config))) = Some (Inr res)"
  shows "aggregate_via_p2p sum_crypto sum_codec debug sum_env config sid cid output evs
    = Some (p2p_result sum_crypto sum_codec config sid cid output res)"
  using assms by (auto simp: aggregate_via_p2p_def)

lemma sum_foreign_result:
  "aggregate_via_p2p sum_crypto sum_codec debug sum_env sum_config 7 1 [1] foreign_evs
   = Some (Inr \<lparr>sa_service_id = 7, sa_call_id = 1, sa_output = [1], sa_signature = [1, 1, 1, 1, 1, 0, 2],
       sa_pubkey = [0, 0, 0, 0, 0], sa_signer_bitmap = 6, sa_non_signer_indices = [0]\<rparr>)"
  unfolding sum_p2p [OF sum_weight sum_foreign_run [folded foreign_evs_def]]
  by (simp add: p2p_result_def signer_bits_def aggregate_keys_def bn254_aggregate_def sum_codec_def
      sum_crypto_def sum_config_def with_num_aggregators_def p2p_config_new_def map_filter_simps
      demo_codec_def numeral_eq_Suc)

lemma sum_framed_result:
  "aggregate_via_p2p sum_crypto sum_codec debug sum_env pair_config 7 1 [1] framed_evs
   = Some (Inr \<lparr>sa_service_id = 7, sa_call_id = 1, sa_output = [1], sa_signature = [1, 0, 1],
       sa_pubkey = [0, 0, 0], sa_signer_bitmap = 3, sa_non_signer_indices = []\<rparr>)"
  unfolding sum_p2p [OF pair_weight sum_framed_run]
  by (simp add: p2p_result_def signer_bits_def aggregate_keys_def bn254_aggregate_def sum_codec_def
      sum_crypto_def pair_config_def with_threshold_percentage_def p2p_config_new_def map_filter_simps
      demo_codec_def numeral_eq_Suc)

theorem p2p_result_verifies_witness:
  "\<exists>r asig apk. aggregate_via_p2p sum_crypto sum_codec (\<lambda>_. []) sum_env sum_config 7 1 [1] foreign_evs
      = Some (Inr r)
    \<and> bit (sa_signer_bitmap r) 1 \<and> bit (sa_signer_bitmap r) 2 \<and> \<not> bit (sa_signer_bitmap r) 0
    \<and> pc_sig_de sum_codec (sa_signature r) = Inr asig \<and> pc_pk_de sum_codec (sa_pubkey r) = Inr apk
    \<and> cr_verify sum_crypto apk [2] asig"
proof -
  obtain r where r: "aggregate_via_p2p sum_crypto sum_codec (\<lambda>_. []) sum_env sum_config 7 1 [1] foreign_evs
      = Some (Inr r)"
    using sum_foreign_result by blast
  let ?keys = "pg_participant_public_keys sum_config"
  have keys: "hm_keys ?keys = [[1], [2], [3]]"
    by (simp add: sum_config_def with_num_aggregators_def p2p_config_new_def)
  obtain weight res P' where w: "strategy_weight sum_config = Inr weight"
    and run: "p2p_run sum_crypto sum_env sum_config weight 7 1 [1] foreign_evs = Some (Inr res, P')"
    and bits: "\<And>i. bit (sa_signer_bitmap r) i \<longleftrightarrow>
      i < 256 \<and> i < hm_len ?keys \<and> hm_keys ?keys ! i \<in> set (ar_contributors res)"
    and ver: "set (ar_contributors res) \<inter> set (ar_malicious res) = {}
       \<and> set (ar_contributors res) \<subseteq> set (hm_keys ?keys) \<longrightarrow>
       (\<exists>asig apk. pc_sig_de sum_codec (sa_signature r) = Inr asig \<and> pc_pk_de sum_codec (sa_pubkey r) = Inr apk
          \<and> cr_verify sum_crypto apk (ar_message res) asig)"
    using p2p_result_verifies [OF sum_laws r] by blast
  have weight: "weight = EqualW \<lparr>eq_total_participants = 3, eq_threshold_percentage = 67\<rparr>"
    using w sum_weight by simp
  have res: "ar_contributors res = [[2], [3]]" "ar_message res = [2]" "ar_malicious res = []"
    using run sum_foreign_run [folded foreign_evs_def] by (simp_all add: weight)
  have len: "hm_len ?keys = 3" using arg_cong [OF keys, of length] by simp
  show ?thesis
    using r bits [of 0] bits [of 1] bits [of 2] ver by (auto simp: res keys len numeral_2_eq_2)
qed


end
