(* ===== verification/Service_Cache.thy ===== *)
theory Service_Cache
  imports Agg_State
begin

text \<open>
  The cache of on-chain service configuration, \<open>crates/tangle-extra/src/cache.rs\<close>, with the operator
  weights and the event-driven invalidation. The chain client is the record \<open>chain\<close> of the calls
  that are made, over a state \<open>'w\<close> of the chain. Each map is behind a lock that may be poisoned. The
  readings of \<open>Instant::now()\<close> are arguments, and so are the states of the chain at the calls and
  what other tasks do to the cache while a getter waits for the chain.
\<close>

section \<open>Types\<close>

type_synonym address = bytes

datatype config_error = FetchError string | LockPoisoned

record 'v config_entry =
  te_value :: 'v
  te_cached_at :: instant

definition entry_new :: "instant \<Rightarrow> 'v \<Rightarrow> 'v config_entry" where
  "entry_new now value = \<lparr>te_value = value, te_cached_at = now\<rparr>"

definition entry_is_expired :: "instant \<Rightarrow> duration \<Rightarrow> 'v config_entry \<Rightarrow> bool" where
  "entry_is_expired now ttl e \<longleftrightarrow> elapsed now (te_cached_at e) > ttl"

datatype chain_threshold = ChainCountBased | ChainStakeWeighted

record aggregation_config =
  ac_required :: bool
  ac_threshold_bps :: u16
  ac_threshold_type :: chain_threshold

record operator_weights =
  ow_weights :: "(address, u16) hmap"
  ow_total_exposure :: u64

record service_operators =
  so_operators :: "address list"
  so_index_map :: "(address, nat) hmap"

record ('k, 'v) rwlock =
  rl_poisoned :: bool
  rl_map :: "('k, 'v config_entry) hmap"

record 'm service_cache =
  sc_ttl :: duration
  sc_aggregation_configs :: "(u64 \<times> u8, aggregation_config) rwlock"
  sc_operator_weights :: "(u64, operator_weights) rwlock"
  sc_service_operators :: "(u64, service_operators) rwlock"
  sc_operator_metadata :: "(u64 \<times> address, 'm) rwlock"

record cache_stats =
  cs_aggregation_configs :: nat
  cs_operator_weights :: nat
  cs_service_operators :: nat
  cs_ttl :: duration

section \<open>Operator weights and lists\<close>

definition weights_get :: "operator_weights \<Rightarrow> address \<Rightarrow> u16 option" where
  "weights_get ow operator = hm_get (ow_weights ow) operator"

definition weights_contains :: "operator_weights \<Rightarrow> address \<Rightarrow> bool" where
  "weights_contains ow operator \<longleftrightarrow> hm_get (ow_weights ow) operator \<noteq> None"

definition weights_len :: "operator_weights \<Rightarrow> nat" where
  "weights_len ow = hm_len (ow_weights ow)"

definition weights_is_empty :: "operator_weights \<Rightarrow> bool" where
  "weights_is_empty ow \<longleftrightarrow> ow_weights ow = []"

text \<open>The loop over the weights in descending order: how many are taken until the sum reaches the
  required weight.\<close>

fun signers_needed :: "u64 \<Rightarrow> u64 \<Rightarrow> u16 list \<Rightarrow> nat" where
  "signers_needed required accumulated [] = 0"
| "signers_needed required accumulated (weight # rest) =
     (let accumulated' = accumulated + ucast weight
      in if accumulated' \<ge> required then 1 else Suc (signers_needed required accumulated' rest))"

definition required_weight :: "operator_weights \<Rightarrow> u16 \<Rightarrow> u64" where
  "required_weight ow threshold_bps = (ow_total_exposure ow * ucast threshold_bps) div 10000"

definition calculate_threshold_signers :: "operator_weights \<Rightarrow> u16 \<Rightarrow> nat" where
  "calculate_threshold_signers ow threshold_bps =
     (if ow_weights ow = [] then 0
      else signers_needed (required_weight ow threshold_bps) 0 (rev (sort (hm_values (ow_weights ow)))))"

definition operators_new :: "address list \<Rightarrow> service_operators" where
  "operators_new operators =
     \<lparr>so_operators = operators,
      so_index_map = hm_collect (map (\<lambda>(i, addr). (addr, i)) (enumerate 0 operators))\<rparr>"

definition index_of :: "service_operators \<Rightarrow> address \<Rightarrow> nat option" where
  "index_of so operator = hm_get (so_index_map so) operator"

definition operators_len :: "service_operators \<Rightarrow> nat" where
  "operators_len so = length (so_operators so)"

section \<open>The cache\<close>

definition lock_new :: "('k, 'v) rwlock" where
  "lock_new = \<lparr>rl_poisoned = False, rl_map = []\<rparr>"

definition service_cache_new :: "duration \<Rightarrow> 'm service_cache" where
  "service_cache_new ttl =
     \<lparr>sc_ttl = ttl, sc_aggregation_configs = lock_new, sc_operator_weights = lock_new,
      sc_service_operators = lock_new, sc_operator_metadata = lock_new\<rparr>"

definition default_cache_ttl :: duration where
  "default_cache_ttl = 300 * 10 ^ 9"

definition with_default_ttl :: "'m service_cache" where
  "with_default_ttl = service_cache_new default_cache_ttl"

definition set_ttl :: "duration \<Rightarrow> 'm service_cache \<Rightarrow> 'm service_cache" where
  "set_ttl ttl C = C\<lparr>sc_ttl := ttl\<rparr>"

text \<open>The look-up with which each getter starts and the store with which it ends.\<close>

definition lookup_fresh :: "instant \<Rightarrow> duration \<Rightarrow> 'k \<Rightarrow> ('k, 'v) rwlock \<Rightarrow> config_error + 'v option" where
  "lookup_fresh now ttl key l =
     (if rl_poisoned l then Inl LockPoisoned
      else case hm_get (rl_map l) key of
             None \<Rightarrow> Inr None
           | Some entry \<Rightarrow> if \<not> entry_is_expired now ttl entry then Inr (Some (te_value entry)) else Inr None)"

definition store_entry ::
  "instant \<Rightarrow> 'k \<Rightarrow> 'v \<Rightarrow> ('k, 'v) rwlock \<Rightarrow> (config_error + unit) \<times> ('k, 'v) rwlock" where
  "store_entry now key value l =
     (if rl_poisoned l then (Inl LockPoisoned, l)
      else (Inr (), l\<lparr>rl_map := hm_insert key (entry_new now value) (rl_map l)\<rparr>))"

definition update_lock ::
  "(('k, 'v config_entry) hmap \<Rightarrow> ('k, 'v config_entry) hmap) \<Rightarrow> ('k, 'v) rwlock \<Rightarrow> ('k, 'v) rwlock" where
  "update_lock f l = (if rl_poisoned l then l else l\<lparr>rl_map := f (rl_map l)\<rparr>)"

text \<open>The calls to the chain client.\<close>

record ('w, 'm, 'l) chain =
  ch_aggregation_config :: "u64 \<Rightarrow> u8 \<Rightarrow> 'w \<Rightarrow> string + aggregation_config"
  ch_service_operators :: "u64 \<Rightarrow> 'w \<Rightarrow> string + address list"
  ch_service_operator :: "u64 \<Rightarrow> address \<Rightarrow> 'w \<Rightarrow> string + bool \<times> u16"
  ch_operator_metadata :: "u64 \<Rightarrow> address \<Rightarrow> 'w \<Rightarrow> string + 'm"
  ch_logs :: "u64 \<Rightarrow> 'w \<Rightarrow> string + 'l list"

text \<open>A getter looks its key up at \<open>now\<close>, fetches from the chain in state \<open>w\<close>, during which \<open>I\<close> happens
  to the cache, and stores at \<open>now'\<close>.\<close>

definition get_aggregation_config ::
  "('w, 'm, 'l) chain \<Rightarrow> 'w \<Rightarrow> instant \<Rightarrow> ('m service_cache \<Rightarrow> 'm service_cache) \<Rightarrow> instant \<Rightarrow> u64 \<Rightarrow> u8 \<Rightarrow>
   'm service_cache \<Rightarrow> (config_error + aggregation_config) \<times> 'm service_cache" where
  "get_aggregation_config Ch w now I now' service_id job_index C =
     (let key = (service_id, job_index) in
      case lookup_fresh now (sc_ttl C) key (sc_aggregation_configs C) of
        Inl e \<Rightarrow> (Inl e, C)
      | Inr (Some value) \<Rightarrow> (Inr value, C)
      | Inr None \<Rightarrow>
          (case ch_aggregation_config Ch service_id job_index w of
             Inl e \<Rightarrow> (Inl (FetchError e), I C)
           | Inr config \<Rightarrow>
               (case store_entry now' key config (sc_aggregation_configs (I C)) of
                  (Inl e, _) \<Rightarrow> (Inl e, I C)
                | (Inr _, l) \<Rightarrow> (Inr config, (I C)\<lparr>sc_aggregation_configs := l\<rparr>))))"

definition set_aggregation_config ::
  "instant \<Rightarrow> u64 \<Rightarrow> u8 \<Rightarrow> aggregation_config \<Rightarrow> 'm service_cache \<Rightarrow>
   (config_error + unit) \<times> 'm service_cache" where
  "set_aggregation_config now service_id job_index config C =
     (case store_entry now (service_id, job_index) config (sc_aggregation_configs C) of
        (r, l) \<Rightarrow> (r, C\<lparr>sc_aggregation_configs := l\<rparr>))"

text \<open>\<open>w k\<close> is the state of the chain at the \<open>k\<close>-th call.\<close>

fun collect_weights ::
  "('w, 'm, 'l) chain \<Rightarrow> (nat \<Rightarrow> 'w) \<Rightarrow> u64 \<Rightarrow> address list \<Rightarrow> (address, u16) hmap \<Rightarrow> u64 \<Rightarrow>
   (address, u16) hmap \<times> u64" where
  "collect_weights Ch w service_id [] weights total_exposure = (weights, total_exposure)"
| "collect_weights Ch w service_id (operator # operators) weights total_exposure =
     (case ch_service_operator Ch service_id operator (w 0) of
        Inr (active, exposure_bps) \<Rightarrow>
          if active
          then collect_weights Ch (\<lambda>k. w (Suc k)) service_id operators
                 (hm_insert operator exposure_bps weights) (total_exposure + ucast exposure_bps)
          else collect_weights Ch (\<lambda>k. w (Suc k)) service_id operators weights total_exposure
      | Inl e \<Rightarrow> collect_weights Ch (\<lambda>k. w (Suc k)) service_id operators weights total_exposure)"

definition fetch_operator_weights ::
  "('w, 'm, 'l) chain \<Rightarrow> (nat \<Rightarrow> 'w) \<Rightarrow> u64 \<Rightarrow> config_error + operator_weights" where
  "fetch_operator_weights Ch w service_id =
     (case ch_service_operators Ch service_id (w 0) of
        Inl e \<Rightarrow> Inl (FetchError (''Failed to get operators: '' @ e))
      | Inr operators \<Rightarrow>
          (case collect_weights Ch (\<lambda>k. w (Suc k)) service_id operators [] 0 of
             (weights, total_exposure) \<Rightarrow>
               Inr \<lparr>ow_weights = weights, ow_total_exposure = total_exposure\<rparr>))"

definition get_operator_weights ::
  "('w, 'm, 'l) chain \<Rightarrow> (nat \<Rightarrow> 'w) \<Rightarrow> instant \<Rightarrow> ('m service_cache \<Rightarrow> 'm service_cache) \<Rightarrow> instant \<Rightarrow> u64 \<Rightarrow>
   'm service_cache \<Rightarrow> (config_error + operator_weights) \<times> 'm service_cache" where
  "get_operator_weights Ch w now I now' service_id C =
     (case lookup_fresh now (sc_ttl C) service_id (sc_operator_weights C) of
        Inl e \<Rightarrow> (Inl e, C)
      | Inr (Some value) \<Rightarrow> (Inr value, C)
      | Inr None \<Rightarrow>
          (case fetch_operator_weights Ch w service_id of
             Inl e \<Rightarrow> (Inl e, I C)
           | Inr weights \<Rightarrow>
               (case store_entry now' service_id weights (sc_operator_weights (I C)) of
                  (Inl e, _) \<Rightarrow> (Inl e, I C)
                | (Inr _, l) \<Rightarrow> (Inr weights, (I C)\<lparr>sc_operator_weights := l\<rparr>))))"

definition set_operator_weights ::
  "instant \<Rightarrow> u64 \<Rightarrow> operator_weights \<Rightarrow> 'm service_cache \<Rightarrow> (config_error + unit) \<times> 'm service_cache" where
  "set_operator_weights now service_id weights C =
     (case store_entry now service_id weights (sc_operator_weights C) of
        (r, l) \<Rightarrow> (r, C\<lparr>sc_operator_weights := l\<rparr>))"

definition get_service_operators ::
  "('w, 'm, 'l) chain \<Rightarrow> 'w \<Rightarrow> instant \<Rightarrow> ('m service_cache \<Rightarrow> 'm service_cache) \<Rightarrow> instant \<Rightarrow> u64 \<Rightarrow>
   'm service_cache \<Rightarrow> (config_error + service_operators) \<times> 'm service_cache" where
  "get_service_operators Ch w now I now' service_id C =
     (case lookup_fresh now (sc_ttl C) service_id (sc_service_operators C) of
        Inl e \<Rightarrow> (Inl e, C)
      | Inr (Some value) \<Rightarrow> (Inr value, C)
      | Inr None \<Rightarrow>
          (case ch_service_operators Ch service_id w of
             Inl e \<Rightarrow> (Inl (FetchError e), I C)
           | Inr operators_list \<Rightarrow>
               (let operators = operators_new operators_list in
                case store_entry now' service_id operators (sc_service_operators (I C)) of
                  (Inl e, _) \<Rightarrow> (Inl e, I C)
                | (Inr _, l) \<Rightarrow> (Inr operators, (I C)\<lparr>sc_service_operators := l\<rparr>))))"

definition get_operator_metadata ::
  "('w, 'm, 'l) chain \<Rightarrow> 'w \<Rightarrow> instant \<Rightarrow> ('m service_cache \<Rightarrow> 'm service_cache) \<Rightarrow> instant \<Rightarrow> u64 \<Rightarrow> address \<Rightarrow>
   'm service_cache \<Rightarrow> (config_error + 'm) \<times> 'm service_cache" where
  "get_operator_metadata Ch w now I now' blueprint_id operator C =
     (let key = (blueprint_id, operator) in
      case lookup_fresh now (sc_ttl C) key (sc_operator_metadata C) of
        Inl e \<Rightarrow> (Inl e, C)
      | Inr (Some value) \<Rightarrow> (Inr value, C)
      | Inr None \<Rightarrow>
          (case ch_operator_metadata Ch blueprint_id operator w of
             Inl e \<Rightarrow> (Inl (FetchError e), I C)
           | Inr metadata \<Rightarrow>
               (case store_entry now' key metadata (sc_operator_metadata (I C)) of
                  (Inl e, _) \<Rightarrow> (Inl e, I C)
                | (Inr _, l) \<Rightarrow> (Inr metadata, (I C)\<lparr>sc_operator_metadata := l\<rparr>))))"

text \<open>The circumstances of the \<open>k\<close>-th getter of a loop.\<close>

record ('w, 'm) moment =
  mo_chain :: 'w
  mo_lookup :: instant
  mo_others :: "'m service_cache \<Rightarrow> 'm service_cache"
  mo_store :: instant

fun collect_metadata ::
  "('w, 'm, 'l) chain \<Rightarrow> (nat \<Rightarrow> ('w, 'm) moment) \<Rightarrow> u64 \<Rightarrow> address list \<Rightarrow> (address, 'm) hmap \<Rightarrow>
   'm service_cache \<Rightarrow> (config_error + (address, 'm) hmap) \<times> 'm service_cache" where
  "collect_metadata Ch at blueprint_id [] result C = (Inr result, C)"
| "collect_metadata Ch at blueprint_id (operator # operators) result C =
     (case get_operator_metadata Ch (mo_chain (at 0)) (mo_lookup (at 0)) (mo_others (at 0)) (mo_store (at 0))
             blueprint_id operator C of
        (Inl e, C') \<Rightarrow> (Inl e, C')
      | (Inr metadata, C') \<Rightarrow>
          collect_metadata Ch (\<lambda>k. at (Suc k)) blueprint_id operators
            (hm_insert operator metadata result) C')"

definition get_service_operator_metadata ::
  "('w, 'm, 'l) chain \<Rightarrow> (nat \<Rightarrow> ('w, 'm) moment) \<Rightarrow> u64 \<Rightarrow> u64 \<Rightarrow> 'm service_cache \<Rightarrow>
   (config_error + (address, 'm) hmap) \<times> 'm service_cache" where
  "get_service_operator_metadata Ch at blueprint_id service_id C =
     (case get_service_operators Ch (mo_chain (at 0)) (mo_lookup (at 0)) (mo_others (at 0)) (mo_store (at 0))
             service_id C of
        (Inl e, C') \<Rightarrow> (Inl e, C')
      | (Inr operators, C') \<Rightarrow>
          collect_metadata Ch (\<lambda>k. at (Suc k)) blueprint_id (so_operators operators) [] C')"

definition invalidate_service :: "u64 \<Rightarrow> 'm service_cache \<Rightarrow> 'm service_cache" where
  "invalidate_service service_id C =
     C\<lparr>sc_aggregation_configs :=
         update_lock (hm_retain (\<lambda>(sid, _) _. sid \<noteq> service_id)) (sc_aggregation_configs C),
       sc_operator_weights := update_lock (hm_remove service_id) (sc_operator_weights C),
       sc_service_operators := update_lock (hm_remove service_id) (sc_service_operators C)\<rparr>"

definition invalidate_aggregation_config :: "u64 \<Rightarrow> u8 \<Rightarrow> 'm service_cache \<Rightarrow> 'm service_cache" where
  "invalidate_aggregation_config service_id job_index C =
     C\<lparr>sc_aggregation_configs :=
         update_lock (hm_remove (service_id, job_index)) (sc_aggregation_configs C)\<rparr>"

definition cache_clear :: "'m service_cache \<Rightarrow> 'm service_cache" where
  "cache_clear C =
     C\<lparr>sc_aggregation_configs := update_lock (\<lambda>_. []) (sc_aggregation_configs C),
       sc_operator_weights := update_lock (\<lambda>_. []) (sc_operator_weights C),
       sc_service_operators := update_lock (\<lambda>_. []) (sc_service_operators C)\<rparr>"

text \<open>One reading of the clock per entry.\<close>

definition cache_cleanup_expired ::
  "(u64 \<times> u8 \<Rightarrow> instant) \<Rightarrow> (u64 \<Rightarrow> instant) \<Rightarrow> (u64 \<Rightarrow> instant) \<Rightarrow> 'm service_cache \<Rightarrow> 'm service_cache" where
  "cache_cleanup_expired now now' now'' C =
     (let ttl = sc_ttl C in
      C\<lparr>sc_aggregation_configs :=
          update_lock (hm_retain (\<lambda>k entry. \<not> entry_is_expired (now k) ttl entry)) (sc_aggregation_configs C),
        sc_operator_weights :=
          update_lock (hm_retain (\<lambda>k entry. \<not> entry_is_expired (now' k) ttl entry)) (sc_operator_weights C),
        sc_service_operators :=
          update_lock (hm_retain (\<lambda>k entry. \<not> entry_is_expired (now'' k) ttl entry)) (sc_service_operators C)\<rparr>)"

definition lock_len :: "('k, 'v) rwlock \<Rightarrow> nat" where
  "lock_len l = (if rl_poisoned l then 0 else hm_len (rl_map l))"

definition cache_get_stats :: "'m service_cache \<Rightarrow> cache_stats" where
  "cache_get_stats C =
     \<lparr>cs_aggregation_configs = lock_len (sc_aggregation_configs C),
      cs_operator_weights = lock_len (sc_operator_weights C),
      cs_service_operators = lock_len (sc_service_operators C), cs_ttl = sc_ttl C\<rparr>"

section \<open>Invalidation by events\<close>

datatype invalidation_event =
    OperatorJoined u64 address
  | OperatorLeft u64 address
  | ServiceTerminated u64
  | ServiceActivated u64

definition invalidate_operator_data :: "u64 \<Rightarrow> 'm service_cache \<Rightarrow> 'm service_cache" where
  "invalidate_operator_data service_id C =
     C\<lparr>sc_operator_weights := update_lock (hm_remove service_id) (sc_operator_weights C),
       sc_service_operators := update_lock (hm_remove service_id) (sc_service_operators C)\<rparr>"

fun handle_event :: "invalidation_event \<Rightarrow> 'm service_cache \<Rightarrow> 'm service_cache" where
  "handle_event (OperatorJoined service_id operator) C = invalidate_operator_data service_id C"
| "handle_event (OperatorLeft service_id operator) C = invalidate_operator_data service_id C"
| "handle_event (ServiceTerminated service_id) C = invalidate_service service_id C"
| "handle_event (ServiceActivated service_id) C = C"

text \<open>The decoders of the four event types and the block number of a log.\<close>

record 'l log_ops =
  lo_block_number :: "'l \<Rightarrow> u64 option"
  lo_joined :: "'l \<Rightarrow> (u64 \<times> address) option"
  lo_left :: "'l \<Rightarrow> (u64 \<times> address) option"
  lo_terminated :: "'l \<Rightarrow> u64 option"
  lo_activated :: "'l \<Rightarrow> u64 option"

definition parse_log :: "'l log_ops \<Rightarrow> 'l \<Rightarrow> invalidation_event option" where
  "parse_log L log =
     (case lo_joined L log of
        Some (service_id, operator) \<Rightarrow> Some (OperatorJoined service_id operator)
      | None \<Rightarrow>
     (case lo_left L log of
        Some (service_id, operator) \<Rightarrow> Some (OperatorLeft service_id operator)
      | None \<Rightarrow>
     (case lo_terminated L log of
        Some service_id \<Rightarrow> Some (ServiceTerminated service_id)
      | None \<Rightarrow> map_option ServiceActivated (lo_activated L log))))"

fun event_service :: "invalidation_event \<Rightarrow> u64" where
  "event_service (OperatorJoined service_id operator) = service_id"
| "event_service (OperatorLeft service_id operator) = service_id"
| "event_service (ServiceTerminated service_id) = service_id"
| "event_service (ServiceActivated service_id) = service_id"

record sync_service =
  sy_watched_services :: "u64 list option"
  sy_last_block :: u64

definition sync_new :: sync_service where
  "sync_new = \<lparr>sy_watched_services = None, sy_last_block = 0\<rparr>"

definition with_services :: "u64 list \<Rightarrow> sync_service \<Rightarrow> sync_service" where
  "with_services services sy = sy\<lparr>sy_watched_services := Some services\<rparr>"

definition from_block :: "u64 \<Rightarrow> sync_service \<Rightarrow> sync_service" where
  "from_block block sy = sy\<lparr>sy_last_block := block\<rparr>"

definition should_watch :: "sync_service \<Rightarrow> u64 \<Rightarrow> bool" where
  "should_watch sy service_id =
     (case sy_watched_services sy of None \<Rightarrow> True | Some s \<Rightarrow> service_id \<in> set s)"

definition process_logs ::
  "'l log_ops \<Rightarrow> sync_service \<Rightarrow> 'l list \<Rightarrow> 'm service_cache \<Rightarrow> nat \<times> 'm service_cache" where
  "process_logs L sy logs C =
     fold (\<lambda>log (count, C).
         case parse_log L log of
           None \<Rightarrow> (count, C)
         | Some event \<Rightarrow>
             if should_watch sy (event_service event) then (count + 1, handle_event event C) else (count, C))
       logs (0, C)"

definition process_event :: "invalidation_event \<Rightarrow> 'm service_cache \<Rightarrow> 'm service_cache" where
  "process_event event C = handle_event event C"

definition poll_and_sync ::
  "('w, 'm, 'l) chain \<Rightarrow> 'l log_ops \<Rightarrow> 'w \<Rightarrow> sync_service \<Rightarrow> 'm service_cache \<Rightarrow>
   (config_error + nat) \<times> sync_service \<times> 'm service_cache" where
  "poll_and_sync Ch L w sy C =
     (case ch_logs Ch (sy_last_block sy) w of
        Inl e \<Rightarrow> (Inl (FetchError (''Failed to fetch logs: '' @ e)), sy, C)
      | Inr logs \<Rightarrow>
          (let (count, C') = process_logs L sy logs C;
               sy' = (if logs = [] then sy
                      else case lo_block_number L (last logs) of
                             None \<Rightarrow> sy
                           | Some block_num \<Rightarrow> sy\<lparr>sy_last_block := block_num + 1\<rparr>)
           in (Inr count, sy', C')))"

end
