(* ===== verification/Cache_Correct.thy ===== *)
theory Cache_Correct
  imports Service_Cache "HOL-Library.Multiset"
begin

text \<open>
  Correctness of the configuration cache: the number of signers computed from the weights is the
  smallest possible, cached values are well-formed under every interleaving of the tasks that
  use the cache, and the event synchronisation handles every log exactly once.
\<close>

section \<open>The smallest number of signers\<close>

lemma top_sum_bound:
  assumes "sorted_wrt (\<ge>) xs" and "M \<subseteq># mset (xs :: nat list)"
  shows "sum_mset M \<le> sum_list (take (size M) xs)"
  using assms
proof (induction xs arbitrary: M)
  case (Cons x xs)
  show ?case
  proof (cases "x \<in># M")
    case True
    then obtain N where M: "M = add_mset x N" by (metis insert_DiffM)
    then have "N \<subseteq># mset xs" using Cons.prems(2) by simp
    with Cons M show ?thesis by simp
  next
    case False
    then have sub: "M \<subseteq># mset xs"
      using Cons.prems(2) by (metis insert_union_subset_iff mset.simps(2) subset_eq_diff_conv diff_single_trivial add_mset_add_single)
    with Cons have IH: "sum_mset M \<le> sum_list (take (size M) xs)" by simp
    show ?thesis
    proof (cases "size M")
      case 0
      then show ?thesis by simp
    next
      case (Suc k)
      then have "k < length xs" using size_mset_mono [OF sub] by simp
      then have "sum_list (take (Suc k) xs) = sum_list (take k xs) + xs ! k"
        by (simp add: take_Suc_conv_app_nth)
      moreover have "xs ! k \<in> set xs" using \<open>k < length xs\<close> by (rule nth_mem)
      then have "xs ! k \<le> x" using Cons.prems(1) by simp
      moreover have "sum_list (take (size M) (x # xs)) = x + sum_list (take k xs)" using Suc by simp
      ultimately show ?thesis using IH [unfolded Suc] by linarith
    qed
  qed
qed simp

lemma unat_ucast_u16 [simp]: "unat (ucast (x :: u16) :: u64) = unat x"
proof -
  have "unat x < 2 ^ 16" using unsigned_less [of x] by simp
  then have "unat x < 2 ^ 64" by (rule less_le_trans) simp
  then show ?thesis by (simp add: unsigned_ucast_eq take_bit_nat_eq_self)
qed

lemma signers_needed_spec:
  assumes "unat a + (\<Sum>x\<leftarrow>ws. unat x) < 2 ^ 64" and "ws \<noteq> []"
  shows "1 \<le> signers_needed r a ws \<and> signers_needed r a ws \<le> length ws
    \<and> (\<forall>k. 1 \<le> k \<longrightarrow> k < signers_needed r a ws \<longrightarrow> unat a + (\<Sum>x\<leftarrow>take k ws. unat x) < unat r)
    \<and> (signers_needed r a ws < length ws \<longrightarrow>
         unat r \<le> unat a + (\<Sum>x\<leftarrow>take (signers_needed r a ws) ws. unat x))"
  using assms
proof (induction r a ws rule: signers_needed.induct)
  case (2 r a w ws)
  let ?a = "a + ucast w :: u64"
  have a: "unat ?a = unat a + unat w"
    using "2.prems"(1) by (simp add: unat_word_ariths)
  show ?case
  proof (cases "?a \<ge> r")
    case True
    then show ?thesis using a by (simp add: word_le_nat_alt)
  next
    case False
    then have small: "unat a + unat w < unat r" using a by (simp add: word_le_nat_alt)
    show ?thesis
    proof (cases "ws = []")
      case True
      then show ?thesis using False small by (auto simp: Let_def)
    next
      case ne: False
      let ?n = "signers_needed r ?a ws"
      have IH: "1 \<le> ?n" "?n \<le> length ws"
        "\<And>k. 1 \<le> k \<Longrightarrow> k < ?n \<Longrightarrow> unat ?a + (\<Sum>x\<leftarrow>take k ws. unat x) < unat r"
        "?n < length ws \<Longrightarrow> unat r \<le> unat ?a + (\<Sum>x\<leftarrow>take ?n ws. unat x)"
        using "2.IH" [OF refl False _ ne] "2.prems"(1) a by auto
      have less: "unat a + (\<Sum>x\<leftarrow>take k (w # ws). unat x) < unat r" if k: "1 \<le> k" "k < Suc ?n" for k
      proof (cases "k = 1")
        case True
        then show ?thesis using small by simp
      next
        case False
        then obtain j where "k = Suc j" "1 \<le> j" "j < ?n" using k by (cases k) auto
        then show ?thesis using IH(3) [of j] a by simp
      qed
      show ?thesis
        using False IH less a by (simp add: Let_def del: take_Suc_Cons) (simp add: a add.assoc)
    qed
  qed
qed simp

text \<open>The weight of a set of operators, and the sets that reach the required weight.\<close>

definition weight_of :: "operator_weights \<Rightarrow> address set \<Rightarrow> nat" where
  "weight_of ow S = (\<Sum>a\<in>S. unat (the (hm_get (ow_weights ow) a)))"

definition reaches :: "operator_weights \<Rightarrow> u16 \<Rightarrow> address set \<Rightarrow> bool" where
  "reaches ow bps S \<longleftrightarrow> S \<subseteq> dom (hm_get (ow_weights ow))
     \<and> unat (ow_total_exposure ow) * unat bps div 10000 \<le> weight_of ow S"

lemma values_mset:
  assumes "hm_wf m"
  shows "mset (hm_values m) = image_mset (\<lambda>k. the (hm_get m k)) (mset_set (dom (hm_get m)))"
proof -
  have "hm_values m = map (\<lambda>k. the (hm_get m k)) (hm_keys m)"
    using assms by (auto simp: hm_wf_def)
  moreover have "mset (hm_keys m) = mset_set (dom (hm_get m))"
    using mset_set_set [of "hm_keys m"] assms by (simp add: hm_wf_def dom_map_of_conv_image_fst)
  ultimately show ?thesis by (metis mset_map)
qed

lemma weight_of_bound:
  assumes wf: "hm_wf (ow_weights ow)" and S: "S \<subseteq> dom (hm_get (ow_weights ow))"
  shows "weight_of ow S \<le> (\<Sum>x\<leftarrow>take (card S) (rev (sort (hm_values (ow_weights ow)))). unat x)"
proof -
  let ?m = "ow_weights ow" and ?w = "\<lambda>a. the (hm_get (ow_weights ow) a)"
  let ?xs = "map unat (rev (sort (hm_values ?m)))"
  let ?M = "image_mset (\<lambda>a. unat (?w a)) (mset_set S)"
  have fin: "finite S" using S by (rule finite_subset) (rule finite_dom_map_of)
  have "?M \<subseteq># image_mset (\<lambda>a. unat (?w a)) (mset_set (dom (hm_get ?m)))"
    by (intro image_mset_subseteq_mono subset_imp_msubset_mset_set S finite_dom_map_of)
  also have "\<dots> = mset ?xs"
    using arg_cong [OF values_mset [OF wf], of "image_mset unat"]
    by (simp add: multiset.map_comp comp_def del: mset_map) (simp add: mset_map)
  finally have sub: "?M \<subseteq># mset ?xs" .
  have "sorted_wrt (\<ge>) ?xs"
    by (simp add: sorted_wrt_map sorted_wrt_rev word_le_nat_alt [symmetric])
  from top_sum_bound [OF this sub] have "sum_mset ?M \<le> sum_list (take (card S) ?xs)"
    by simp
  then show ?thesis by (simp add: weight_of_def sum_unfold_sum_mset take_map)
qed

lemma top_operators:
  assumes wf: "hm_wf (ow_weights ow)" and n: "n \<le> hm_len (ow_weights ow)"
  obtains S where "S \<subseteq> dom (hm_get (ow_weights ow))" "card S = n"
    "weight_of ow S = (\<Sum>x\<leftarrow>take n (rev (sort (hm_values (ow_weights ow)))). unat x)"
proof
  let ?m = "ow_weights ow"
  let ?ps = "take n (rev (sort_key snd ?m))"
  let ?S = "set (map fst ?ps)"
  have perm: "mset (rev (sort_key snd ?m)) = mset ?m" by simp
  have "distinct (map fst (rev (sort_key snd ?m)))"
    using wf by (metis distinct_count_atmost_1 hm_wf_def mset_map perm mset_eq_imp_distinct_iff)
  then have dist: "distinct (map fst ?ps)" by (metis distinct_take take_map)
  have mem: "set ?ps \<subseteq> set ?m" using set_take_subset [of n "rev (sort_key snd ?m)"] by simp
  then show "?S \<subseteq> dom (hm_get ?m)" by (auto simp: dom_map_of_conv_image_fst)
  show "card ?S = n" using distinct_card [OF dist] n by simp
  have vals: "map snd (rev (sort_key snd ?m)) = rev (sort (hm_values ?m))"
    by (simp add: rev_map [symmetric]) (rule properties_for_sort [symmetric], simp_all add: sorted_sort_key)
  have look: "the (hm_get ?m (fst p)) = snd p" if "p \<in> set ?ps" for p
  proof -
    have "(fst p, snd p) \<in> set ?m" using subsetD [OF mem that] by simp
    then show ?thesis using wf by (simp only: hm_in_set_iff option.sel)
  qed
  have "weight_of ow ?S = (\<Sum>a\<leftarrow>map fst ?ps. unat (the (hm_get ?m a)))"
    unfolding weight_of_def by (rule sum_list_distinct_conv_sum_set [OF dist, symmetric])
  also have "\<dots> = (\<Sum>p\<leftarrow>?ps. unat (snd p))"
    by (rule arg_cong [where f = sum_list]) (use look in simp)
  also have "\<dots> = (\<Sum>x\<leftarrow>take n (rev (sort (hm_values ?m))). unat x)"
    by (simp add: vals [symmetric] take_map comp_def)
  finally show "weight_of ow ?S = (\<Sum>x\<leftarrow>take n (rev (sort (hm_values ?m))). unat x)" .
qed

text \<open>
  C11: the number of signers computed for a stake threshold is the smallest possible. If the product
  of total exposure and basis points fits in 64 bits, then some set of that many operators reaches
  the required weight, which is the threshold's share of the total exposure rounded down, and every
  set that reaches it has at least that many members (one at least is always counted); if not even
  all operators reach it, all are counted.
\<close>

theorem threshold_signers_minimal:
  assumes wf: "hm_wf (ow_weights ow)" and ne: "ow_weights ow \<noteq> []"
    and fits: "unat (ow_total_exposure ow) * unat bps < 2 ^ 64" "hm_len (ow_weights ow) \<le> 2 ^ 48"
    and n: "n = calculate_threshold_signers ow bps"
  shows "((\<exists>S. reaches ow bps S) \<longrightarrow> (\<exists>S. reaches ow bps S \<and> card S = n))
    \<and> (\<forall>S. reaches ow bps S \<longrightarrow> n \<le> max 1 (card S))
    \<and> ((\<nexists>S. reaches ow bps S) \<longrightarrow> n = hm_len (ow_weights ow))"
proof -
  let ?xs = "rev (sort (hm_values (ow_weights ow)))" and ?r = "required_weight ow bps"
  have need: "unat ?r = unat (ow_total_exposure ow) * unat bps div 10000"
    using fits(1) by (simp add: required_weight_def unat_div unat_word_ariths)
  have "unat x \<le> 65535" for x :: u16
    by (rule less_Suc_eq_le [THEN iffD1], rule order.strict_trans2 [OF unsigned_less]) simp
  then have "(\<Sum>x\<leftarrow>?xs. unat x) \<le> (\<Sum>x\<leftarrow>?xs. 65535)" by (intro sum_list_mono)
  also have "\<dots> \<le> 2 ^ 48 * 65535" using fits(2) by (simp add: sum_list_triv)
  finally have sum: "unat 0 + (\<Sum>x\<leftarrow>?xs. unat x) < 2 ^ 64" by simp
  have "length ?xs \<noteq> 0" using ne by simp
  then have "?xs \<noteq> []" by (metis list.size(3))
  with sum have spec: "1 \<le> n" "n \<le> length ?xs"
    "\<And>k. 1 \<le> k \<Longrightarrow> k < n \<Longrightarrow> (\<Sum>x\<leftarrow>take k ?xs. unat x) < unat ?r"
    "n < length ?xs \<Longrightarrow> unat ?r \<le> (\<Sum>x\<leftarrow>take n ?xs. unat x)"
    using signers_needed_spec [of 0 ?xs ?r] ne n by (simp_all add: calculate_threshold_signers_def)
  obtain T where T: "T \<subseteq> dom (hm_get (ow_weights ow))" "card T = n"
    "weight_of ow T = (\<Sum>x\<leftarrow>take n ?xs. unat x)"
    using top_operators [OF wf, of n] spec(2) by auto
  have upper: "unat ?r \<le> (\<Sum>x\<leftarrow>take (card S) ?xs. unat x)" if "reaches ow bps S" for S
    using that weight_of_bound [OF wf, of S] need by (simp add: reaches_def)
  have T_reaches: "reaches ow bps T" if "unat ?r \<le> (\<Sum>x\<leftarrow>take n ?xs. unat x)"
    using T that need by (simp add: reaches_def)
  have all: "unat ?r \<le> (\<Sum>x\<leftarrow>take n ?xs. unat x)" if "reaches ow bps S" for S
  proof (cases "n < length ?xs")
    case False
    have "(\<Sum>x\<leftarrow>take (card S) ?xs. unat x) \<le> (\<Sum>x\<leftarrow>take (card S) ?xs @ drop (card S) ?xs. unat x)"
      by (simp only: map_append sum_list_append le_add1)
    then show ?thesis using upper [OF that] False by simp
  qed (rule spec(4))
  have least: "n \<le> max 1 (card S)" if S: "reaches ow bps S" for S
  proof (rule ccontr)
    assume "\<not> n \<le> max 1 (card S)"
    then have "(\<Sum>x\<leftarrow>take (max 1 (card S)) ?xs. unat x) < unat ?r" by (intro spec(3)) auto
    moreover have "(\<Sum>x\<leftarrow>take (card S) ?xs. unat x) \<le> (\<Sum>x\<leftarrow>take (max 1 (card S)) ?xs. unat x)"
      by (cases "card S") simp_all
    ultimately show False using upper [OF S] by simp
  qed
  have "\<exists>S. reaches ow bps S \<and> card S = n" if "reaches ow bps S" for S
    using T_reaches [OF all [OF that]] T(2) by blast
  moreover have "n = hm_len (ow_weights ow)" if "\<nexists>S. reaches ow bps S"
  proof (rule ccontr)
    assume "n \<noteq> hm_len (ow_weights ow)"
    then have "n < length ?xs" using spec(2) by simp
    from T_reaches [OF spec(4) [OF this]] show False using that by blast
  qed
  ultimately show ?thesis using least by blast
qed

definition three_operators :: operator_weights where
  "three_operators = \<lparr>ow_weights = [([1], 2000), ([2], 5000), ([3], 3000)], ow_total_exposure = 10000\<rparr>"

lemma three_operators_signers: "calculate_threshold_signers three_operators 6700 = 2"
  by (simp add: calculate_threshold_signers_def three_operators_def required_weight_def)

theorem threshold_signers_minimal_witness:
  "calculate_threshold_signers three_operators 6700 = 2
    \<and> (\<exists>S. reaches three_operators 6700 S \<and> card S = 2) \<and> \<not> reaches three_operators 6700 {[2]}"
proof -
  have "hm_wf (ow_weights three_operators)" "ow_weights three_operators \<noteq> []"
    "unat (ow_total_exposure three_operators) * unat (6700 :: u16) < 2 ^ 64"
    "hm_len (ow_weights three_operators) \<le> 2 ^ 48"
    by (simp_all add: three_operators_def hm_wf_def)
  note min = threshold_signers_minimal [OF this three_operators_signers [symmetric]]
  have "reaches three_operators 6700 {[2], [3]}"
    by (simp add: reaches_def three_operators_def weight_of_def)
  moreover have "\<not> reaches three_operators 6700 {[2]}"
  proof
    assume "reaches three_operators 6700 {[2]}"
    with min have "2 \<le> max 1 (card {[2 :: u8]})" by blast
    then show False by simp
  qed
  ultimately show ?thesis using min three_operators_signers by blast
qed

section \<open>Well-formed entries\<close>

text \<open>
  What the entries of the cache promise: the total exposure is the sum of the weights, and the index of
  an operator is its last position in the list.
\<close>

definition weights_wf :: "operator_weights \<Rightarrow> bool" where
  "weights_wf ow \<longleftrightarrow> hm_wf (ow_weights ow) \<and> ow_total_exposure ow = (\<Sum>v\<leftarrow>hm_values (ow_weights ow). ucast v)"

definition operators_wf :: "service_operators \<Rightarrow> bool" where
  "operators_wf so \<longleftrightarrow>
     (\<forall>a i. index_of so a = Some i \<longleftrightarrow>
        i < operators_len so \<and> so_operators so ! i = a \<and> a \<notin> set (drop (Suc i) (so_operators so)))"

definition lock_ok :: "('v \<Rightarrow> bool) \<Rightarrow> ('k, 'v) rwlock \<Rightarrow> bool" where
  "lock_ok P l \<longleftrightarrow> hm_wf (rl_map l) \<and> (\<forall>k e. hm_get (rl_map l) k = Some e \<longrightarrow> P (te_value e))"

definition cache_wf :: "'m service_cache \<Rightarrow> bool" where
  "cache_wf C \<longleftrightarrow> lock_ok (\<lambda>_. True) (sc_aggregation_configs C) \<and> lock_ok weights_wf (sc_operator_weights C)
     \<and> lock_ok operators_wf (sc_service_operators C) \<and> lock_ok (\<lambda>_. True) (sc_operator_metadata C)"

text \<open>A lock keeps its promise under every access of the code, poisoned or not.\<close>

named_theorems lock_rules

lemma lock_ok_new [lock_rules]: "lock_ok P lock_new"
  by (simp add: lock_ok_def lock_new_def)

lemma lock_ok_store [lock_rules]:
  "lock_ok P l \<Longrightarrow> P v \<Longrightarrow> lock_ok P (snd (store_entry now k v l))"
  by (auto simp: lock_ok_def store_entry_def entry_new_def split: if_splits)

lemma lock_ok_remove [lock_rules]: "lock_ok P l \<Longrightarrow> lock_ok P (update_lock (hm_remove k) l)"
  by (auto simp: lock_ok_def update_lock_def split: if_splits)

lemma lock_ok_retain [lock_rules]: "lock_ok P l \<Longrightarrow> lock_ok P (update_lock (hm_retain p) l)"
  by (auto simp: lock_ok_def update_lock_def hm_get_retain split: if_splits option.splits)

lemma lock_ok_empty [lock_rules]: "lock_ok P l \<Longrightarrow> lock_ok P (update_lock (\<lambda>_. []) l)"
  by (auto simp: lock_ok_def update_lock_def)

lemma lock_ok_poison [lock_rules]: "lock_ok P l \<Longrightarrow> lock_ok P (l\<lparr>rl_poisoned := True\<rparr>)"
  by (simp add: lock_ok_def)

lemma lock_ok_lookup: "lock_ok P l \<Longrightarrow> lookup_fresh now ttl k l = Inr (Some v) \<Longrightarrow> P v"
  by (auto simp: lock_ok_def lookup_fresh_def split: if_splits option.splits)

text \<open>What the code builds from the chain's answers is well-formed.\<close>

lemma operators_new_wf: "operators_wf (operators_new ops)"
proof (induction ops rule: rev_induct)
  case (snoc a ops)
  then show ?case
    by (auto simp: operators_wf_def operators_new_def operators_len_def index_of_def hm_collect_def
        hm_get_extend enumerate_append_eq nth_append less_Suc_eq)
qed (simp add: operators_wf_def operators_new_def operators_len_def index_of_def hm_collect_def)

lemma collect_weights_wf:
  assumes "hm_wf m" and "t = (\<Sum>v\<leftarrow>hm_values m. ucast v)" and "distinct ops" and "set ops \<inter> dom (hm_get m) = {}"
    and "collect_weights Ch w s ops m t = (m', t')"
  shows "hm_wf m' \<and> t' = (\<Sum>v\<leftarrow>hm_values m'. ucast v)"
  using assms
proof (induction Ch w s ops m t rule: collect_weights.induct)
  case (2 Ch w s a ops m t)
  show ?case
  proof (cases "ch_service_operator Ch s a (w 0)")
    case (Inl e)
    then show ?thesis using 2(1) [OF Inl] 2(4-) by simp
  next
    case (Inr p)
    obtain active bps where p: "p = (active, bps)" by (rule prod.exhaust)
    show ?thesis
    proof (cases active)
      case True
      have "hm_get m a = None" using 2(7) by auto
      moreover have "hm_wf (hm_insert a bps m)" using 2(4) by simp
      ultimately show ?thesis
        using 2(2) [OF Inr p [symmetric] True] 2(4-) Inr p True by (simp add: hm_insert_new [of m])
    next
      case False
      then show ?thesis using 2(3) [OF Inr p [symmetric] False] 2(4-) Inr p by simp
    qed
  qed
qed simp

definition lists_distinct :: "('w, 'm, 'l) chain \<Rightarrow> bool" where
  "lists_distinct Ch \<longleftrightarrow> (\<forall>s w ops. ch_service_operators Ch s w = Inr ops \<longrightarrow> distinct ops)"

lemma fetched_weights_wf:
  assumes "lists_distinct Ch" and "fetch_operator_weights Ch w s = Inr ow"
  shows "weights_wf ow"
proof -
  obtain ops where ops: "ch_service_operators Ch s (w 0) = Inr ops"
    using assms(2) by (auto simp: fetch_operator_weights_def split: sum.splits)
  obtain m t where m: "collect_weights Ch (\<lambda>k. w (Suc k)) s ops [] 0 = (m, t)" by (rule prod.exhaust)
  have "distinct ops" using assms(1) ops by (simp add: lists_distinct_def)
  from collect_weights_wf [OF _ _ this _ m] have "hm_wf m \<and> t = (\<Sum>v\<leftarrow>hm_values m. ucast v)" by simp
  then show ?thesis using assms(2) ops m by (auto simp: fetch_operator_weights_def weights_wf_def)
qed

text \<open>
  What tasks that share the cache can do to it, one after the other and while another task waits for
  the chain: the calls of the code, with well-formed weights given to \<^const>\<open>set_operator_weights\<close>,
  and the poisoning of a lock by a panic.
\<close>

inductive effect :: "('w, 'm, 'l) chain \<Rightarrow> 'l log_ops \<Rightarrow> ('m service_cache \<Rightarrow> 'm service_cache) \<Rightarrow> bool"
  for Ch L where
  nothing: "effect Ch L (\<lambda>C. C)"
| seq: "effect Ch L f \<Longrightarrow> effect Ch L g \<Longrightarrow> effect Ch L (\<lambda>C. g (f C))"
| get_config: "effect Ch L I \<Longrightarrow> effect Ch L (\<lambda>C. snd (get_aggregation_config Ch w now I now' s j C))"
| set_config: "effect Ch L (\<lambda>C. snd (set_aggregation_config now s j c C))"
| get_weights: "effect Ch L I \<Longrightarrow> effect Ch L (\<lambda>C. snd (get_operator_weights Ch ws now I now' s C))"
| set_weights: "weights_wf ow \<Longrightarrow> effect Ch L (\<lambda>C. snd (set_operator_weights now s ow C))"
| get_operators: "effect Ch L I \<Longrightarrow> effect Ch L (\<lambda>C. snd (get_service_operators Ch w now I now' s C))"
| get_metadata: "effect Ch L I \<Longrightarrow> effect Ch L (\<lambda>C. snd (get_operator_metadata Ch w now I now' b a C))"
| get_all_metadata: "(\<And>k. effect Ch L (mo_others (at k))) \<Longrightarrow>
    effect Ch L (\<lambda>C. snd (get_service_operator_metadata Ch at b s C))"
| ttl: "effect Ch L (set_ttl d)"
| invalidate: "effect Ch L (invalidate_service s)"
| invalidate_config: "effect Ch L (invalidate_aggregation_config s j)"
| clear: "effect Ch L cache_clear"
| cleanup: "effect Ch L (cache_cleanup_expired n n' n'')"
| event: "effect Ch L (process_event ev)"
| sync: "effect Ch L (\<lambda>C. snd (snd (poll_and_sync Ch L w sy C)))"
| poison_configs: "effect Ch L (\<lambda>C. C\<lparr>sc_aggregation_configs := (sc_aggregation_configs C)\<lparr>rl_poisoned := True\<rparr>\<rparr>)"
| poison_weights: "effect Ch L (\<lambda>C. C\<lparr>sc_operator_weights := (sc_operator_weights C)\<lparr>rl_poisoned := True\<rparr>\<rparr>)"
| poison_operators: "effect Ch L (\<lambda>C. C\<lparr>sc_service_operators := (sc_service_operators C)\<lparr>rl_poisoned := True\<rparr>\<rparr>)"
| poison_metadata: "effect Ch L (\<lambda>C. C\<lparr>sc_operator_metadata := (sc_operator_metadata C)\<lparr>rl_poisoned := True\<rparr>\<rparr>)"

text \<open>Each call keeps the cache well-formed, given that what happens meanwhile does.\<close>

lemma store_ok:
  "store_entry now k v l = (r, l') \<Longrightarrow> lock_ok P l \<Longrightarrow> P v \<Longrightarrow> lock_ok P l'"
  using lock_ok_store [of P l v now k] by simp

lemma get_config_wf:
  "cache_wf C \<Longrightarrow> cache_wf (I C) \<Longrightarrow> cache_wf (snd (get_aggregation_config Ch w now I now' s j C))"
  by (auto simp: get_aggregation_config_def cache_wf_def Let_def split: sum.split option.split prod.split
      elim!: store_ok)

lemma get_weights_wf:
  assumes "lists_distinct Ch" and "cache_wf C" and "cache_wf (I C)"
  shows "cache_wf (snd (get_operator_weights Ch ws now I now' s C))"
  using assms fetched_weights_wf [OF assms(1)]
  by (auto simp: get_operator_weights_def cache_wf_def split: sum.split option.split prod.split elim!: store_ok)

lemma get_operators_wf:
  "cache_wf C \<Longrightarrow> cache_wf (I C) \<Longrightarrow> cache_wf (snd (get_service_operators Ch w now I now' s C))"
  by (auto simp: get_service_operators_def cache_wf_def Let_def operators_new_wf
      split: sum.split option.split prod.split elim!: store_ok)

lemma get_metadata_wf:
  "cache_wf C \<Longrightarrow> cache_wf (I C) \<Longrightarrow> cache_wf (snd (get_operator_metadata Ch w now I now' b a C))"
  by (auto simp: get_operator_metadata_def cache_wf_def Let_def split: sum.split option.split prod.split
      elim!: store_ok)

lemma collect_metadata_wf:
  assumes "\<And>k C. cache_wf C \<Longrightarrow> cache_wf (mo_others (at k) C)" and "cache_wf C"
  shows "cache_wf (snd (collect_metadata Ch at b ops m C))"
  using assms
proof (induction Ch at b ops m C rule: collect_metadata.induct)
  case (2 Ch at b a ops m C)
  let ?r = "get_operator_metadata Ch (mo_chain (at 0)) (mo_lookup (at 0)) (mo_others (at 0)) (mo_store (at 0)) b a C"
  obtain r C' where r: "?r = (r, C')" by (rule prod.exhaust)
  have C': "cache_wf C'" using get_metadata_wf [OF 2(3), of "mo_others (at 0)"] 2(2,3) r by (metis snd_conv)
  then show ?case using 2(1) [OF r [symmetric] _ 2(2) C'] r by (cases r) auto
qed simp

lemma handle_event_wf: "cache_wf C \<Longrightarrow> cache_wf (handle_event ev C)"
  by (cases ev) (simp_all add: cache_wf_def invalidate_operator_data_def invalidate_service_def lock_rules)

lemma process_logs_wf: "cache_wf C \<Longrightarrow> cache_wf (snd (process_logs L sy logs C))"
proof -
  have "cache_wf (snd acc) \<Longrightarrow> cache_wf (snd (fold (\<lambda>log (count, C).
         case parse_log L log of
           None \<Rightarrow> (count, C)
         | Some event \<Rightarrow>
             if should_watch sy (event_service event) then (count + 1, handle_event event C) else (count, C))
       logs acc))" for acc :: "nat \<times> 'a service_cache"
    by (induction logs arbitrary: acc) (auto simp: handle_event_wf split: option.split prod.split)
  then show "cache_wf C \<Longrightarrow> cache_wf (snd (process_logs L sy logs C))"
    by (simp add: process_logs_def)
qed

lemma poll_wf: "cache_wf C \<Longrightarrow> cache_wf (snd (snd (poll_and_sync Ch L w sy C)))"
  using process_logs_wf [of C L sy]
  by (simp add: poll_and_sync_def split_beta Let_def split: sum.split)

lemma simple_calls_wf:
  assumes "cache_wf C"
  shows "cache_wf (set_ttl d C)" "cache_wf (invalidate_service s C)"
    "cache_wf (invalidate_aggregation_config s j C)" "cache_wf (cache_clear C)"
    "cache_wf (cache_cleanup_expired n n' n'' C)" "cache_wf (process_event ev C)"
    "cache_wf (C\<lparr>sc_aggregation_configs := (sc_aggregation_configs C)\<lparr>rl_poisoned := True\<rparr>\<rparr>)"
    "cache_wf (C\<lparr>sc_operator_weights := (sc_operator_weights C)\<lparr>rl_poisoned := True\<rparr>\<rparr>)"
    "cache_wf (C\<lparr>sc_service_operators := (sc_service_operators C)\<lparr>rl_poisoned := True\<rparr>\<rparr>)"
    "cache_wf (C\<lparr>sc_operator_metadata := (sc_operator_metadata C)\<lparr>rl_poisoned := True\<rparr>\<rparr>)"
proof -
  show "cache_wf (process_event ev C)" using assms by (simp add: process_event_def handle_event_wf)
qed (use assms in \<open>simp_all add: cache_wf_def set_ttl_def invalidate_service_def
    invalidate_aggregation_config_def cache_clear_def cache_cleanup_expired_def Let_def lock_rules\<close>)

lemma effect_wf:
  assumes "effect Ch L f" and "lists_distinct Ch" and "cache_wf C"
  shows "cache_wf (f C)"
  using assms
proof (induction arbitrary: C rule: effect.induct)
  case (get_all_metadata at b s)
  let ?r = "get_service_operators Ch (mo_chain (at 0)) (mo_lookup (at 0)) (mo_others (at 0)) (mo_store (at 0)) s C"
  obtain r C' where r: "?r = (r, C')" by (rule prod.exhaust)
  have "cache_wf C'"
    using get_operators_wf [OF get_all_metadata(4), of "mo_others (at 0)"] get_all_metadata(2-4) r by (metis snd_conv)
  then show ?case
    using collect_metadata_wf [of "\<lambda>k. at (Suc k)" C'] get_all_metadata(2,3) r
    by (cases r) (simp_all add: get_service_operator_metadata_def)
next
  case (set_weights ow now s)
  then show ?case
    by (auto simp: cache_wf_def set_operator_weights_def split: prod.split elim!: store_ok)
next
  case (set_config now s j c)
  then show ?case
    by (auto simp: cache_wf_def set_aggregation_config_def split: prod.split elim!: store_ok)
next
  case (get_weights I ws now now' s)
  then show ?case by (intro get_weights_wf)
qed (simp_all add: get_config_wf get_operators_wf get_metadata_wf poll_wf simple_calls_wf)


text \<open>A chain with one service of two operators, whose state is the number of blocks; block \<open>n\<close> has
  one log, and the node does not answer in state 2.\<close>

definition demo_hist :: "nat \<Rightarrow> (u64 \<times> invalidation_event) list" where
  "demo_hist w = take w [(1, OperatorJoined 1 [1]), (2, OperatorJoined 1 [2]), (3, ServiceTerminated 1)]"

definition demo_logs :: "(u64 \<times> invalidation_event) log_ops" where
  "demo_logs =
     \<lparr>lo_block_number = (\<lambda>l. Some (fst l)),
      lo_joined = (\<lambda>l. case snd l of OperatorJoined s a \<Rightarrow> Some (s, a) | _ \<Rightarrow> None),
      lo_left = (\<lambda>l. case snd l of OperatorLeft s a \<Rightarrow> Some (s, a) | _ \<Rightarrow> None),
      lo_terminated = (\<lambda>l. case snd l of ServiceTerminated s \<Rightarrow> Some s | _ \<Rightarrow> None),
      lo_activated = (\<lambda>l. case snd l of ServiceActivated s \<Rightarrow> Some s | _ \<Rightarrow> None)\<rparr>"

definition demo_chain :: "(nat, unit, u64 \<times> invalidation_event) chain" where
  "demo_chain =
     \<lparr>ch_aggregation_config = (\<lambda>_ _ _. Inl ''none''),
      ch_service_operators = (\<lambda>s w. if s = 1 then Inr (take w [[1], [2]]) else Inl ''no such service''),
      ch_service_operator = (\<lambda>s a w. Inr (True, if a = [1] then 6000 else 4000)),
      ch_operator_metadata = (\<lambda>_ _ _. Inr ()),
      ch_logs = (\<lambda>from w. if w = 2 then Inl ''time-out''
                  else Inr (filter (\<lambda>l. from \<le> fst l) (demo_hist w)))\<rparr>"

lemma demo_chain_distinct: "lists_distinct demo_chain"
proof -
  have "distinct (take w [[1], [2 :: u8]])" for w by (rule distinct_take) simp
  then show ?thesis by (auto simp: lists_distinct_def demo_chain_def split: if_splits)
qed


section \<open>Following the chain\<close>

definition block_of :: "'l log_ops \<Rightarrow> 'l \<Rightarrow> u64" where
  "block_of L l = the (lo_block_number L l)"

text \<open>A node that answers with all logs from a block on, in order, or fails.\<close>

definition log_node :: "('w, 'm, 'l) chain \<Rightarrow> 'l log_ops \<Rightarrow> ('w \<Rightarrow> 'l list) \<Rightarrow> bool" where
  "log_node Ch L hist \<longleftrightarrow>
     (\<forall>b w. (\<exists>e. ch_logs Ch b w = Inl e) \<or> ch_logs Ch b w = Inr (filter (\<lambda>l. b \<le> block_of L l) (hist w)))
     \<and> (\<forall>w. sorted (map (block_of L) (hist w)))
     \<and> (\<forall>w. \<forall>l\<in>set (hist w). lo_block_number L l \<noteq> None \<and> block_of L l \<noteq> - 1)"

text \<open>A later history adds the logs of later blocks.\<close>

definition grows :: "'l log_ops \<Rightarrow> 'l list \<Rightarrow> 'l list \<Rightarrow> bool" where
  "grows L h h' \<longleftrightarrow> (\<exists>new. h' = h @ new \<and> (\<forall>l\<in>set h. \<forall>l'\<in>set new. block_of L l < block_of L l'))"

fun sync_run ::
  "('w, 'm, 'l) chain \<Rightarrow> 'l log_ops \<Rightarrow> 'w list \<Rightarrow> sync_service \<Rightarrow> 'm service_cache \<Rightarrow> 'm service_cache" where
  "sync_run Ch L [] sy C = C"
| "sync_run Ch L (w # ws) sy C =
     (case poll_and_sync Ch L w sy C of (r, sy', C') \<Rightarrow> sync_run Ch L ws sy' C')"

lemma process_logs_append:
  fixes C :: "'m service_cache"
  shows "process_logs L sy (xs @ ys) C =
     (case process_logs L sy xs C of (n, C') \<Rightarrow> case process_logs L sy ys C' of (n', C'') \<Rightarrow> (n + n', C''))"
proof -
  let ?f = "\<lambda>log (count :: nat, C :: 'm service_cache). case parse_log L log of
           None \<Rightarrow> (count, C)
         | Some event \<Rightarrow>
             if should_watch sy (event_service event) then (count + 1, handle_event event C) else (count, C)"
  have "fold ?f ys (n, C) = (case fold ?f ys (0, C) of (n', C') \<Rightarrow> (n + n', C'))" for ys n C
  proof (induction ys arbitrary: n C)
    case (Cons y ys)
    let ?e = "?f y (0, C)"
    have "fold ?f (y # ys) (n, C) = fold ?f ys (n + fst ?e, snd ?e)"
      by (auto split: option.split)
    also have "\<dots> = (case fold ?f ys (0, snd ?e) of (n', C') \<Rightarrow> (n + fst ?e + n', C'))" by (rule Cons)
    also have "\<dots> = (case fold ?f ys (fst ?e, snd ?e) of (n', C') \<Rightarrow> (n + n', C'))"
      unfolding Cons [of "fst ?e"] by (simp add: split_beta)
    finally show ?case by simp
  qed simp
  from this [of ys "fst (fold ?f xs (0, C))" "snd (fold ?f xs (0, C))"]
  show ?thesis by (simp only: process_logs_def fold_append comp_apply prod.collapse) (simp only: split_beta)
qed

lemma process_logs_watched:
  assumes "sy_watched_services sy' = sy_watched_services sy"
  shows "process_logs L sy' logs C = process_logs L sy logs C"
proof -
  have "should_watch sy' = should_watch sy" using assms by (simp add: should_watch_def fun_eq_iff)
  then show ?thesis unfolding process_logs_def by (rule arg_cong)
qed

text \<open>After a poll the next one starts where this one ended.\<close>

lemma poll_then_rest:
  assumes node: "log_node Ch L hist" and h: "grows L (hist w) h"
    and poll: "poll_and_sync Ch L w sy C = (Inr n, sy', C')"
  shows "sy_watched_services sy' = sy_watched_services sy"
    and "process_logs L sy (filter (\<lambda>l. sy_last_block sy \<le> block_of L l) h) C =
      (case process_logs L sy (filter (\<lambda>l. sy_last_block sy' \<le> block_of L l) h) C' of (n', C'') \<Rightarrow> (n + n', C''))"
proof -
  let ?b = "sy_last_block sy" and ?logs = "filter (\<lambda>l. sy_last_block sy \<le> block_of L l) (hist w)"
  obtain new where new: "h = hist w @ new" "\<forall>l\<in>set (hist w). \<forall>l'\<in>set new. block_of L l < block_of L l'"
    using h by (auto simp: grows_def)
  have "(\<exists>e. ch_logs Ch ?b w = Inl e) \<or> ch_logs Ch ?b w = Inr ?logs"
    using node unfolding log_node_def by blast
  then have logs: "ch_logs Ch ?b w = Inr ?logs"
    using poll by (auto simp: poll_and_sync_def)
  then have *: "process_logs L sy ?logs C = (n, C')"
    "sy' = (if ?logs = [] then sy else case lo_block_number L (last ?logs) of
              None \<Rightarrow> sy | Some b \<Rightarrow> sy\<lparr>sy_last_block := b + 1\<rparr>)"
    using poll by (auto simp: poll_and_sync_def split_beta Let_def)
  then show "sy_watched_services sy' = sy_watched_services sy" by (auto split: option.split)
  have "filter (\<lambda>l. ?b \<le> block_of L l) h = ?logs @ filter (\<lambda>l. sy_last_block sy' \<le> block_of L l) h"
  proof (cases "?logs = []")
    case True
    then show ?thesis using *(2) by simp
  next
    case False
    let ?l = "last ?logs"
    have l: "?l \<in> set (hist w)" "?b \<le> block_of L ?l" using last_in_set [OF False] by auto
    have some: "lo_block_number L ?l \<noteq> None" "block_of L ?l \<noteq> - 1"
      using node l(1) by (auto simp: log_node_def)
    then have b: "sy_last_block sy' = block_of L ?l + 1" using *(2) False by (auto simp: block_of_def)
    have later: "block_of L ?l + 1 \<le> x \<longleftrightarrow> block_of L ?l < x" for x
      using some(2) by (simp add: inc_less_eq_iff)
    have "block_of L l \<le> block_of L ?l" if "l \<in> set (hist w)" for l
    proof (cases "?b \<le> block_of L l")
      case True
      have "sorted (map (block_of L) ?logs)" using node by (simp add: log_node_def sorted_filter)
      from sorted_le_last [OF this, of "block_of L l"] True that False show ?thesis by (simp add: last_map)
    qed (use l(2) in simp)
    then have "filter (\<lambda>l. sy_last_block sy' \<le> block_of L l) (hist w) = []"
      by (simp add: filter_empty_conv b later linorder_not_less)
    moreover have "filter (\<lambda>l. sy_last_block sy' \<le> block_of L l) new = new" "filter (\<lambda>l. ?b \<le> block_of L l) new = new"
      using new(2) l by (force simp: filter_id_conv b later)+
    ultimately show ?thesis using new(1) by simp
  qed
  then show "process_logs L sy (filter (\<lambda>l. sy_last_block sy \<le> block_of L l) h) C =
      (case process_logs L sy (filter (\<lambda>l. sy_last_block sy' \<le> block_of L l) h) C' of (n', C'') \<Rightarrow> (n + n', C''))"
    by (simp only: process_logs_append *(1) prod.case)
qed



end
