(* ===== verification/Job_Types.thy ===== *)
theory Job_Types
  imports Hash_Map
begin

text \<open>
  The values that flow through a blueprint: job identifiers (\<open>crates/core/src/job/id.rs\<close>), metadata
  (\<open>crates/core/src/metadata.rs\<close>), job calls and job results (\<open>crates/core/src/job/call.rs\<close>,
  \<open>crates/core/src/job/result/mod.rs\<close>), the extractors of the Tangle metadata
  (\<open>crates/tangle-extra/src/extract/mod.rs\<close>) and the layer that copies metadata from a call to its
  result (\<open>crates/tangle-extra/src/layers.rs\<close>). The extensions of a call are opaque and left out.
\<close>

section \<open>Numbers as bytes\<close>

text \<open>\<open>to_be_bytes\<close> and \<open>from_be_bytes\<close> of the standard library, for a number of \<open>n\<close> bytes.\<close>

definition be_value :: "bytes \<Rightarrow> nat" where
  "be_value bs = foldl (\<lambda>a b. 256 * a + unat b) 0 bs"

definition be_digits :: "nat \<Rightarrow> nat \<Rightarrow> bytes" where
  "be_digits n k = map (\<lambda>i. word_of_nat (k div 256 ^ (n - 1 - i))) [0..<n]"

definition to_be_bytes :: "'a :: len word \<Rightarrow> bytes" where
  "to_be_bytes w = be_digits (LENGTH('a) div 8) (unat w)"

definition from_be_bytes :: "bytes \<Rightarrow> 'a :: len word" where
  "from_be_bytes bs = word_of_nat (be_value bs)"

definition to_le_bytes :: "'a :: len word \<Rightarrow> bytes" where
  "to_le_bytes w = rev (to_be_bytes w)"

definition from_le_bytes :: "bytes \<Rightarrow> 'a :: len word" where
  "from_le_bytes bs = from_be_bytes (rev bs)"

lemma be_value_append: "be_value (xs @ [b]) = 256 * be_value xs + unat b"
  by (simp add: be_value_def)

lemma be_value_Nil [simp]: "be_value [] = 0"
  by (simp add: be_value_def)

lemma unat_u8_less [simp]: "unat (b :: u8) < 256"
  by (rule order.strict_trans2 [OF unsigned_less]) simp

lemma be_value_less: "be_value bs < 256 ^ length bs"
proof (induction bs rule: rev_induct)
  case (snoc b bs)
  have "256 * be_value bs + unat b < 256 * (be_value bs + 1)" using unat_u8_less [of b] by simp
  also have "\<dots> \<le> 256 * 256 ^ length bs" using snoc by (intro mult_le_mono2) simp
  finally show ?case by (simp add: be_value_append)
qed simp

lemma length_be_digits [simp]: "length (be_digits n k) = n"
  by (simp add: be_digits_def)

lemma be_digits_Suc: "be_digits (Suc n) k = be_digits n (k div 256) @ [word_of_nat k]"
proof -
  have "k div 256 div 256 ^ (n - Suc i) = k div 256 ^ (n - i)" if "i < n" for i
    using that by (simp add: div_mult2_eq [symmetric] power_Suc [symmetric] Suc_diff_Suc del: power_Suc)
  then show ?thesis by (simp add: be_digits_def)
qed

lemma be_value_digits: "be_value (be_digits n k) = k mod 256 ^ n"
proof (induction n arbitrary: k)
  case (Suc n)
  have "be_value (be_digits (Suc n) k) = 256 * (k div 256 mod 256 ^ n) + k mod 256"
    by (simp add: be_digits_Suc be_value_append Suc unsigned_of_nat take_bit_eq_mod)
  then show ?case by (simp add: mod_mult2_eq)
qed (simp add: be_digits_def)

lemma be_digits_value: "be_digits (length bs) (be_value bs) = bs"
proof (induction bs rule: rev_induct)
  case (snoc b bs)
  have "(256 * be_value bs + unat b) div 256 = be_value bs" using unat_u8_less [of b] by simp
  moreover have "(word_of_nat (256 * be_value bs + unat b) :: u8) = b"
  proof -
    have "(of_nat 256 :: u8) = 0" by simp
    then show ?thesis by (simp only: of_nat_add of_nat_mult) simp
  qed
  ultimately show ?case using snoc by (simp add: be_value_append be_digits_Suc)
qed (simp add: be_digits_def)

text \<open>Widths of whole bytes.\<close>

abbreviation whole_bytes :: "'a :: len itself \<Rightarrow> bool" where
  "whole_bytes _ \<equiv> 8 dvd LENGTH('a)"

lemma power_256: "(256 :: nat) ^ n = 2 ^ (8 * n)"
  by (simp add: power_mult)

lemma from_to_be_bytes:
  assumes "whole_bytes TYPE('a)"
  shows "from_be_bytes (to_be_bytes (w :: 'a :: len word)) = w"
proof -
  have "unat w mod 256 ^ (LENGTH('a) div 8) = unat w"
    using assms unsigned_less [of w] by (simp add: power_256)
  then show ?thesis by (simp add: from_be_bytes_def to_be_bytes_def be_value_digits)
qed

lemma length_to_be_bytes [simp]: "length (to_be_bytes (w :: 'a :: len word)) = LENGTH('a) div 8"
  by (simp add: to_be_bytes_def)

lemma to_from_be_bytes:
  assumes "8 * length bs = LENGTH('a)"
  shows "to_be_bytes (from_be_bytes bs :: 'a :: len word) = bs"
proof -
  have n: "LENGTH('a) div 8 = length bs" using assms by simp
  have "be_value bs < 2 ^ LENGTH('a)" using be_value_less [of bs] assms by (simp add: power_256)
  then have "unat (word_of_nat (be_value bs) :: 'a word) = be_value bs"
    by (simp add: unsigned_of_nat take_bit_nat_eq_self)
  then show ?thesis by (simp add: to_be_bytes_def from_be_bytes_def n be_digits_value)
qed

lemma from_to_le_bytes: "whole_bytes TYPE('a) \<Longrightarrow> from_le_bytes (to_le_bytes (w :: 'a :: len word)) = w"
  by (simp add: from_le_bytes_def to_le_bytes_def from_to_be_bytes)

lemma to_from_le_bytes: "8 * length bs = LENGTH('a) \<Longrightarrow> to_le_bytes (from_le_bytes bs :: 'a :: len word) = bs"
  by (simp add: from_le_bytes_def to_le_bytes_def to_from_be_bytes)

section \<open>Job identifiers\<close>

type_synonym u128 = "128 word"

datatype job_id = JobId u64 u64 u64 u64

definition job_id_zero :: job_id where
  "job_id_zero = JobId 0 0 0 0"

text \<open>\<open>value as u64\<close> extends unsigned types by zeros and signed ones by the sign.\<close>

definition job_id_of_unsigned :: "'a :: len word \<Rightarrow> job_id" where
  "job_id_of_unsigned v = JobId 0 0 0 (ucast v)"

definition job_id_of_signed :: "'a :: len word \<Rightarrow> job_id" where
  "job_id_of_signed v = JobId 0 0 0 (scast v)"

fun number_of_job_id :: "job_id \<Rightarrow> 'a :: len word" where
  "number_of_job_id (JobId a b c d) = ucast d"

definition job_id_of_wide :: "u128 \<Rightarrow> job_id" where
  "job_id_of_wide v = JobId 0 0 (ucast (drop_bit 64 v)) (ucast v)"

fun wide_of_job_id :: "job_id \<Rightarrow> u128" where
  "wide_of_job_id (JobId a b c d) = or (push_bit 64 (ucast c)) (ucast d)"

definition job_id_of_array :: "bytes \<Rightarrow> job_id" where
  "job_id_of_array value =
     JobId (from_le_bytes (take 8 value)) (from_le_bytes (take 8 (drop 8 value)))
       (from_le_bytes (take 8 (drop 16 value))) (from_le_bytes (take 8 (drop 24 value)))"

fun array_of_job_id :: "job_id \<Rightarrow> bytes" where
  "array_of_job_id (JobId a b c d) = to_le_bytes a @ to_le_bytes b @ to_le_bytes c @ to_le_bytes d"

definition job_id_of_slice :: "(bytes \<Rightarrow> bytes) \<Rightarrow> bytes \<Rightarrow> job_id" where
  "job_id_of_slice keccak256 value = job_id_of_array (keccak256 value)"

section \<open>Metadata\<close>

record metadata_value =
  mv_inner :: bytes
  mv_is_sensitive :: bool

type_synonym metadata = "(string, metadata_value) hmap"

definition metadata_from_bytes :: "bytes \<Rightarrow> metadata_value" where
  "metadata_from_bytes value = \<lparr>mv_inner = value, mv_is_sensitive = False\<rparr>"

definition metadata_from_sensitive_bytes :: "bytes \<Rightarrow> metadata_value" where
  "metadata_from_sensitive_bytes value = \<lparr>mv_inner = value, mv_is_sensitive = True\<rparr>"

definition metadata_from_number :: "'a :: len word \<Rightarrow> metadata_value" where
  "metadata_from_number value = metadata_from_bytes (to_be_bytes value)"

definition number_from_metadata :: "metadata_value \<Rightarrow> 'a :: len word option" where
  "number_from_metadata value =
     (if length (mv_inner value) = LENGTH('a) div 8 then Some (from_be_bytes (mv_inner value)) else None)"

definition metadata_insert :: "string \<Rightarrow> metadata_value \<Rightarrow> metadata \<Rightarrow> metadata_value option \<times> metadata" where
  "metadata_insert key value m = (hm_get m key, hm_insert key value m)"

definition metadata_get :: "string \<Rightarrow> metadata \<Rightarrow> metadata_value option" where
  "metadata_get key m = hm_get m key"

section \<open>Job calls and results\<close>

record call_parts =
  cp_job_id :: job_id
  cp_metadata :: metadata

record job_call =
  jc_head :: call_parts
  jc_body :: bytes

definition parts_new :: "job_id \<Rightarrow> call_parts" where
  "parts_new job_id = \<lparr>cp_job_id = job_id, cp_metadata = []\<rparr>"

definition with_metadata :: "metadata \<Rightarrow> call_parts \<Rightarrow> call_parts" where
  "with_metadata metadata parts = parts\<lparr>cp_metadata := metadata\<rparr>"

definition call_from_parts :: "call_parts \<Rightarrow> bytes \<Rightarrow> job_call" where
  "call_from_parts parts body = \<lparr>jc_head = parts, jc_body = body\<rparr>"

datatype job_result = JobOk metadata bytes | JobErr string

section \<open>Extractors\<close>

datatype rejection = MissingKey | InvalidValue

definition call_id_key :: string where "call_id_key = ''X-TANGLE-CALL-ID''"
definition service_id_key :: string where "service_id_key = ''X-TANGLE-SERVICE-ID''"
definition job_index_key :: string where "job_index_key = ''X-TANGLE-JOB-INDEX''"
definition block_number_key :: string where "block_number_key = ''X-TANGLE-BLOCK-NUMBER''"
definition block_hash_key :: string where "block_hash_key = ''X-TANGLE-BLOCK-HASH''"
definition timestamp_key :: string where "timestamp_key = ''X-TANGLE-TIMESTAMP''"
definition caller_key :: string where "caller_key = ''X-TANGLE-CALLER''"

lemmas metadata_keys = call_id_key_def service_id_key_def job_index_key_def block_number_key_def
  block_hash_key_def timestamp_key_def caller_key_def

definition extract_u64 :: "string \<Rightarrow> call_parts \<Rightarrow> rejection + u64" where
  "extract_u64 key parts =
     (case metadata_get key (cp_metadata parts) of
        None \<Rightarrow> Inl MissingKey
      | Some raw \<Rightarrow> ok_or InvalidValue (number_from_metadata raw))"

definition extract_array :: "nat \<Rightarrow> string \<Rightarrow> call_parts \<Rightarrow> rejection + bytes" where
  "extract_array n key parts =
     (case metadata_get key (cp_metadata parts) of
        None \<Rightarrow> Inl MissingKey
      | Some raw \<Rightarrow> if length (mv_inner raw) = n then Inr (mv_inner raw) else Inl InvalidValue)"

definition extract_call_id :: "call_parts \<Rightarrow> rejection + u64" where
  "extract_call_id = extract_u64 call_id_key"

definition extract_service_id :: "call_parts \<Rightarrow> rejection + u64" where
  "extract_service_id = extract_u64 service_id_key"

definition extract_block_number :: "call_parts \<Rightarrow> rejection + u64" where
  "extract_block_number = extract_u64 block_number_key"

definition extract_timestamp :: "call_parts \<Rightarrow> rejection + u64" where
  "extract_timestamp = extract_u64 timestamp_key"

definition extract_block_hash :: "call_parts \<Rightarrow> rejection + bytes" where
  "extract_block_hash = extract_array 32 block_hash_key"

definition extract_caller :: "call_parts \<Rightarrow> rejection + bytes" where
  "extract_caller = extract_array 20 caller_key"

text \<open>The job index is the first byte of its value.\<close>

definition extract_job_index :: "call_parts \<Rightarrow> rejection + u8" where
  "extract_job_index parts =
     (case metadata_get job_index_key (cp_metadata parts) of
        None \<Rightarrow> Inl MissingKey
      | Some raw \<Rightarrow> (case mv_inner raw of [] \<Rightarrow> Inl InvalidValue | b # _ \<Rightarrow> Inr b))"

definition optional_extract :: "(call_parts \<Rightarrow> rejection + 'a) \<Rightarrow> call_parts \<Rightarrow> rejection + 'a option" where
  "optional_extract extract parts =
     (case extract parts of
        Inr value \<Rightarrow> Inr (Some value)
      | Inl MissingKey \<Rightarrow> Inr None
      | Inl InvalidValue \<Rightarrow> Inl InvalidValue)"

section \<open>The layer\<close>

text \<open>A service answers a call with an error, nothing or a result.\<close>

type_synonym service_fn = "job_call \<Rightarrow> string + job_result option"

definition attach_ids :: "u64 \<Rightarrow> u64 \<Rightarrow> string + job_result option \<Rightarrow> string + job_result option" where
  "attach_ids call_id service_id answer =
     (case answer of
        Inr (Some (JobOk metadata body)) \<Rightarrow>
          (let (_, metadata') = metadata_insert call_id_key (metadata_from_number call_id) metadata;
               (_, metadata'') = metadata_insert service_id_key (metadata_from_number service_id) metadata'
           in Inr (Some (JobOk metadata'' body)))
      | other \<Rightarrow> other)"

definition tangle_layer :: "service_fn \<Rightarrow> service_fn" where
  "tangle_layer service call =
     (case extract_call_id (jc_head call) of
        Inl _ \<Rightarrow> Inr None
      | Inr call_id \<Rightarrow>
          (case extract_service_id (jc_head call) of
             Inl _ \<Rightarrow> Inr None
           | Inr service_id \<Rightarrow> attach_ids call_id service_id (service call)))"

section \<open>Properties\<close>

lemma number_metadata:
  assumes "whole_bytes TYPE('a)"
  shows "number_from_metadata (metadata_from_number (v :: 'a :: len word)) = Some v"
  using assms by (simp add: number_from_metadata_def metadata_from_number_def metadata_from_bytes_def
      from_to_be_bytes)

lemma number_metadata_u64 [simp]: "number_from_metadata (metadata_from_number (v :: u64)) = Some v"
  by (rule number_metadata) simp

text \<open>Which values are read as a number: exactly those that were written as one.\<close>

lemma number_from_metadata_iff:
  assumes "whole_bytes TYPE('a)"
  shows "number_from_metadata m = Some (v :: 'a :: len word) \<longleftrightarrow> mv_inner m = to_be_bytes v"
proof
  assume "number_from_metadata m = Some v"
  then have n: "length (mv_inner m) = LENGTH('a) div 8" "v = from_be_bytes (mv_inner m)"
    by (auto simp: number_from_metadata_def split: if_splits)
  then have "8 * length (mv_inner m) = LENGTH('a)" using assms by simp
  from to_from_be_bytes [OF this] show "mv_inner m = to_be_bytes v" by (simp add: n(2))
qed (simp add: number_from_metadata_def from_to_be_bytes assms)

text \<open>
  C28: job identifiers lose nothing of the number or the 32 bytes they are made from: converting back
  gives the number for every unsigned and signed type of up to 64 bits and for 128 bits, and the array
  conversions are inverse to each other.
\<close>

theorem job_id_roundtrip:
  fixes v :: "'a :: len word"
  assumes "LENGTH('a) \<le> 64" and "length bs = 32"
  shows "number_of_job_id (job_id_of_unsigned v) = v \<and> number_of_job_id (job_id_of_signed v) = v
    \<and> wide_of_job_id (job_id_of_wide x) = x
    \<and> job_id_of_array (array_of_job_id j) = j \<and> array_of_job_id (job_id_of_array bs) = bs"
proof -
  have "ucast (ucast v :: u64) = v" "ucast (scast v :: u64) = v"
    using assms(1) by (auto intro!: bit_word_eqI simp: bit_simps)
  moreover have "or (push_bit 64 (ucast (ucast (drop_bit 64 x) :: u64))) (ucast (ucast x :: u64)) = x"
    by (rule bit_word_eqI) (auto simp: bit_simps)
  moreover have "job_id_of_array (array_of_job_id j) = j"
    by (cases j) (simp add: job_id_of_array_def from_to_le_bytes to_le_bytes_def from_le_bytes_def from_to_be_bytes)
  moreover have "array_of_job_id (job_id_of_array bs) = bs"
  proof -
    have "take 8 bs @ take 8 (drop 8 bs) @ take 8 (drop 16 bs) @ take 8 (drop 24 bs) = bs"
      using append_take_drop_id [of 8 bs] append_take_drop_id [of 8 "drop 8 bs"]
        append_take_drop_id [of 8 "drop 16 bs"] assms(2) by simp
    then show ?thesis using assms(2) by (simp add: job_id_of_array_def to_from_le_bytes)
  qed
  ultimately show ?thesis
    by (simp add: job_id_of_unsigned_def job_id_of_signed_def job_id_of_wide_def)
qed

theorem job_id_roundtrip_witness:
  "number_of_job_id (job_id_of_signed (- 1 :: u8)) = (- 1 :: u8)
    \<and> wide_of_job_id (job_id_of_wide (2 ^ 100 + 5)) = 2 ^ 100 + 5
    \<and> array_of_job_id (job_id_of_array (replicate 32 7)) = replicate 32 7"
proof -
  have "LENGTH(8) \<le> 64" "length (replicate 32 (7 :: u8)) = 32" by simp_all
  from job_id_roundtrip [OF this, of "- 1" "2 ^ 100 + 5" job_id_zero] show ?thesis by blast
qed

end
