(* ===== verification/Job_Router.thy ===== *)
theory Job_Router
  imports Job_Types
begin

text \<open>
  The router of job calls, \<open>crates/router/src/job_id_router.rs\<close> and \<open>crates/router/src/routing.rs\<close>. A
  route is a service; a boxed handler waits for a context. \<open>FuturesUnordered\<close> yields the answers of the
  routes in the order in which they finish, so a call is given that order. A \<open>None\<close> is a panic.
\<close>

section \<open>The router\<close>

datatype 'c handler = Route service_fn | Boxed "'c \<Rightarrow> service_fn"

record 'c job_router =
  jr_routes :: "(u32, 'c handler) hmap"
  jr_job_to_route_id :: "(job_id, u32) hmap"
  jr_prev_route_id :: u32
  jr_always_routes :: "'c handler list"
  jr_fallback :: "'c handler option"

definition router_new :: "'c job_router" where
  "router_new =
     \<lparr>jr_routes = [], jr_job_to_route_id = [], jr_prev_route_id = 0, jr_always_routes = [],
      jr_fallback = None\<rparr>"

definition next_route_id :: "'c job_router \<Rightarrow> (u32 \<times> 'c job_router) option" where
  "next_route_id R =
     (if jr_prev_route_id R = - 1 then None
      else Some (jr_prev_route_id R + 1, R\<lparr>jr_prev_route_id := jr_prev_route_id R + 1\<rparr>))"

definition add_route :: "job_id \<Rightarrow> 'c handler \<Rightarrow> 'c job_router \<Rightarrow> 'c job_router option" where
  "add_route job_id h R =
     map_option (\<lambda>(rid, R').
         R'\<lparr>jr_job_to_route_id := hm_insert job_id rid (jr_job_to_route_id R'),
            jr_routes := hm_insert rid h (jr_routes R')\<rparr>)
       (next_route_id R)"

definition route :: "job_id \<Rightarrow> ('c \<Rightarrow> service_fn) \<Rightarrow> 'c job_router \<Rightarrow> 'c job_router option" where
  "route job_id job R = add_route job_id (Boxed job) R"

definition route_service :: "job_id \<Rightarrow> service_fn \<Rightarrow> 'c job_router \<Rightarrow> 'c job_router option" where
  "route_service job_id service R = add_route job_id (Route service) R"

definition always :: "('c \<Rightarrow> service_fn) \<Rightarrow> 'c job_router \<Rightarrow> 'c job_router" where
  "always job R = R\<lparr>jr_fallback := None, jr_always_routes := jr_always_routes R @ [Boxed job]\<rparr>"

definition fallback :: "('c \<Rightarrow> service_fn) \<Rightarrow> 'c job_router \<Rightarrow> 'c job_router" where
  "fallback job R = R\<lparr>jr_fallback := Some (Boxed job)\<rparr>"

fun layer_handler :: "(service_fn \<Rightarrow> service_fn) \<Rightarrow> 'c handler \<Rightarrow> 'c handler" where
  "layer_handler layer (Route r) = Route (layer r)"
| "layer_handler layer (Boxed b) = Boxed (\<lambda>context. layer (b context))"

definition router_layer :: "(service_fn \<Rightarrow> service_fn) \<Rightarrow> 'c job_router \<Rightarrow> 'c job_router" where
  "router_layer layer R =
     R\<lparr>jr_routes := map (\<lambda>(rid, h). (rid, layer_handler layer h)) (jr_routes R),
       jr_always_routes := map (layer_handler layer) (jr_always_routes R),
       jr_fallback := map_option (layer_handler layer) (jr_fallback R)\<rparr>"

fun bind_handler :: "'c \<Rightarrow> 'c handler \<Rightarrow> 'd handler" where
  "bind_handler context (Route r) = Route r"
| "bind_handler context (Boxed b) = Route (b context)"

definition with_context :: "'c \<Rightarrow> 'c job_router \<Rightarrow> 'd job_router" where
  "with_context context R =
     \<lparr>jr_routes = map (\<lambda>(rid, h). (rid, bind_handler context h)) (jr_routes R),
      jr_job_to_route_id = jr_job_to_route_id R, jr_prev_route_id = jr_prev_route_id R,
      jr_always_routes = map (bind_handler context) (jr_always_routes R),
      jr_fallback = map_option (bind_handler context) (jr_fallback R)\<rparr>"

definition has_routes :: "'c job_router \<Rightarrow> bool" where
  "has_routes R \<longleftrightarrow> jr_routes R \<noteq> []"

section \<open>Calling\<close>

fun call_handler :: "'c \<Rightarrow> job_call \<Rightarrow> 'c handler \<Rightarrow> string + job_result option" where
  "call_handler context call (Route r) = r call"
| "call_handler context call (Boxed b) = b context call"

definition call_always_routes ::
  "'c job_router \<Rightarrow> job_call \<Rightarrow> 'c \<Rightarrow> (string + job_result option) list option" where
  "call_always_routes R call context =
     (if jr_always_routes R = [] then None
      else Some (map (call_handler context call) (jr_always_routes R)))"

text \<open>The outer option is a panic, the inner one that no route takes the call.\<close>

definition router_call_inner ::
  "'c job_router \<Rightarrow> job_call \<Rightarrow> 'c \<Rightarrow> (string + job_result option) list option option" where
  "router_call_inner R call context =
     (case hm_get (jr_job_to_route_id R) (cp_job_id (jc_head call)) of
        None \<Rightarrow> Some (call_always_routes R call context)
      | Some rid \<Rightarrow>
          (case hm_get (jr_routes R) rid of
             None \<Rightarrow> None
           | Some h \<Rightarrow>
               Some (Some (call_handler context call h #
                 (case call_always_routes R call context of None \<Rightarrow> [] | Some answers \<Rightarrow> answers)))))"

definition call_fallback :: "'c job_router \<Rightarrow> job_call \<Rightarrow> 'c \<Rightarrow> (string + job_result option) option" where
  "call_fallback R call context = map_option (call_handler context call) (jr_fallback R)"

definition call_with_context ::
  "'c job_router \<Rightarrow> job_call \<Rightarrow> 'c \<Rightarrow> (string + job_result option) list option option" where
  "call_with_context R call context =
     map_option (\<lambda>matched. case matched of
         Some answers \<Rightarrow> Some answers
       | None \<Rightarrow> map_option (\<lambda>answer. [answer]) (call_fallback R call context))
       (router_call_inner R call context)"

fun collect_answers :: "(string + job_result option) list \<Rightarrow> string + job_result list" where
  "collect_answers [] = Inr []"
| "collect_answers (Inl e # answers) = Inl e"
| "collect_answers (Inr None # answers) = collect_answers answers"
| "collect_answers (Inr (Some r) # answers) =
     (case collect_answers answers of Inl e \<Rightarrow> Inl e | Inr rs \<Rightarrow> Inr (r # rs))"

text \<open>\<open>order\<close> lists the positions of the routes as they finish.\<close>

definition router_call ::
  "nat list \<Rightarrow> unit job_router \<Rightarrow> job_call \<Rightarrow> (string + job_result list option) option" where
  "router_call order R call =
     map_option (\<lambda>matched. case matched of
         None \<Rightarrow> Inr None
       | Some answers \<Rightarrow>
           (case collect_answers (map (\<lambda>i. answers ! i) order) of
              Inl e \<Rightarrow> Inl e
            | Inr results \<Rightarrow> Inr (Some results)))
       (call_with_context R call ())"

section \<open>Specification\<close>

text \<open>What a router means: the handler of each job, the handlers of all calls, and the handler of
  what is left.\<close>

record 'c routing =
  ro_job :: "job_id \<Rightarrow> 'c handler option"
  ro_always :: "'c handler list"
  ro_fallback :: "'c handler option"

definition routing_of :: "'c job_router \<Rightarrow> 'c routing" where
  "routing_of R =
     \<lparr>ro_job = (\<lambda>j. Option.bind (hm_get (jr_job_to_route_id R) j) (hm_get (jr_routes R))),
      ro_always = jr_always_routes R, ro_fallback = jr_fallback R\<rparr>"

definition takes_call :: "'c routing \<Rightarrow> job_id \<Rightarrow> 'c handler list" where
  "takes_call r j =
     (case ro_job r j of
        Some h \<Rightarrow> h # ro_always r
      | None \<Rightarrow> if ro_always r \<noteq> [] then ro_always r
               else (case ro_fallback r of None \<Rightarrow> [] | Some h \<Rightarrow> [h]))"

datatype 'c build =
    AddJob job_id "'c \<Rightarrow> service_fn"
  | AddService job_id service_fn
  | AddAlways "'c \<Rightarrow> service_fn"
  | AddFallback "'c \<Rightarrow> service_fn"
  | AddLayer "service_fn \<Rightarrow> service_fn"

fun build_router :: "'c build list \<Rightarrow> 'c job_router \<Rightarrow> 'c job_router option" where
  "build_router [] R = Some R"
| "build_router (AddJob j job # bs) R = Option.bind (route j job R) (build_router bs)"
| "build_router (AddService j s # bs) R = Option.bind (route_service j s R) (build_router bs)"
| "build_router (AddAlways job # bs) R = build_router bs (always job R)"
| "build_router (AddFallback job # bs) R = build_router bs (fallback job R)"
| "build_router (AddLayer l # bs) R = build_router bs (router_layer l R)"

fun build_routing :: "'c build list \<Rightarrow> 'c routing \<Rightarrow> 'c routing" where
  "build_routing [] r = r"
| "build_routing (AddJob j job # bs) r = build_routing bs (r\<lparr>ro_job := (ro_job r)(j \<mapsto> Boxed job)\<rparr>)"
| "build_routing (AddService j s # bs) r = build_routing bs (r\<lparr>ro_job := (ro_job r)(j \<mapsto> Route s)\<rparr>)"
| "build_routing (AddAlways job # bs) r =
     build_routing bs (r\<lparr>ro_always := ro_always r @ [Boxed job], ro_fallback := None\<rparr>)"
| "build_routing (AddFallback job # bs) r = build_routing bs (r\<lparr>ro_fallback := Some (Boxed job)\<rparr>)"
| "build_routing (AddLayer l # bs) r =
     build_routing bs (r\<lparr>ro_job := map_option (layer_handler l) \<circ> ro_job r,
       ro_always := map (layer_handler l) (ro_always r), ro_fallback := map_option (layer_handler l) (ro_fallback r)\<rparr>)"

definition routing_empty :: "'c routing" where
  "routing_empty = \<lparr>ro_job = \<lambda>_. None, ro_always = [], ro_fallback = None\<rparr>"

section \<open>Refinement\<close>

text \<open>Every route identifier that a job has was given out and has a handler; each was given out
  to one job.\<close>

definition router_ok :: "'c job_router \<Rightarrow> bool" where
  "router_ok R \<longleftrightarrow>
     (\<forall>j rid. hm_get (jr_job_to_route_id R) j = Some rid \<longrightarrow>
        hm_get (jr_routes R) rid \<noteq> None \<and> 0 < rid \<and> rid \<le> jr_prev_route_id R)
     \<and> (\<forall>rid. hm_get (jr_routes R) rid \<noteq> None \<longrightarrow> rid \<le> jr_prev_route_id R)"

lemma router_ok_new: "router_ok router_new"
  by (simp add: router_ok_def router_new_def)

lemma add_route_ok:
  assumes ok: "router_ok R" and add: "add_route j h R = Some R'"
  shows "router_ok R'"
    and "routing_of R' = (routing_of R)\<lparr>ro_job := (ro_job (routing_of R))(j \<mapsto> h)\<rparr>"
proof -
  let ?rid = "jr_prev_route_id R + 1"
  have top: "jr_prev_route_id R \<noteq> - 1"
    and R': "R' = R\<lparr>jr_prev_route_id := ?rid, jr_job_to_route_id := hm_insert j ?rid (jr_job_to_route_id R),
        jr_routes := hm_insert ?rid h (jr_routes R)\<rparr>"
    using add by (auto simp: add_route_def next_route_id_def split: if_splits)
  have new: "x < ?rid" if "x \<le> jr_prev_route_id R" for x
    using that top by (metis inc_le linorder_not_less nle_le order_less_le word_le_less_eq inc_less_eq_iff)
  show "router_ok R'"
    using ok new by (fastforce simp: router_ok_def R' split: if_splits)
  have "hm_get (jr_job_to_route_id R) i = Some rid \<Longrightarrow> rid \<noteq> ?rid" for i rid
    using ok new by (fastforce simp: router_ok_def)
  then show "routing_of R' = (routing_of R)\<lparr>ro_job := (ro_job (routing_of R))(j \<mapsto> h)\<rparr>"
    by (auto simp: routing_of_def R' fun_eq_iff split: Option.bind_split)
qed

lemma layer_ok:
  assumes "router_ok R"
  shows "router_ok (router_layer l R)"
    and "routing_of (router_layer l R) = (routing_of R)\<lparr>ro_job := map_option (layer_handler l) \<circ> ro_job (routing_of R),
       ro_always := map (layer_handler l) (ro_always (routing_of R)),
       ro_fallback := map_option (layer_handler l) (ro_fallback (routing_of R))\<rparr>"
  using assms
  by (auto simp: router_ok_def router_layer_def routing_of_def map_of_map fun_eq_iff split: Option.bind_split)

lemma build_refines:
  assumes "build_router bs R = Some R'" and "router_ok R"
  shows "router_ok R' \<and> routing_of R' = build_routing bs (routing_of R)"
  using assms
proof (induction bs R rule: build_router.induct)
  case (2 j job bs R)
  obtain R1 where R1: "add_route j (Boxed job) R = Some R1" "build_router bs R1 = Some R'"
    using 2(2) by (auto simp: route_def bind_eq_Some_conv)
  show ?case
    using 2(1) [OF _ R1(2) add_route_ok(1) [OF 2(3) R1(1)]] R1(1) add_route_ok(2) [OF 2(3) R1(1)]
    by (simp add: route_def)
next
  case (3 j s bs R)
  obtain R1 where R1: "add_route j (Route s) R = Some R1" "build_router bs R1 = Some R'"
    using 3(2) by (auto simp: route_service_def bind_eq_Some_conv)
  show ?case
    using 3(1) [OF _ R1(2) add_route_ok(1) [OF 3(3) R1(1)]] R1(1) add_route_ok(2) [OF 3(3) R1(1)]
    by (simp add: route_service_def)
next
  case (4 job bs R)
  then show ?case by (simp add: always_def router_ok_def routing_of_def)
next
  case (5 job bs R)
  then show ?case by (simp add: fallback_def router_ok_def routing_of_def)
next
  case (6 l bs R)
  then show ?case by (simp add: layer_ok)
qed simp

lemma call_refines:
  assumes "router_ok R"
  shows "call_with_context R call context =
    (let hs = takes_call (routing_of R) (cp_job_id (jc_head call))
     in Some (if hs = [] then None else Some (map (call_handler context call) hs)))"
  using assms
  by (auto simp: call_with_context_def router_call_inner_def call_always_routes_def call_fallback_def
      takes_call_def routing_of_def router_ok_def Let_def split: option.splits)

lemma call_bound: "call_handler d call (bind_handler context h) = call_handler context call h"
  by (cases h) simp_all

lemma takes_call_bound:
  "takes_call (routing_of (with_context context R)) j = map (bind_handler context) (takes_call (routing_of R) j)"
  by (auto simp: takes_call_def routing_of_def with_context_def map_of_map split: option.splits Option.bind_split)

text \<open>
  C10: a router does what its construction says. However it was built from jobs, services, catch-all
  jobs, fall-backs and layers, calling it does not panic and runs exactly the job last registered for
  the call's identifier and every catch-all job, or the fall-back if there is neither (a fall-back set
  before a catch-all job is gone), each inside the layers added after it; and it makes no difference
  whether the context is given beforehand or with the call.
\<close>

theorem router_calls_registered:
  fixes R :: "'c job_router" and d :: 'd
  assumes "build_router bs router_new = Some R"
  shows "call_with_context R call context =
      (let hs = takes_call (build_routing bs routing_empty) (cp_job_id (jc_head call))
       in Some (if hs = [] then None else Some (map (call_handler context call) hs)))
    \<and> call_with_context (with_context context R) call d = call_with_context R call context"
proof -
  have ok: "router_ok R" and R: "routing_of R = build_routing bs routing_empty"
    using build_refines [OF assms router_ok_new]
    by (simp_all add: routing_of_def router_new_def routing_empty_def)
  moreover have "router_ok (with_context context R :: 'd job_router)"
    using ok by (auto simp: router_ok_def with_context_def map_of_map)
  ultimately show ?thesis
    by (simp add: call_refines takes_call_bound Let_def call_bound comp_def)
qed

text \<open>Two jobs under one identifier and a catch-all job behind a layer.\<close>

definition echo_job :: "unit \<Rightarrow> service_fn" where
  "echo_job _ call = Inr (Some (JobOk [] (jc_body call)))"

definition silent_job :: "unit \<Rightarrow> service_fn" where
  "silent_job _ call = Inr None"

definition demo_builds :: "unit build list" where
  "demo_builds = [AddFallback silent_job, AddJob job_id_zero silent_job, AddJob job_id_zero echo_job,
     AddAlways silent_job]"

theorem router_calls_registered_witness:
  "\<exists>R. build_router demo_builds router_new = Some R
    \<and> call_with_context R \<lparr>jc_head = parts_new job_id_zero, jc_body = [1]\<rparr> ()
        = Some (Some [Inr (Some (JobOk [] [1])), Inr None])"
proof -
  have "build_router demo_builds router_new \<noteq> None"
    by (simp add: demo_builds_def route_def add_route_def next_route_id_def router_new_def fallback_def)
  then obtain R where R: "build_router demo_builds router_new = Some R" by blast
  have "takes_call (build_routing demo_builds routing_empty) job_id_zero = [Boxed echo_job, Boxed silent_job]"
    by (simp add: demo_builds_def routing_empty_def takes_call_def)
  then show ?thesis
    using R router_calls_registered [OF R, of "\<lparr>jc_head = parts_new job_id_zero, jc_body = [1]\<rparr>" "()" "()"]
    by (simp add: parts_new_def echo_job_def silent_job_def)
qed

end
