(* ===== verification/Job_Producer.thy ===== *)
theory Job_Producer
  imports Job_Types "HOL-Library.Product_Lexorder"
begin

text \<open>
  The producer of job calls from the events of the chain, \<open>crates/tangle-extra/src/producer.rs\<close>. The
  chain client is the record \<open>rpc\<close> of the calls that are made, over a world \<open>'w\<close>. A decoder answers
  \<open>None\<close> when it panics: \<open>Uint::to\<close> of the \<open>ruint\<close> crate does on a value that does not fit, and so does
  slicing out of bounds. Sizes are those of a 64-bit target.
\<close>

section \<open>Events\<close>

datatype producer_error = ProducerClient string | Decoding string

record chain_log =
  lg_topics :: "bytes list"
  lg_data :: bytes
  lg_block_number :: "u64 option"
  lg_block_hash :: "bytes option"
  lg_block_timestamp :: "u64 option"
  lg_log_index :: "u64 option"

record job_submitted_event =
  je_service_id :: u64
  je_call_id :: u64
  je_job_index :: u8
  je_caller :: bytes
  je_inputs :: bytes
  je_block_number :: u64
  je_block_hash :: bytes

definition job_submitted_sig :: bytes where
  "job_submitted_sig =
     [0xde, 0x37, 0xcc, 0x48, 0xd2, 0x17, 0x78, 0xe1, 0xc9, 0xa0, 0x75, 0xc4, 0xe4, 0x1c, 0x5a, 0xff,
      0x69, 0x18, 0xc3, 0xea, 0x61, 0x51, 0x22, 0x1f, 0x0a, 0xf3, 0xce, 0x81, 0x21, 0xa2, 0x9d, 0xb5]"

definition job_submitted_from_quote_sig :: bytes where
  "job_submitted_from_quote_sig =
     [0xb7, 0x07, 0x25, 0x9a, 0x8a, 0x16, 0x04, 0xad, 0xca, 0x25, 0x1f, 0xec, 0xf8, 0x4e, 0xb2, 0x83,
      0x32, 0x9c, 0xd4, 0x51, 0x75, 0x69, 0x0d, 0xcb, 0x8f, 0xf1, 0xcf, 0x52, 0xa6, 0x25, 0x24, 0x22]"

definition u256_to_u64 :: "u256 \<Rightarrow> u64 option" where
  "u256_to_u64 x = (if unat x < 2 ^ 64 then Some (ucast x) else None)"

definition slice :: "nat \<Rightarrow> nat \<Rightarrow> bytes \<Rightarrow> bytes option" where
  "slice a b data = (if a \<le> b \<and> b \<le> length data then Some (take (b - a) (drop a data)) else None)"

definition read_u64_topic :: "bytes \<Rightarrow> u64 option" where
  "read_u64_topic topic = u256_to_u64 (from_be_bytes topic)"

definition read_slot :: "nat \<Rightarrow> bytes \<Rightarrow> u64 option" where
  "read_slot at data = u256_to_u64 (from_be_bytes (take 32 (drop at data)))"

text \<open>The dynamic bytes at an offset: a slot with their length, then the bytes.\<close>

definition read_inputs :: "string \<Rightarrow> u64 \<Rightarrow> bytes \<Rightarrow> (producer_error + bytes) option" where
  "read_inputs name offset data =
     (let start = offset + 32 in
      if length data < unat start then Some (Inl (Decoding (name @ '' inputs offset out of range'')))
      else case slice (unat offset) (unat start) data of
             None \<Rightarrow> None
           | Some buf \<Rightarrow>
               (case u256_to_u64 (from_be_bytes buf) of
                  None \<Rightarrow> None
                | Some inputs_len \<Rightarrow>
                    if 2 ^ 64 \<le> unat start + unat inputs_len
                    then Some (Inl (Decoding (name @ '' inputs length overflow'')))
                    else if length data < unat start + unat inputs_len
                    then Some (Inl (Decoding (name @ '' inputs length exceeds log data'')))
                    else map_option Inr (slice (unat start) (unat start + unat inputs_len) data)))"

definition read_caller :: "bytes \<Rightarrow> bytes" where
  "read_caller data = take 20 (drop 12 (take 32 (drop 32 data)))"

definition decode_job_submitted_data :: "bytes \<Rightarrow> (producer_error + u8 \<times> bytes \<times> bytes) option" where
  "decode_job_submitted_data data =
     (if length data < 96 then Some (Inl (Decoding ''JobSubmitted data too short for fixed fields''))
      else case read_slot 0 data of
             None \<Rightarrow> None
           | Some job_index \<Rightarrow>
               if 256 \<le> unat job_index then Some (Inl (Decoding ''job index out of range''))
               else (case read_slot 64 data of
                  None \<Rightarrow> None
                | Some offset \<Rightarrow>
                    map_option (\<lambda>r. case r of
                        Inl e \<Rightarrow> Inl e
                      | Inr inputs \<Rightarrow> Inr (ucast job_index, read_caller data, inputs))
                      (read_inputs ''JobSubmitted'' offset data)))"

text \<open>The block of a log, without which no event is made.\<close>

definition log_block :: "chain_log \<Rightarrow> producer_error + u64 \<times> bytes" where
  "log_block log =
     (case lg_block_number log of
        None \<Rightarrow> Inl (Decoding ''log missing block number'')
      | Some number \<Rightarrow>
          (case lg_block_hash log of
             None \<Rightarrow> Inl (Decoding ''log missing block hash'')
           | Some hash \<Rightarrow> Inr (number, hash)))"

definition make_event ::
  "u64 \<Rightarrow> u64 \<Rightarrow> u8 \<Rightarrow> bytes \<Rightarrow> bytes \<Rightarrow> chain_log \<Rightarrow> producer_error + job_submitted_event" where
  "make_event service_id call_id job_index caller inputs log =
     (case log_block log of
        Inl e \<Rightarrow> Inl e
      | Inr (number, hash) \<Rightarrow>
          Inr \<lparr>je_service_id = service_id, je_call_id = call_id, je_job_index = job_index,
               je_caller = caller, je_inputs = inputs, je_block_number = number, je_block_hash = hash\<rparr>)"

definition decode_job_submitted :: "chain_log \<Rightarrow> (producer_error + job_submitted_event) option" where
  "decode_job_submitted log =
     (let topics = lg_topics log in
      if topics = [] \<or> hd topics \<noteq> job_submitted_sig then Some (Inl (Decoding ''not a JobSubmitted log''))
      else if length topics < 3 then Some (Inl (Decoding ''topic list length mismatch''))
      else case (read_u64_topic (topics ! 1), read_u64_topic (topics ! 2)) of
             (Some service_id, Some call_id) \<Rightarrow>
               (case decode_job_submitted_data (lg_data log) of
                  None \<Rightarrow> None
                | Some (Inl e) \<Rightarrow> Some (Inl e)
                | Some (Inr (job_index, caller, inputs)) \<Rightarrow>
                    if length topics > 3
                    then map_option (\<lambda>t. make_event service_id call_id (ucast t) caller inputs log)
                           (read_u64_topic (topics ! 3))
                    else Some (make_event service_id call_id job_index caller inputs log))
           | _ \<Rightarrow> None)"

definition decode_job_submitted_from_quote :: "chain_log \<Rightarrow> (producer_error + job_submitted_event) option" where
  "decode_job_submitted_from_quote log =
     (let topics = lg_topics log; data = lg_data log in
      if topics = [] \<or> hd topics \<noteq> job_submitted_from_quote_sig
      then Some (Inl (Decoding ''not a JobSubmittedFromQuote log''))
      else if length topics < 3 then Some (Inl (Decoding ''topic list length mismatch''))
      else case (read_u64_topic (topics ! 1), read_u64_topic (topics ! 2)) of
             (Some service_id, Some call_id) \<Rightarrow>
               if length data < 160 then Some (Inl (Decoding ''JobSubmittedFromQuote data too short''))
               else (case read_slot 0 data of
                  None \<Rightarrow> None
                | Some job_index \<Rightarrow>
                    if 256 \<le> unat job_index then Some (Inl (Decoding ''job index out of range''))
                    else (case read_slot 128 data of
                       None \<Rightarrow> None
                     | Some offset \<Rightarrow>
                         map_option (\<lambda>r. case r of
                             Inl e \<Rightarrow> Inl e
                           | Inr inputs \<Rightarrow>
                               make_event service_id call_id (ucast job_index) (read_caller data) inputs log)
                           (read_inputs ''JobSubmittedFromQuote'' offset data)))
           | _ \<Rightarrow> None)"

text \<open>Both decoders in turn; the inner \<open>None\<close> is a log that is passed over.\<close>

definition decode_log :: "chain_log \<Rightarrow> job_submitted_event option option" where
  "decode_log log =
     (case decode_job_submitted log of
        None \<Rightarrow> None
      | Some (Inr event) \<Rightarrow> Some (Some event)
      | Some (Inl _) \<Rightarrow>
          (case decode_job_submitted_from_quote log of
             None \<Rightarrow> None
           | Some (Inr event) \<Rightarrow> Some (Some event)
           | Some (Inl _) \<Rightarrow> Some None))"

definition job_submitted_to_call :: "job_submitted_event \<Rightarrow> u64 \<Rightarrow> bytes \<Rightarrow> u64 \<Rightarrow> job_call" where
  "job_submitted_to_call event block_number block_hash timestamp =
     (let metadata = fold (\<lambda>(k, v) m. snd (metadata_insert k v m))
            [(call_id_key, metadata_from_number (je_call_id event)),
             (service_id_key, metadata_from_number (je_service_id event)),
             (job_index_key, metadata_from_bytes [je_job_index event]),
             (block_number_key, metadata_from_number block_number),
             (block_hash_key, metadata_from_bytes block_hash),
             (timestamp_key, metadata_from_number timestamp),
             (caller_key, metadata_from_bytes (je_caller event))] []
      in call_from_parts (with_metadata metadata (parts_new (job_id_of_unsigned (je_job_index event))))
           (je_inputs event))"

section \<open>Polling\<close>

record 'w rpc =
  rp_block_number :: "'w \<Rightarrow> (string + u64) \<times> 'w"
  rp_logs :: "u64 \<Rightarrow> u64 \<Rightarrow> 'w \<Rightarrow> (string + chain_log list) \<times> 'w"
  rp_block :: "u64 \<Rightarrow> 'w \<Rightarrow> (string + u64 option) \<times> 'w"
  rp_sleep :: "duration \<Rightarrow> 'w \<Rightarrow> 'w"

definition millis :: "nat \<Rightarrow> duration" where
  "millis n = n * 10 ^ 6"

definition max_log_range_blocks :: u64 where
  "max_log_range_blocks = 10"

definition rpc_retry_delay :: "u32 \<Rightarrow> duration" where
  "rpc_retry_delay attempt = millis (250 * unat (min (max attempt 1) 20))"

record rpc_failures =
  rf_block_number :: u32
  rf_get_logs :: u32
  rf_block_fetch :: u32

record producer_poll_result =
  pr_jobs :: "job_call list"
  pr_last_block :: u64
  pr_last_log_index :: "u64 option"

definition log_block_number :: "chain_log \<Rightarrow> u64" where
  "log_block_number log = (case lg_block_number log of None \<Rightarrow> 0 | Some b \<Rightarrow> b)"

definition log_index :: "chain_log \<Rightarrow> u64" where
  "log_index log = (case lg_log_index log of None \<Rightarrow> 0 | Some i \<Rightarrow> i)"

definition sort_logs :: "chain_log list \<Rightarrow> chain_log list" where
  "sort_logs logs = sort_key (\<lambda>log. (log_block_number log, log_index log)) logs"

definition filter_logs :: "u64 \<Rightarrow> u64 option \<Rightarrow> chain_log list \<Rightarrow> chain_log list" where
  "filter_logs effective_from_block from_log_index logs =
     (case from_log_index of
        None \<Rightarrow> logs
      | Some last_index \<Rightarrow>
          filter (\<lambda>log.
              if log_block_number log < effective_from_block then False
              else if log_block_number log > effective_from_block then True
              else log_index log > last_index) logs)"

definition next_cursor :: "u64 \<Rightarrow> u64 \<Rightarrow> u64 option \<Rightarrow> chain_log list \<Rightarrow> u64 \<times> u64 option" where
  "next_cursor effective_from_block to_block from_log_index filtered =
     (if filtered \<noteq> []
      then (case lg_block_number (last filtered) of None \<Rightarrow> to_block | Some b \<Rightarrow> b, lg_log_index (last filtered))
      else if to_block = effective_from_block then (effective_from_block, from_log_index)
      else (to_block, None))"

text \<open>The time of a block: from the log, from an earlier log of the block, or from the chain. A
  \<open>Left\<close> starts the poll anew.\<close>

definition block_time ::
  "'w rpc \<Rightarrow> chain_log \<Rightarrow> u64 \<Rightarrow> (u64, u64) hmap \<Rightarrow> rpc_failures \<Rightarrow> 'w \<Rightarrow>
   ((rpc_failures + u64 \<times> (u64, u64) hmap \<times> rpc_failures) \<times> 'w)" where
  "block_time P log block stamps f w =
     (case lg_block_timestamp log of
        Some ts \<Rightarrow> (Inr (ts, hm_insert block ts stamps, f), w)
      | None \<Rightarrow>
          (case hm_get stamps block of
             Some ts \<Rightarrow> (Inr (ts, stamps, f), w)
           | None \<Rightarrow>
               (case rp_block P block w of
                  (Inr (Some ts), w') \<Rightarrow> (Inr (ts, hm_insert block ts stamps, f\<lparr>rf_block_fetch := 0\<rparr>), w')
                | (_, w') \<Rightarrow>
                    (let f' = f\<lparr>rf_block_fetch := rf_block_fetch f + 1\<rparr>
                     in (Inl f', rp_sleep P (rpc_retry_delay (rf_block_fetch f')) w')))))"

datatype 'a poll_step = Retry rpc_failures | Finished 'a | PanickedP

fun collect_jobs ::
  "'w rpc \<Rightarrow> u64 \<Rightarrow> chain_log list \<Rightarrow> job_call list \<Rightarrow> (u64, u64) hmap \<Rightarrow> rpc_failures \<Rightarrow> 'w \<Rightarrow>
   job_call list poll_step \<times> 'w" where
  "collect_jobs P service_id [] jobs stamps f w = (Finished jobs, w)"
| "collect_jobs P service_id (log # logs) jobs stamps f w =
     (case decode_log log of
        None \<Rightarrow> (PanickedP, w)
      | Some None \<Rightarrow> collect_jobs P service_id logs jobs stamps f w
      | Some (Some event) \<Rightarrow>
          if je_service_id event \<noteq> service_id then collect_jobs P service_id logs jobs stamps f w
          else (case block_time P log (je_block_number event) stamps f w of
             (Inl f', w') \<Rightarrow> (Retry f', w')
           | (Inr (ts, stamps', f'), w') \<Rightarrow>
               collect_jobs P service_id logs
                 (jobs @ [job_submitted_to_call event (je_block_number event) (je_block_hash event) ts])
                 stamps' f' w'))"

definition effective_from :: "u64 \<Rightarrow> u64 \<Rightarrow> u64" where
  "effective_from from_block latest_block =
     (if from_block = 0 then sat_sub latest_block (sat_sub max_log_range_blocks 1) else from_block)"

definition poll_iteration ::
  "'w rpc \<Rightarrow> u64 \<Rightarrow> u64 \<Rightarrow> u64 option \<Rightarrow> rpc_failures \<Rightarrow> 'w \<Rightarrow> producer_poll_result poll_step \<times> 'w" where
  "poll_iteration P service_id from_block from_log_index f w =
     (case rp_block_number P w of
        (Inl e, w1) \<Rightarrow>
          (let f' = f\<lparr>rf_block_number := rf_block_number f + 1\<rparr>
           in (Retry f', rp_sleep P (rpc_retry_delay (rf_block_number f')) w1))
      | (Inr latest_block, w1) \<Rightarrow>
          (let f1 = f\<lparr>rf_block_number := 0\<rparr>;
               effective_from_block = effective_from from_block latest_block
           in if latest_block < effective_from_block then (Retry f1, rp_sleep P (millis 250) w1)
              else (let to_block = min latest_block (sat_add effective_from_block (sat_sub max_log_range_blocks 1)) in
                case rp_logs P effective_from_block to_block w1 of
                  (Inl e, w2) \<Rightarrow>
                    (let f' = f1\<lparr>rf_get_logs := rf_get_logs f1 + 1\<rparr>
                     in (Retry f', rp_sleep P (rpc_retry_delay (rf_get_logs f')) w2))
                | (Inr logs, w2) \<Rightarrow>
                    (let f2 = f1\<lparr>rf_get_logs := 0\<rparr>;
                         filtered = filter_logs effective_from_block from_log_index (sort_logs logs);
                         (last_block, last_log_index) =
                           next_cursor effective_from_block to_block from_log_index filtered
                     in case collect_jobs P service_id filtered [] [] f2 w2 of
                          (Finished jobs, w3) \<Rightarrow>
                            (Finished \<lparr>pr_jobs = jobs, pr_last_block = last_block,
                                       pr_last_log_index = last_log_index\<rparr>, w3)
                        | (Retry f', w3) \<Rightarrow> (Retry f', w3)
                        | (PanickedP, w3) \<Rightarrow> (PanickedP, w3)))))"

text \<open>The loop retries for as long as the node fails; \<open>None\<close> is a poll that never ends.\<close>

partial_function (option) poll_for_jobs_loop ::
  "'w rpc \<Rightarrow> u64 \<Rightarrow> u64 \<Rightarrow> u64 option \<Rightarrow> rpc_failures \<Rightarrow> 'w \<Rightarrow> (producer_poll_result option \<times> 'w) option" where
  "poll_for_jobs_loop P service_id from_block from_log_index f w =
     (case poll_iteration P service_id from_block from_log_index f w of
        (Finished r, w') \<Rightarrow> Some (Some r, w')
      | (PanickedP, w') \<Rightarrow> Some (None, w')
      | (Retry f', w') \<Rightarrow> poll_for_jobs_loop P service_id from_block from_log_index f' w')"

definition poll_for_jobs ::
  "'w rpc \<Rightarrow> u64 \<Rightarrow> u64 \<Rightarrow> u64 option \<Rightarrow> 'w \<Rightarrow> (producer_poll_result option \<times> 'w) option" where
  "poll_for_jobs P service_id from_block from_log_index w =
     poll_for_jobs_loop P service_id from_block from_log_index
       \<lparr>rf_block_number = 0, rf_get_logs = 0, rf_block_fetch = 0\<rparr> w"

section \<open>The stream\<close>

record producer =
  pd_service_id :: u64
  pd_poll_interval :: duration
  pd_last_block :: u64
  pd_last_log_index :: "u64 option"
  pd_buffer :: "job_call list"

definition producer_from_block :: "u64 \<Rightarrow> u64 \<Rightarrow> producer" where
  "producer_from_block service_id start_block =
     \<lparr>pd_service_id = service_id, pd_poll_interval = 2 * 10 ^ 9, pd_last_block = start_block,
      pd_last_log_index = None, pd_buffer = []\<rparr>"

definition producer_new :: "u64 \<Rightarrow> producer" where
  "producer_new service_id = producer_from_block service_id 0"

definition producer_with_poll_interval :: "duration \<Rightarrow> producer \<Rightarrow> producer" where
  "producer_with_poll_interval interval p = p\<lparr>pd_poll_interval := interval\<rparr>"

text \<open>The next item of the stream, the polls it takes run to their end.\<close>

definition producer_poll :: "'w rpc \<Rightarrow> producer \<Rightarrow> 'w \<Rightarrow> (producer option \<times> 'w) option" where
  "producer_poll P p w =
     map_option (\<lambda>(r, w'). (map_option (\<lambda>r. p\<lparr>pd_last_block := pr_last_block r,
           pd_last_log_index := pr_last_log_index r, pd_buffer := pd_buffer p @ pr_jobs r\<rparr>) r, w'))
       (poll_for_jobs P (pd_service_id p) (pd_last_block p) (pd_last_log_index p)
          (rp_sleep P (pd_poll_interval p) w))"

partial_function (option) poll_next ::
  "'w rpc \<Rightarrow> producer \<Rightarrow> 'w \<Rightarrow> ((job_call \<times> producer) option \<times> 'w) option" where
  "poll_next P p w =
     (case pd_buffer p of
        job # rest \<Rightarrow> Some (Some (job, p\<lparr>pd_buffer := rest\<rparr>), w)
      | [] \<Rightarrow>
          (case producer_poll P p w of
             None \<Rightarrow> None
           | Some (None, w') \<Rightarrow> Some (None, w')
           | Some (Some p', w') \<Rightarrow> poll_next P p' w'))"

end
