(* ===== verification/Producer_Correct.thy ===== *)
theory Producer_Correct
  imports Job_Producer "HOL-Library.Multiset"
begin

text \<open>
  Correctness of the producer: over a chain that grows, with a node that may fail at any call and may
  answer logs in any order, the stream yields the job calls of the service's events once each and in
  the order of the chain. The cursor of block and log index is what the proof is about.
\<close>

section \<open>The chain\<close>

definition log_key :: "chain_log \<Rightarrow> u64 \<times> u64" where
  "log_key l = (log_block_number l, log_index l)"

text \<open>\<open>final w\<close> is a block up to which the history does not change any more.\<close>

definition later :: "('w \<Rightarrow> chain_log list) \<Rightarrow> ('w \<Rightarrow> u64) \<Rightarrow> 'w \<Rightarrow> 'w \<Rightarrow> bool" where
  "later hist final w w' \<longleftrightarrow> final w \<le> final w'
     \<and> filter (\<lambda>l. log_block_number l \<le> final w) (hist w') = filter (\<lambda>l. log_block_number l \<le> final w) (hist w)"

text \<open>The logs are in the order of block and index, which they carry. A node names blocks that
  are final, and answers with the logs of a range in some order.\<close>

definition history_ok :: "(u64 \<Rightarrow> u64) \<Rightarrow> chain_log list \<Rightarrow> bool" where
  "history_ok stamp h \<longleftrightarrow> sorted_wrt (\<lambda>l l'. log_key l < log_key l') h
     \<and> (\<forall>l\<in>set h. lg_block_number l \<noteq> None \<and> lg_log_index l \<noteq> None
          \<and> (\<forall>ts. lg_block_timestamp l = Some ts \<longrightarrow> ts = stamp (log_block_number l)))"

definition node_ok ::
  "'w rpc \<Rightarrow> ('w \<Rightarrow> chain_log list) \<Rightarrow> ('w \<Rightarrow> u64) \<Rightarrow> (u64 \<Rightarrow> u64) \<Rightarrow> bool" where
  "node_ok P hist final stamp \<longleftrightarrow>
     (\<forall>w. history_ok stamp (hist w))
     \<and> (\<forall>w r w'. rp_block_number P w = (r, w') \<longrightarrow> later hist final w w' \<and> (\<forall>b. r = Inr b \<longrightarrow> b \<le> final w'))
     \<and> (\<forall>a b w r w'. rp_logs P a b w = (r, w') \<longrightarrow> later hist final w w' \<and>
          (\<forall>logs. r = Inr logs \<longrightarrow>
             mset logs = mset (filter (\<lambda>l. a \<le> log_block_number l \<and> log_block_number l \<le> b) (hist w'))))
     \<and> (\<forall>b w r w'. rp_block P b w = (r, w') \<longrightarrow> later hist final w w' \<and> (\<forall>ts. r = Inr (Some ts) \<longrightarrow> ts = stamp b))
     \<and> (\<forall>d w. later hist final w (rp_sleep P d w))"

lemma later_refl: "later hist final w w"
  by (simp add: later_def)

lemma later_trans:
  assumes "later hist final u v" and "later hist final v w"
  shows "later hist final u w"
proof -
  have le: "final u \<le> final v" using assms(1) by (simp add: later_def)
  have f: "filter (\<lambda>l. log_block_number l \<le> final u) h =
      filter (\<lambda>l. log_block_number l \<le> final u) (filter (\<lambda>l. log_block_number l \<le> final v) h)" for h
    unfolding filter_filter by (rule filter_cong [OF refl]) (meson le order.trans)
  have "filter (\<lambda>l. log_block_number l \<le> final v) (hist w) = filter (\<lambda>l. log_block_number l \<le> final v) (hist v)"
    using assms(2) by (simp add: later_def)
  then have "filter (\<lambda>l. log_block_number l \<le> final u) (hist w) = filter (\<lambda>l. log_block_number l \<le> final u) (hist v)"
    unfolding f [of "hist w"] f [of "hist v"] by (rule arg_cong)
  moreover have "final u \<le> final w" using assms by (auto simp: later_def intro: order.trans)
  ultimately show ?thesis using assms by (simp add: later_def)
qed

lemma later_upto:
  assumes "later hist final w w'" and "b \<le> final w" and "\<And>l. Q l \<Longrightarrow> log_block_number l \<le> b"
  shows "filter Q (hist w') = filter Q (hist w)"
proof -
  have f: "filter Q h = filter Q (filter (\<lambda>l. log_block_number l \<le> final w) h)" for h
    unfolding filter_filter by (rule filter_cong [OF refl]) (meson assms(2,3) order.trans)
  have "filter (\<lambda>l. log_block_number l \<le> final w) (hist w') = filter (\<lambda>l. log_block_number l \<le> final w) (hist w)"
    using assms(1) by (simp add: later_def)
  then show ?thesis by (subst (1 2) f) (rule arg_cong)
qed

text \<open>Sorting brings any answer of the node into the order of the chain.\<close>

lemma history_sorted:
  assumes "history_ok stamp h"
  shows "sorted (map log_key h)" "inj_on log_key (set h)"
    "sorted_wrt (\<lambda>l l'. log_block_number l \<le> log_block_number l') h"
proof -
  have s: "sorted_wrt (\<lambda>l l'. log_key l < log_key l') h" using assms by (simp add: history_ok_def)
  then show "sorted (map log_key h)"
    by (simp add: sorted_wrt_map) (erule sorted_wrt_mono_rel [rotated], simp)
  have "sorted_wrt (<) (map log_key h)" using s by (simp add: sorted_wrt_map)
  then show "inj_on log_key (set h)" by (metis distinct_map strict_sorted_iff)
  show "sorted_wrt (\<lambda>l l'. log_block_number l \<le> log_block_number l') h"
    by (rule sorted_wrt_mono_rel [OF _ s]) (auto simp: log_key_def less_prod_def)
qed

lemma sort_logs_history:
  assumes h: "history_ok stamp h" and "mset logs = mset (filter Q h)"
  shows "sort_logs logs = filter Q h"
proof -
  have "sort_key log_key logs = filter Q h"
  proof (rule sort_key_inj_key_eq [OF assms(2)])
    have "set logs = set (filter Q h)" using assms(2) by (metis set_mset_mset)
    then have "set logs \<subseteq> set h" by simp
    then show "inj_on log_key (set logs)" using history_sorted(2) [OF h] by (rule inj_on_subset [rotated])
    show "sorted (map log_key (filter Q h))" by (rule sorted_filter) (rule history_sorted(1) [OF h])
  qed
  moreover have "log_key = (\<lambda>log. (log_block_number log, log_index log))" by (simp add: log_key_def fun_eq_iff)
  ultimately show ?thesis by (simp only: sort_logs_def)
qed

section \<open>The cursor\<close>

definition unread :: "u64 \<Rightarrow> u64 option \<Rightarrow> chain_log \<Rightarrow> bool" where
  "unread b i l \<longleftrightarrow>
     (case i of
        None \<Rightarrow> b \<le> log_block_number l
      | Some n \<Rightarrow> b < log_block_number l \<or> log_block_number l = b \<and> n < log_index l)"

lemma unread_None: "unread b None = (\<lambda>l. b \<le> log_block_number l)"
  by (simp add: unread_def fun_eq_iff)

lemma unread_block: "unread b i l \<Longrightarrow> b \<le> log_block_number l"
  by (auto simp: unread_def split: option.splits)

lemma filter_logs_unread:
  "filter_logs b i (filter (\<lambda>l. b \<le> log_block_number l \<and> log_block_number l \<le> t) h)
    = filter (\<lambda>l. unread b i l \<and> log_block_number l \<le> t) h"
  by (cases i) (auto simp: filter_logs_def unread_def intro!: filter_cong)

lemma filter_split_block:
  assumes "sorted_wrt (\<lambda>l l'. log_block_number l \<le> log_block_number l') h"
  shows "filter Q h = filter (\<lambda>l. Q l \<and> log_block_number l \<le> t) h @ filter (\<lambda>l. Q l \<and> \<not> log_block_number l \<le> t) h"
  using assms
proof (induction h)
  case (Cons l h)
  show ?case
  proof (cases "log_block_number l \<le> t")
    case True
    then show ?thesis using Cons by simp
  next
    case False
    then have "filter (\<lambda>l. Q l \<and> log_block_number l \<le> t) h = []"
      using Cons.prems by (auto simp: filter_empty_conv)
    then show ?thesis using Cons False by simp
  qed
qed simp

text \<open>What is unread before a step is what the step reads, followed by what is unread after it.\<close>

lemma cursor_advances:
  assumes h: "history_ok stamp h" and t: "b \<le> t"
    and read: "read = filter (\<lambda>l. unread b i l \<and> log_block_number l \<le> t) h"
    and c: "next_cursor b t i read = (b', i')"
  shows "filter (unread b i) h = read @ filter (unread b' i') h" and "b \<le> b'"
proof -
  note split = filter_split_block [OF history_sorted(3) [OF h], of "unread b i" t]
  have above: "unread b i l" if "\<not> log_block_number l \<le> t" for l
    using that t by (cases i) (auto simp: unread_def)
  consider (none) "read = []" "t = b" | (skip) "read = []" "t \<noteq> b" | (some) "read \<noteq> []" by blast
  then have "filter (unread b i) h = read @ filter (unread b' i') h \<and> b \<le> b'"
  proof cases
    case none
    then show ?thesis using c by (simp add: next_cursor_def)
  next
    case skip
    then have c': "b' = t" "i' = None" using c by (simp_all add: next_cursor_def)
    have "unread b i l \<longleftrightarrow> unread b' i' l" if "l \<in> set h" for l
    proof -
      have no: "\<not> (unread b i l \<and> log_block_number l \<le> t)"
        using that skip read by (auto simp: filter_empty_conv)
      have at: "unread b i l" if "log_block_number l = t"
        using that t skip(2) by (cases i) (auto simp: unread_def)
      have "unread b' i' l \<longleftrightarrow> t \<le> log_block_number l" by (simp add: unread_def c')
      then show ?thesis
        using no above [of l] at by (cases "log_block_number l" t rule: linorder_cases) auto
    qed
    then show ?thesis using skip c' t by (auto intro!: filter_cong)
  next
    case some
    let ?l = "last read"
    have l: "?l \<in> set h" "unread b i ?l" "log_block_number ?l \<le> t"
      using last_in_set [OF some] read by auto
    have c': "b' = log_block_number ?l" "i' = Some (log_index ?l)"
      using c some h l(1) by (auto simp: next_cursor_def log_block_number_def log_index_def history_ok_def)
    have after: "unread b' i' l \<longleftrightarrow> log_key ?l < log_key l" for l
      by (auto simp: unread_def c' log_key_def less_prod_def)
    have "unread b' i' l \<longleftrightarrow> unread b i l \<and> \<not> log_block_number l \<le> t" if "l \<in> set h" for l
    proof (cases "log_block_number l \<le> t")
      case False
      then show ?thesis using above l(3) by (auto simp: unread_def c')
    next
      case True
      have "sorted (map log_key read)" using history_sorted(1) [OF h] by (simp add: read sorted_filter)
      then have "log_key l \<le> log_key ?l" if "l \<in> set read"
        using that some by (metis (no_types, lifting) imageI last_map list.set_map sorted_le_last)
      moreover have "log_key l \<le> log_key ?l" if "\<not> unread b i l"
        using that l(2) by (cases i) (auto simp: unread_def log_key_def less_eq_prod_def)
      ultimately have "log_key l \<le> log_key ?l" using that True read by auto
      then show ?thesis using True by (auto simp: after)
    qed
    then have "filter (unread b' i') h = filter (\<lambda>l. unread b i l \<and> \<not> log_block_number l \<le> t) h"
      by (auto intro!: filter_cong)
    then show ?thesis using split read c' unread_block [OF l(2)] by simp
  qed
  then show "filter (unread b i) h = read @ filter (unread b' i') h" "b \<le> b'" by simp_all
qed

section \<open>A poll\<close>

definition job_of :: "(u64 \<Rightarrow> u64) \<Rightarrow> u64 \<Rightarrow> chain_log \<Rightarrow> job_call option" where
  "job_of stamp service_id l =
     (case decode_log l of
        Some (Some e) \<Rightarrow>
          if je_service_id e = service_id
          then Some (job_submitted_to_call e (je_block_number e) (je_block_hash e) (stamp (je_block_number e)))
          else None
      | _ \<Rightarrow> None)"

lemma decode_log_block:
  assumes "decode_log l = Some (Some e)"
  shows "lg_block_number l = Some (je_block_number e) \<and> lg_block_hash l = Some (je_block_hash e)"
proof -
  have made: "make_event s c j a x l = Inr e \<Longrightarrow>
      lg_block_number l = Some (je_block_number e) \<and> lg_block_hash l = Some (je_block_hash e)" for s c j a x
    by (auto simp: make_event_def log_block_def split: option.splits sum.splits)
  from assms have "decode_job_submitted l = Some (Inr e) \<or> decode_job_submitted_from_quote l = Some (Inr e)"
    by (auto simp: decode_log_def split: option.splits sum.splits)
  then show ?thesis
  proof
    assume "decode_job_submitted l = Some (Inr e)"
    then show ?thesis
      by (auto simp: decode_job_submitted_def Let_def dest: made split: option.splits sum.splits if_splits prod.splits)
  next
    assume "decode_job_submitted_from_quote l = Some (Inr e)"
    then show ?thesis
      by (auto simp: decode_job_submitted_from_quote_def Let_def res_bind_def [symmetric] res_bind_Inr_iff
          dest: made split: option.splits if_splits prod.splits)
  qed
qed

lemma node_later:
  assumes "node_ok P hist final stamp"
  shows "rp_block_number P w = (r, w') \<Longrightarrow> later hist final w w'"
    and "rp_logs P a b w = (q, w') \<Longrightarrow> later hist final w w'"
    and "rp_block P b w = (s, w') \<Longrightarrow> later hist final w w'"
    and "later hist final w (rp_sleep P d w)"
  using assms unfolding node_ok_def by blast+

lemma node_history: "node_ok P hist final stamp \<Longrightarrow> history_ok stamp (hist w)"
  by (simp add: node_ok_def)

lemma node_final: "node_ok P hist final stamp \<Longrightarrow> rp_block_number P w = (Inr b, w') \<Longrightarrow> b \<le> final w'"
  by (simp add: node_ok_def)

lemma node_logs:
  "node_ok P hist final stamp \<Longrightarrow> rp_logs P a b w = (Inr logs, w') \<Longrightarrow>
     mset logs = mset (filter (\<lambda>l. a \<le> log_block_number l \<and> log_block_number l \<le> b) (hist w'))"
  by (simp add: node_ok_def)

lemma block_time_ok:
  assumes node: "node_ok P hist final stamp"
    and l: "\<And>ts. lg_block_timestamp l = Some ts \<Longrightarrow> ts = stamp b"
    and m: "\<And>b ts. hm_get stamps b = Some ts \<Longrightarrow> ts = stamp b"
    and run: "block_time P l b stamps f w = (x, w')"
  shows "later hist final w w'"
    and "x = Inr (ts, stamps', f') \<Longrightarrow> ts = stamp b \<and> (\<forall>b ts. hm_get stamps' b = Some ts \<longrightarrow> ts = stamp b)"
proof -
  obtain r w1 where r: "rp_block P b w = (r, w1)" by (rule prod.exhaust)
  have ts: "r = Inr (Some t) \<Longrightarrow> t = stamp b" for t using node r unfolding node_ok_def by blast
  have w1: "later hist final w w1" by (rule node_later(3) [OF node r])
  note slept = later_trans [OF w1 node_later(4) [OF node]]
  show "later hist final w w'"
    using run r w1 slept later_refl [of hist final w]
    by (auto simp: block_time_def Let_def split: option.splits sum.splits)
  show "ts = stamp b \<and> (\<forall>b ts. hm_get stamps' b = Some ts \<longrightarrow> ts = stamp b)" if "x = Inr (ts, stamps', f')"
    using run r l m ts that by (auto simp: block_time_def Let_def split: option.splits sum.splits if_splits)
qed

lemma collect_jobs_ok:
  assumes node: "node_ok P hist final stamp"
    and "\<And>l ts. l \<in> set logs \<Longrightarrow> lg_block_timestamp l = Some ts \<Longrightarrow> ts = stamp (log_block_number l)"
    and "\<And>b ts. hm_get stamps b = Some ts \<Longrightarrow> ts = stamp b"
    and "collect_jobs P sid logs jobs stamps f w = (x, w')"
  shows "later hist final w w' \<and> (\<forall>js. x = Finished js \<longrightarrow> js = jobs @ List.map_filter (job_of stamp sid) logs)"
  using assms(2-)
proof (induction logs arbitrary: jobs stamps f w)
  case (Cons l logs)
  note IH = Cons.IH [OF Cons.prems(1)]
  have skip: ?case if "collect_jobs P sid (l # logs) jobs stamps f w = collect_jobs P sid logs jobs stamps f w"
    "job_of stamp sid l = None"
    using IH [OF _ _ Cons.prems(2)] Cons.prems(3) that by (auto simp: map_filter_simps)
  consider (panic) "decode_log l = None" | (none) "decode_log l = Some None"
    | (other) e where "decode_log l = Some (Some e)" "je_service_id e \<noteq> sid"
    | (job) e where "decode_log l = Some (Some e)" "je_service_id e = sid"
    by (metis option.exhaust)
  then show ?case
  proof cases
    case panic
    then show ?thesis using Cons.prems(3) by (auto simp: later_refl)
  next
    case none
    then show ?thesis by (intro skip) (simp_all add: job_of_def)
  next
    case other
    then show ?thesis by (intro skip) (simp_all add: job_of_def)
  next
    case job
    let ?b = "je_block_number e"
    let ?j = "job_submitted_to_call e ?b (je_block_hash e) (stamp ?b)"
    have b: "log_block_number l = ?b"
      using decode_log_block [OF job(1)] by (simp add: log_block_number_def)
    obtain y w1 where y: "block_time P l ?b stamps f w = (y, w1)" by (rule prod.exhaust)
    have l: "\<And>ts. lg_block_timestamp l = Some ts \<Longrightarrow> ts = stamp ?b" using Cons.prems(1) [of l] b by simp
    note bt = block_time_ok [OF node l Cons.prems(2) y]
    have j: "job_of stamp sid l = Some ?j" using job by (simp add: job_of_def)
    show ?thesis
    proof (cases y)
      case (Inl f')
      then show ?thesis using Cons.prems(3) job y bt(1) by auto
    next
      case (Inr z)
      obtain ts stamps' f' where z: "z = (ts, stamps', f')" by (rule prod_cases3)
      have ts: "ts = stamp ?b" "\<And>b ts. hm_get stamps' b = Some ts \<Longrightarrow> ts = stamp b"
        using bt(2) Inr z by blast+
      have "collect_jobs P sid logs (jobs @ [?j]) stamps' f' w1 = (x, w')"
        using Cons.prems(3) job y Inr z ts(1) by simp
      from IH [OF _ _ ts(2) this] show ?thesis
        using later_trans [OF bt(1)] j by (auto simp: map_filter_simps)
    qed
  qed
qed (auto simp: later_refl map_filter_simps)

text \<open>What a poll returns: the jobs of the logs that it read, and a cursor behind them.\<close>

definition poll_reads ::
  "('w \<Rightarrow> chain_log list) \<Rightarrow> ('w \<Rightarrow> u64) \<Rightarrow> (u64 \<Rightarrow> u64) \<Rightarrow> u64 \<Rightarrow> u64 \<Rightarrow> u64 option \<Rightarrow>
   producer_poll_result \<Rightarrow> 'w \<Rightarrow> bool" where
  "poll_reads hist final stamp sid b i r w \<longleftrightarrow>
     (\<exists>read. pr_jobs r = List.map_filter (job_of stamp sid) read \<and> b \<le> pr_last_block r
        \<and> (\<forall>w'. later hist final w w' \<longrightarrow> filter (unread b i) (hist w') =
             read @ filter (unread (pr_last_block r) (pr_last_log_index r)) (hist w')))"

lemma poll_iteration_ok:
  assumes node: "node_ok P hist final stamp" and b: "b \<noteq> 0"
    and run: "poll_iteration P sid b i f w = (x, w')"
  shows "later hist final w w' \<and> (\<forall>r. x = Finished r \<longrightarrow> poll_reads hist final stamp sid b i r w')"
proof -
  obtain n w1 where n: "rp_block_number P w = (n, w1)" by (rule prod.exhaust)
  note w1 = node_later(1) [OF node n]
  note slept = later_trans [OF _ node_later(4) [OF node]]
  show ?thesis
  proof (cases n)
    case (Inl e)
    then show ?thesis using run n slept [OF w1] by (auto simp: poll_iteration_def Let_def)
  next
    case (Inr latest)
    have final: "latest \<le> final w1" using node_final [OF node] n Inr by simp
    let ?t = "min latest (sat_add b (sat_sub max_log_range_blocks 1))"
    obtain q w2 where q: "rp_logs P b ?t w1 = (q, w2)" by (rule prod.exhaust)
    note w2 = node_later(2) [OF node q]
    note w02 = later_trans [OF w1 w2]
    consider (wait) "latest < b" | (fail) e where "\<not> latest < b" "q = Inl e"
      | (logs) logs where "\<not> latest < b" "q = Inr logs" by (metis old.sum.exhaust)
    then show ?thesis
    proof cases
      case wait
      then show ?thesis
        using run n Inr b slept [OF w1] by (auto simp: poll_iteration_def Let_def effective_from_def)
    next
      case fail
      then show ?thesis
        using run n Inr b q slept [OF w02] by (auto simp: poll_iteration_def Let_def effective_from_def)
    next
      case logs
      let ?Q = "\<lambda>l. unread b i l \<and> log_block_number l \<le> ?t"
      let ?read = "filter ?Q (hist w2)"
      have hist2: "history_ok stamp (hist w2)" by (rule node_history [OF node])
      have "mset logs = mset (filter (\<lambda>l. b \<le> log_block_number l \<and> log_block_number l \<le> ?t) (hist w2))"
        using node_logs [OF node] q logs(2) by simp
      from sort_logs_history [OF hist2 this]
      have read: "filter_logs b i (sort_logs logs) = ?read" by (simp only: filter_logs_unread)
      obtain b' i' where c: "next_cursor b ?t i ?read = (b', i')" by (rule prod.exhaust)
      obtain y w3 where y: "collect_jobs P sid ?read [] [] (f\<lparr>rf_block_number := 0, rf_get_logs := 0\<rparr>) w2 = (y, w3)"
        by (rule prod.exhaust)
      have times: "ts = stamp (log_block_number l)" if "l \<in> set ?read" "lg_block_timestamp l = Some ts" for l ts
        using hist2 that by (auto simp: history_ok_def)
      have jobs: "later hist final w2 w3"
        "y = Finished js \<Longrightarrow> js = List.map_filter (job_of stamp sid) ?read" for js
        using collect_jobs_ok [OF node times _ y] by auto
      have out: "(x, w') = (case y of Finished js \<Rightarrow>
            (Finished \<lparr>pr_jobs = js, pr_last_block = b', pr_last_log_index = i'\<rparr>, w3)
          | Retry f' \<Rightarrow> (Retry f', w3) | PanickedP \<Rightarrow> (PanickedP, w3))"
        using run n Inr b q logs read c y
        by (simp add: poll_iteration_def Let_def effective_from_def split: poll_step.splits)
      have "b \<le> sat_add b (sat_sub max_log_range_blocks 1)"
        using unat_less_64 [of b] by (simp add: word_le_nat_alt unat_sat_add)
      have upto: "?t \<le> final w1" using final by (rule min.coboundedI1)
      with \<open>b \<le> sat_add _ _\<close> have t: "b \<le> ?t" using logs(1) by (simp add: min_def not_less)
      have "poll_reads hist final stamp sid b i \<lparr>pr_jobs = js, pr_last_block = b', pr_last_log_index = i'\<rparr> w3"
        if "y = Finished js" for js
      proof -
        have "filter (unread b i) (hist v) = ?read @ filter (unread b' i') (hist v) \<and> b \<le> b'"
          if v: "later hist final w3 v" for v
        proof -
          have "filter ?Q (hist v) = filter ?Q (hist w1)" "filter ?Q (hist w2) = filter ?Q (hist w1)"
            by (rule later_upto [OF later_trans [OF later_trans [OF w2 jobs(1)] v] upto], blast)
              (rule later_upto [OF w2 upto], blast)
          then have r: "?read = filter ?Q (hist v)" by simp
          have "history_ok stamp (hist v)" by (rule node_history [OF node])
          from cursor_advances [OF this t r c] show ?thesis by simp
        qed
        moreover from this [OF later_refl] have "b \<le> b'" by simp
        ultimately show ?thesis
          unfolding poll_reads_def using jobs(2) [OF that] by (intro exI [of _ ?read]) simp
      qed
      then show ?thesis
        using out later_trans [OF w02 jobs(1)] by (auto split: poll_step.splits)
    qed
  qed
qed

lemma poll_loop_ok:
  assumes node: "node_ok P hist final stamp" and b: "b \<noteq> 0"
    and run: "poll_for_jobs_loop P sid b i f w = Some (r, w')"
  shows "later hist final w w' \<and> (\<forall>x. r = Some x \<longrightarrow> poll_reads hist final stamp sid b i x w')"
proof -
  let ?Q = "\<lambda>(((((P', sid'), b'), i'), f), w) y. P' = P \<longrightarrow> b' = b \<longrightarrow> later hist final w (snd y)
      \<and> (\<forall>x. fst y = Some x \<longrightarrow> poll_reads hist final stamp sid' b' i' x (snd y))"
  have "?Q (((((P, sid), b), i), f), w) (r, w')"
  proof (rule poll_for_jobs_loop.raw_induct [where Pa = ?Q, OF _ run])
    fix loop P' sid' b' i' f w y
    assume IH: "\<And>P' sid' b' i' f w y. loop P' sid' b' i' f w = Some y \<Longrightarrow> ?Q (((((P', sid'), b'), i'), f), w) y"
      and body: "(case poll_iteration P' sid' b' i' f w of
          (Retry f', w') \<Rightarrow> loop P' sid' b' i' f' w'
        | (Finished r, w') \<Rightarrow> Some (Some r, w') | (PanickedP, w') \<Rightarrow> Some (None, w')) = Some y"
    obtain x w1 where x: "poll_iteration P' sid' b' i' f w = (x, w1)" by (rule prod.exhaust)
    have "later hist final w (snd y) \<and> (\<forall>x. fst y = Some x \<longrightarrow> poll_reads hist final stamp sid' b' i' x (snd y))"
      if eq: "P' = P" "b' = b"
    proof -
      note it = poll_iteration_ok [OF node b x [unfolded eq]]
      show ?thesis
      proof (cases x)
        case (Retry f')
        then have "loop P' sid' b' i' f' w1 = Some y" using body x by simp
        from IH [OF this, unfolded prod.case, rule_format, OF eq]
        have rest: "later hist final w1 (snd y)"
            "\<forall>x. fst y = Some x \<longrightarrow> poll_reads hist final stamp sid' b' i' x (snd y)"
          by (rule conjunct1, rule conjunct2)
        have "later hist final w w1" using it by (rule conjunct1)
        from later_trans [OF this rest(1)] rest(2) show ?thesis by (rule conjI)
      next
        case (Finished r)
        then have "y = (Some r, w1)" using body x by simp
        then show ?thesis using it Finished eq by simp
      next
        case PanickedP
        then have "y = (None, w1)" using body x by simp
        then show ?thesis using it by simp
      qed
    qed
    then show "?Q (((((P', sid'), b'), i'), f), w) y" by simp
  qed
  then show ?thesis by simp
qed

section \<open>The stream of jobs\<close>

fun take_jobs :: "'w rpc \<Rightarrow> nat \<Rightarrow> producer \<Rightarrow> 'w \<Rightarrow> (job_call list \<times> producer \<times> 'w) option" where
  "take_jobs P 0 p w = Some ([], p, w)"
| "take_jobs P (Suc n) p w =
     (case poll_next P p w of
        Some (Some (job, p'), w') \<Rightarrow> map_option (\<lambda>(jobs, rest). (job # jobs, rest)) (take_jobs P n p' w')
      | _ \<Rightarrow> None)"

text \<open>The jobs handed out and those in the buffer are the jobs of the logs before the cursor.\<close>

definition tracks ::
  "('w \<Rightarrow> chain_log list) \<Rightarrow> ('w \<Rightarrow> u64) \<Rightarrow> (u64 \<Rightarrow> u64) \<Rightarrow> u64 \<Rightarrow> job_call list \<Rightarrow> producer \<Rightarrow> 'w \<Rightarrow> bool" where
  "tracks hist final stamp start out p w \<longleftrightarrow> pd_last_block p \<noteq> 0 \<and>
     (\<exists>read. out @ pd_buffer p = List.map_filter (job_of stamp (pd_service_id p)) read
        \<and> (\<forall>w'. later hist final w w' \<longrightarrow> filter (\<lambda>l. start \<le> log_block_number l) (hist w') =
             read @ filter (unread (pd_last_block p) (pd_last_log_index p)) (hist w')))"

lemma tracks_poll:
  assumes node: "node_ok P hist final stamp" and tr: "tracks hist final stamp start out p w"
    and run: "producer_poll P p w = Some (Some p', w')"
  shows "tracks hist final stamp start out p' w'"
proof -
  let ?w = "rp_sleep P (pd_poll_interval p) w"
  obtain r where r: "poll_for_jobs P (pd_service_id p) (pd_last_block p) (pd_last_log_index p) ?w = Some (Some r, w')"
    and p': "p' = p\<lparr>pd_last_block := pr_last_block r, pd_last_log_index := pr_last_log_index r,
        pd_buffer := pd_buffer p @ pr_jobs r\<rparr>"
    using run by (auto simp: producer_poll_def)
  obtain read where p0: "pd_last_block p \<noteq> 0" and
    read: "out @ pd_buffer p = List.map_filter (job_of stamp (pd_service_id p)) read"
    "\<And>v. later hist final w v \<Longrightarrow> filter (\<lambda>l. start \<le> log_block_number l) (hist v) =
       read @ filter (unread (pd_last_block p) (pd_last_log_index p)) (hist v)"
    using tr by (auto simp: tracks_def)
  have "later hist final ?w w'"
    and "poll_reads hist final stamp (pd_service_id p) (pd_last_block p) (pd_last_log_index p) r w'"
    using poll_loop_ok [OF node p0 r [unfolded poll_for_jobs_def]] by simp_all
  then obtain more where more: "later hist final w w'"
    "pr_jobs r = List.map_filter (job_of stamp (pd_service_id p)) more" "pd_last_block p \<le> pr_last_block r"
    "\<And>v. later hist final w' v \<Longrightarrow> filter (unread (pd_last_block p) (pd_last_log_index p)) (hist v) =
       more @ filter (unread (pr_last_block r) (pr_last_log_index r)) (hist v)"
    using later_trans [OF node_later(4) [OF node]] by (auto simp: poll_reads_def)
  have "out @ pd_buffer p' = List.map_filter (job_of stamp (pd_service_id p)) (read @ more)"
    using read(1) more(2) by (simp add: p' List.map_filter_def)
  moreover have "filter (\<lambda>l. start \<le> log_block_number l) (hist v) =
      (read @ more) @ filter (unread (pr_last_block r) (pr_last_log_index r)) (hist v)"
    if "later hist final w' v" for v
    using read(2) [OF later_trans [OF more(1) that]] more(4) [OF that] by simp
  moreover have "pr_last_block r \<noteq> 0" using p0 more(3) by auto
  ultimately show ?thesis unfolding tracks_def p' by (intro conjI exI [of _ "read @ more"]) simp_all
qed

lemma tracks_pop:
  assumes "tracks hist final stamp start out p w" and "pd_buffer p = j # rest"
  shows "tracks hist final stamp start (out @ [j]) (p\<lparr>pd_buffer := rest\<rparr>) w"
  using assms unfolding tracks_def by simp

lemma tracks_next:
  assumes node: "node_ok P hist final stamp" and "tracks hist final stamp start out p w"
    and "poll_next P p w = Some (Some (job, p'), w')"
  shows "pd_service_id p' = pd_service_id p \<and> tracks hist final stamp start (out @ [job]) p' w'"
proof -
  let ?Q = "\<lambda>((P', p), w) y. P' = P \<longrightarrow> tracks hist final stamp start out p w \<longrightarrow>
      (\<forall>job p' w'. y = (Some (job, p'), w') \<longrightarrow>
         pd_service_id p' = pd_service_id p \<and> tracks hist final stamp start (out @ [job]) p' w')"
  have "?Q ((P, p), w) (Some (job, p'), w')"
  proof (rule poll_next.raw_induct [where Pa = ?Q, OF _ assms(3)])
    fix again P' p w y
    assume IH: "\<And>P' p w y. again P' p w = Some y \<Longrightarrow> ?Q ((P', p), w) y"
      and body: "(case pd_buffer p of
          [] \<Rightarrow> case producer_poll P' p w of None \<Rightarrow> None
             | Some (None, w') \<Rightarrow> Some (None, w') | Some (Some p', w') \<Rightarrow> again P' p' w'
        | job # rest \<Rightarrow> Some (Some (job, p\<lparr>pd_buffer := rest\<rparr>), w)) = Some y"
    have "pd_service_id p' = pd_service_id p \<and> tracks hist final stamp start (out @ [job]) p' w'"
      if a: "P' = P" "tracks hist final stamp start out p w" "y = (Some (job, p'), w')" for job p' w'
    proof (cases "pd_buffer p")
      case Nil
      then obtain p1 w1 where p1: "producer_poll P p w = Some (Some p1, w1)" "again P p1 w1 = Some y"
        using body a(1,3) by (auto split: option.splits prod.splits)
      have "pd_service_id p1 = pd_service_id p" using p1(1) by (auto simp: producer_poll_def)
      moreover from IH [OF p1(2), unfolded prod.case, rule_format, OF refl tracks_poll [OF node a(2) p1(1)] a(3)]
      have "pd_service_id p' = pd_service_id p1 \<and> tracks hist final stamp start (out @ [job]) p' w'" .
      ultimately show ?thesis by (simp only: simp_thms)
    next
      case (Cons j rest)
      then have "job = j" "p' = p\<lparr>pd_buffer := rest\<rparr>" "w' = w" using body a(3) by auto
      then show ?thesis using tracks_pop [OF a(2) Cons] by (simp only:) simp
    qed
    then show "?Q ((P', p), w) y" unfolding prod.case by (intro impI allI)
  qed
  from this [unfolded prod.case, rule_format, OF refl assms(2) refl] show ?thesis .
qed

text \<open>
  C9: the producer yields the jobs of its service exactly once and in the order of the chain. Started
  at a block, after any number of jobs taken from the stream and whatever calls to the node failed in
  between, the jobs taken and those still buffered are those of the events from that block up to the
  cursor, each with its block's time; behind the cursor nothing has been read.
\<close>

theorem jobs_delivered_once_in_order:
  assumes node: "node_ok P hist final stamp" and start: "start \<noteq> 0"
    and run: "take_jobs P n (producer_from_block sid start) w = Some (jobs, p, w')"
  shows "\<exists>read. jobs @ pd_buffer p = List.map_filter (job_of stamp sid) read
    \<and> filter (\<lambda>l. start \<le> log_block_number l) (hist w') =
        read @ filter (unread (pd_last_block p) (pd_last_log_index p)) (hist w')"
proof -
  have tr: "tracks hist final stamp start (out @ js) q v \<and> pd_service_id q = pd_service_id p0"
    if "take_jobs P n p0 u = Some (js, q, v)" "tracks hist final stamp start out p0 u" for n p0 u out js q v
    using that
  proof (induction n arbitrary: p0 u out js)
    case (Suc n)
    then obtain job p1 u1 js' where s: "poll_next P p0 u = Some (Some (job, p1), u1)"
      "take_jobs P n p1 u1 = Some (js', q, v)" "js = job # js'"
      by (auto split: option.splits)
    have "pd_service_id p1 = pd_service_id p0" "tracks hist final stamp start (out @ [job]) p1 u1"
      using tracks_next [OF node Suc.prems(2) s(1)] by simp_all
    then show ?case using Suc.IH [OF s(2), of "out @ [job]"] s(3) by simp
  qed simp
  have "tracks hist final stamp start [] (producer_from_block sid start) w"
    using start unfolding tracks_def producer_from_block_def
    by (intro conjI exI [of _ "[]"]) (simp_all add: map_filter_simps unread_None)
  from tr [OF run this] have "tracks hist final stamp start jobs p w'" "pd_service_id p = sid"
    by (simp_all add: producer_from_block_def)
  then obtain read where "jobs @ pd_buffer p = List.map_filter (job_of stamp sid) read"
    "\<forall>v. later hist final w' v \<longrightarrow> filter (\<lambda>l. start \<le> log_block_number l) (hist v) =
       read @ filter (unread (pd_last_block p) (pd_last_log_index p)) (hist v)"
    unfolding tracks_def by (elim conjE exE) simp
  then show ?thesis using later_refl by (intro exI [of _ read]) (rule conjI, assumption, rule mp, erule spec)
qed

section \<open>Decoding\<close>

text \<open>The layout of the events' data: slots of 32 bytes, the dynamic fields behind the fixed ones.\<close>

definition abi_word :: "u64 \<Rightarrow> bytes" where
  "abi_word n = to_be_bytes (ucast n :: u256)"

definition submitted_data :: "u8 \<Rightarrow> bytes \<Rightarrow> bytes \<Rightarrow> bytes \<Rightarrow> bytes" where
  "submitted_data job_index caller inputs padding =
     abi_word (ucast job_index) @ replicate 12 0 @ caller @ abi_word 96
       @ abi_word (of_nat (length inputs)) @ inputs @ padding"

definition quote_data :: "u8 \<Rightarrow> bytes \<Rightarrow> u64 \<Rightarrow> bytes \<Rightarrow> bytes \<Rightarrow> bytes \<Rightarrow> bytes \<Rightarrow> bytes" where
  "quote_data job_index caller operators_offset price operators inputs padding =
     abi_word (ucast job_index) @ replicate 12 0 @ caller @ abi_word operators_offset @ price
       @ abi_word (of_nat (160 + length operators)) @ operators
       @ abi_word (of_nat (length inputs)) @ inputs @ padding"

lemma length_abi_word [simp]: "length (abi_word n) = 32"
  by (simp add: abi_word_def)

lemma abi_word_value [simp]: "u256_to_u64 (from_be_bytes (abi_word n)) = Some n"
proof -
  have "unat n < 2 ^ 256" by (rule order.strict_trans2 [OF unsigned_less]) simp
  then have "unat (ucast n :: u256) = unat n" by (simp add: unsigned_ucast_eq take_bit_nat_eq_self)
  moreover have "unat n < 2 ^ 64" by (rule order.strict_trans2 [OF unsigned_less]) simp
  moreover have "from_be_bytes (abi_word n) = (ucast n :: u256)" by (simp add: abi_word_def from_to_be_bytes)
  moreover have "ucast (ucast n :: u256) = n" by (rule bit_word_eqI) (simp add: bit_simps)
  ultimately show ?thesis by (simp add: u256_to_u64_def)
qed

lemma read_slot_at: "length xs = at \<Longrightarrow> read_slot at (xs @ abi_word n @ ys) = Some n"
  by (simp add: read_slot_def)

lemma read_topic [simp]: "read_u64_topic (abi_word n) = Some n"
  by (simp add: read_u64_topic_def)

lemma read_inputs_at:
  assumes off: "length xs = unat off"
    and fits: "length xs + 32 + length inputs + length padding < 2 ^ 64"
  shows "read_inputs name off (xs @ abi_word (of_nat (length inputs)) @ inputs @ padding) = Some (Inr inputs)"
proof -
  have start: "unat (off + 32) = length xs + 32" using off fits by (simp add: unat_word_ariths)
  have len: "unat (of_nat (length inputs) :: u64) = length inputs"
    using fits by (simp add: unsigned_of_nat take_bit_nat_eq_self)
  show ?thesis
    using fits by (simp add: read_inputs_def Let_def start len slice_def off [symmetric])
qed

lemma small_index: "unat (ucast (j :: u8) :: u64) < 256" "ucast (ucast j :: u64) = j"
proof -
  have small: "unat j < 256" by (rule order.strict_trans2 [OF unsigned_less]) simp
  have "unat j < 2 ^ 64" by (rule order.strict_trans2 [OF unsigned_less]) simp
  then have "unat (ucast j :: u64) = unat j" by (simp add: unsigned_ucast_eq take_bit_nat_eq_self)
  with small show "unat (ucast j :: u64) < 256" by simp
  show "ucast (ucast j :: u64) = j" by (rule bit_word_eqI) (simp add: bit_simps)
qed

lemma decode_submitted_data:
  assumes "length caller = 20" and "128 + length inputs + length padding < 2 ^ 64"
  shows "decode_job_submitted_data (submitted_data j caller inputs padding) = Some (Inr (j, caller, inputs))"
proof -
  let ?d = "submitted_data j caller inputs padding"
  have d: "?d = [] @ abi_word (ucast j) @ (replicate 12 0 @ caller @ abi_word 96
      @ abi_word (of_nat (length inputs)) @ inputs @ padding)"
    "?d = (abi_word (ucast j) @ replicate 12 0 @ caller) @ abi_word 96
      @ (abi_word (of_nat (length inputs)) @ inputs @ padding)"
    "?d = (abi_word (ucast j) @ replicate 12 0 @ caller @ abi_word 96)
      @ abi_word (of_nat (length inputs)) @ inputs @ padding"
    by (simp_all add: submitted_data_def)
  have "read_slot 0 ?d = Some (ucast j)" by (subst d(1)) (rule read_slot_at, simp)
  moreover have "read_slot 64 ?d = Some 96" by (subst d(2)) (rule read_slot_at, simp add: assms(1))
  moreover have "read_inputs name 96 ?d = Some (Inr inputs)" for name
    by (subst d(3)) (rule read_inputs_at, use assms in simp_all)
  moreover have "read_caller ?d = caller" using assms(1) by (simp add: read_caller_def submitted_data_def)
  moreover have "\<not> length ?d < 96" using assms(1) by (simp add: submitted_data_def)
  ultimately show ?thesis
    using small_index [of j] by (simp add: decode_job_submitted_data_def)
qed

text \<open>
  C27: a submitted job is decoded to what the contract emitted, in both forms of the event: service,
  call, job index, caller and inputs are those of the log, whatever padding follows the inputs and
  whatever the fields are that are passed over.
\<close>

theorem event_decoding_roundtrip:
  assumes block: "lg_block_number log = Some number" "lg_block_hash log = Some hash"
    and caller: "length caller = 20" and price: "length price = 32"
    and fits: "192 + length operators + length inputs + length padding < 2 ^ 64"
  shows "(lg_topics log = [job_submitted_sig, abi_word service_id, abi_word call_id] \<longrightarrow>
       lg_data log = submitted_data j caller inputs padding \<longrightarrow>
       decode_log log = Some (Some \<lparr>je_service_id = service_id, je_call_id = call_id, je_job_index = j,
         je_caller = caller, je_inputs = inputs, je_block_number = number, je_block_hash = hash\<rparr>))
    \<and> (lg_topics log = [job_submitted_from_quote_sig, abi_word service_id, abi_word call_id] \<longrightarrow>
       lg_data log = quote_data j caller offset price operators inputs padding \<longrightarrow>
       decode_log log = Some (Some \<lparr>je_service_id = service_id, je_call_id = call_id, je_job_index = j,
         je_caller = caller, je_inputs = inputs, je_block_number = number, je_block_hash = hash\<rparr>))"
proof (intro conjI impI)
  assume "lg_topics log = [job_submitted_sig, abi_word service_id, abi_word call_id]"
    "lg_data log = submitted_data j caller inputs padding"
  then show "decode_log log = Some (Some \<lparr>je_service_id = service_id, je_call_id = call_id, je_job_index = j,
      je_caller = caller, je_inputs = inputs, je_block_number = number, je_block_hash = hash\<rparr>)"
    using block decode_submitted_data [OF caller, of inputs padding j] fits
    by (simp add: decode_log_def decode_job_submitted_def make_event_def log_block_def)
next
  let ?d = "quote_data j caller offset price operators inputs padding"
  assume a: "lg_topics log = [job_submitted_from_quote_sig, abi_word service_id, abi_word call_id]"
    "lg_data log = ?d"
  define at :: u64 where "at = of_nat (160 + length operators)"
  have d: "?d = [] @ abi_word (ucast j) @ (replicate 12 0 @ caller @ abi_word offset @ price
      @ abi_word at @ operators @ abi_word (of_nat (length inputs)) @ inputs @ padding)"
    "?d = (abi_word (ucast j) @ replicate 12 0 @ caller @ abi_word offset @ price)
      @ abi_word at @ (operators @ abi_word (of_nat (length inputs)) @ inputs @ padding)"
    "?d = (abi_word (ucast j) @ replicate 12 0 @ caller @ abi_word offset @ price
      @ abi_word at @ operators)
      @ abi_word (of_nat (length inputs)) @ inputs @ padding"
    by (simp_all add: quote_data_def at_def)
  have off: "unat at = 160 + length operators"
    using fits by (simp add: at_def unsigned_of_nat take_bit_nat_eq_self del: of_nat_add of_nat_numeral)
  have "read_slot 0 ?d = Some (ucast j)" by (subst d(1)) (rule read_slot_at, simp)
  moreover have "read_slot 128 ?d = Some at"
    by (subst d(2)) (rule read_slot_at, simp add: caller price)
  moreover have "read_inputs name at ?d = Some (Inr inputs)" for name
    by (subst d(3)) (rule read_inputs_at, use caller price fits off in simp_all)
  moreover have "read_caller ?d = caller" using caller by (simp add: read_caller_def quote_data_def)
  moreover have "\<not> length ?d < 160" using caller price by (simp add: quote_data_def)
  moreover have "job_submitted_from_quote_sig \<noteq> job_submitted_sig"
    by (simp add: job_submitted_sig_def job_submitted_from_quote_sig_def)
  ultimately show "decode_log log = Some (Some \<lparr>je_service_id = service_id, je_call_id = call_id, je_job_index = j,
      je_caller = caller, je_inputs = inputs, je_block_number = number, je_block_hash = hash\<rparr>)"
    using a block small_index [of j]
    by (simp add: decode_log_def decode_job_submitted_def decode_job_submitted_from_quote_def make_event_def
        log_block_def Let_def)
qed


theorem event_decoding_roundtrip_witness:
  "decode_log \<lparr>lg_topics = [job_submitted_from_quote_sig, abi_word 7, abi_word 3],
       lg_data = quote_data 1 (replicate 20 9) 160 (replicate 32 5) (replicate 64 8) [42] [],
       lg_block_number = Some 5, lg_block_hash = Some [1], lg_block_timestamp = None, lg_log_index = Some 0\<rparr>
   = Some (Some \<lparr>je_service_id = 7, je_call_id = 3, je_job_index = 1, je_caller = replicate 20 9,
       je_inputs = [42], je_block_number = 5, je_block_hash = [1]\<rparr>)"
  by (rule event_decoding_roundtrip [THEN conjunct2, rule_format, of _ 5 "[1]" "replicate 20 9" "replicate 32 5"
        "replicate 64 8" "[42]" "[]"]) simp_all

section \<open>A node that fails once\<close>

definition demo_log :: chain_log where
  "demo_log = \<lparr>lg_topics = [job_submitted_sig, abi_word 7, abi_word 3],
     lg_data = submitted_data 1 (replicate 20 9) [42] [], lg_block_number = Some 5, lg_block_hash = Some [1],
     lg_block_timestamp = None, lg_log_index = Some 0\<rparr>"

definition demo_event :: job_submitted_event where
  "demo_event = \<lparr>je_service_id = 7, je_call_id = 3, je_job_index = 1, je_caller = replicate 20 9,
     je_inputs = [42], je_block_number = 5, je_block_hash = [1]\<rparr>"

definition demo_rpc :: "nat rpc" where
  "demo_rpc = \<lparr>rp_block_number = (\<lambda>w. (Inr 6, w)),
     rp_logs = (\<lambda>a b w. if w = 0 then (Inl ''unavailable'', 1)
       else (Inr (filter (\<lambda>l. a \<le> log_block_number l \<and> log_block_number l \<le> b) [demo_log]), w)),
     rp_block = (\<lambda>b w. (Inr (Some 99), w)), rp_sleep = (\<lambda>d w. w)\<rparr>"

lemma demo_log_decoded: "decode_log demo_log = Some (Some demo_event)"
  using decode_submitted_data [of "replicate 20 9" "[42]" "[]" 1]
  by (simp add: demo_log_def demo_event_def decode_log_def decode_job_submitted_def make_event_def log_block_def)

lemma demo_node_ok: "node_ok demo_rpc (\<lambda>w. [demo_log]) (\<lambda>w. 6) (\<lambda>b. 99)"
  by (simp add: node_ok_def demo_rpc_def later_def history_ok_def demo_log_def)

lemma failing_node_iterations:
  "poll_iteration demo_rpc 7 5 None f 0 = (Retry (f\<lparr>rf_block_number := 0, rf_get_logs := rf_get_logs f + 1\<rparr>), 1)"
  "poll_iteration demo_rpc 7 5 None f 1 =
     (Finished \<lparr>pr_jobs = [job_submitted_to_call demo_event 5 [1] 99], pr_last_block = 5, pr_last_log_index = Some 0\<rparr>, 1)"
proof -
  have small: "effective_from 5 6 = 5" "min 6 (sat_add 5 (sat_sub max_log_range_blocks 1)) = (6 :: u64)"
    by (simp_all add: effective_from_def max_log_range_blocks_def sat_add_def sat_sub_def min_def word_le_nat_alt)
  have log: "log_block_number demo_log = 5" "lg_block_number demo_log = Some 5" "lg_log_index demo_log = Some 0"
      "lg_block_timestamp demo_log = None"
    by (simp_all add: demo_log_def log_block_number_def)
  have sorted: "sort_logs [demo_log] = [demo_log]" by (simp add: sort_logs_def)
  show "poll_iteration demo_rpc 7 5 None f 0 = (Retry (f\<lparr>rf_block_number := 0, rf_get_logs := rf_get_logs f + 1\<rparr>), 1)"
    by (simp add: poll_iteration_def small demo_rpc_def Let_def)
  show "poll_iteration demo_rpc 7 5 None f 1 =
     (Finished \<lparr>pr_jobs = [job_submitted_to_call demo_event 5 [1] 99], pr_last_block = 5, pr_last_log_index = Some 0\<rparr>, 1)"
    by (simp add: poll_iteration_def small demo_rpc_def Let_def log sorted filter_logs_def next_cursor_def
        demo_log_decoded block_time_def demo_event_def)
qed

lemma failing_node_run:
  "take_jobs demo_rpc 1 (producer_from_block 7 5) 0 =
     Some ([job_submitted_to_call demo_event 5 [1] 99],
           (producer_from_block 7 5)\<lparr>pd_last_block := 5, pd_last_log_index := Some 0\<rparr>, 1)"
proof -
  have "poll_for_jobs demo_rpc 7 5 None 0 =
      Some (Some \<lparr>pr_jobs = [job_submitted_to_call demo_event 5 [1] 99], pr_last_block = 5,
        pr_last_log_index = Some 0\<rparr>, 1)"
    by (simp only: poll_for_jobs_def poll_for_jobs_loop.simps [of demo_rpc 7 5 None _ 0]
        poll_for_jobs_loop.simps [of demo_rpc 7 5 None _ 1] failing_node_iterations prod.case poll_step.case)
  moreover have "rp_sleep demo_rpc d w = w" for d w by (simp add: demo_rpc_def)
  ultimately show ?thesis
    by (simp add: poll_next.simps producer_poll_def producer_from_block_def)
qed

theorem jobs_delivered_once_in_order_witness:
  "\<exists>read. [job_submitted_to_call demo_event 5 [1] 99] = List.map_filter (job_of (\<lambda>b. 99) 7) read
     \<and> filter (\<lambda>l. 5 \<le> log_block_number l) [demo_log] = read @ filter (unread 5 (Some 0)) [demo_log]"
  using jobs_delivered_once_in_order [OF demo_node_ok _ failing_node_run] by (simp add: producer_from_block_def)

end
