(* ===== verification/Job_Sink.thy ===== *)
theory Job_Sink
  imports Job_Types
begin

text \<open>
  The sinks of job results. \<open>TangleConsumer\<close> of \<open>crates/tangle-extra/src/consumer.rs\<close> and
  \<open>AggregatingConsumer\<close> of \<open>crates/tangle-extra/src/aggregating_consumer.rs\<close> are the same machine over
  what they keep of a result and the future that submits it: a buffer and at most one submission in
  progress. A future is polled through a function of the item it was made from and the world; the
  chain client is the record \<open>tangle_client\<close>.
\<close>

section \<open>The machine\<close>

datatype 'a poll_result = PollReady 'a | PollPending

type_synonym ('i, 'e, 'w) submission = "'i \<Rightarrow> 'w \<Rightarrow> ('e + unit) poll_result \<times> 'w"

text \<open>\<open>sk_state\<close> is the submission in progress, \<open>None\<close> while the sink waits for a result.\<close>

record 'i sink =
  sk_buffer :: "'i list"
  sk_state :: "'i option"

definition sink_new :: "'i sink" where
  "sink_new = \<lparr>sk_buffer = [], sk_state = None\<rparr>"

definition is_waiting :: "'i sink \<Rightarrow> bool" where
  "is_waiting S \<longleftrightarrow> sk_state S = None"

definition start_send :: "('r \<Rightarrow> 'e + 'i option) \<Rightarrow> 'r \<Rightarrow> 'i sink \<Rightarrow> ('e + unit) \<times> 'i sink" where
  "start_send derive item S =
     (case derive item of
        Inl e \<Rightarrow> (Inl e, S)
      | Inr None \<Rightarrow> (Inr (), S)
      | Inr (Some x) \<Rightarrow> (Inr (), S\<lparr>sk_buffer := sk_buffer S @ [x]\<rparr>))"

function flush_loop ::
  "('i, 'e, 'w) submission \<Rightarrow> 'i sink \<Rightarrow> 'w \<Rightarrow> ('e + unit) poll_result \<times> 'i sink \<times> 'w" where
  "flush_loop P S w =
     (case sk_state S of
        None \<Rightarrow>
          (case sk_buffer S of
             [] \<Rightarrow> (PollReady (Inr ()), S, w)
           | x # xs \<Rightarrow> flush_loop P (S\<lparr>sk_buffer := xs, sk_state := Some x\<rparr>) w)
      | Some x \<Rightarrow>
          (case P x w of
             (PollReady (Inr _), w') \<Rightarrow> flush_loop P (S\<lparr>sk_state := None\<rparr>) w'
           | (PollReady (Inl e), w') \<Rightarrow> (PollReady (Inl e), S\<lparr>sk_state := None\<rparr>, w')
           | (PollPending, w') \<Rightarrow> (PollPending, S, w')))"
  by pat_completeness auto
termination
  by (relation "measure (\<lambda>(P, S, w). 2 * length (sk_buffer S) + (if sk_state S = None then 0 else 1))") auto

declare flush_loop.simps [simp del]

definition poll_flush ::
  "('i, 'e, 'w) submission \<Rightarrow> 'i sink \<Rightarrow> 'w \<Rightarrow> ('e + unit) poll_result \<times> 'i sink \<times> 'w" where
  "poll_flush P S w =
     (if sk_buffer S = [] \<and> is_waiting S then (PollReady (Inr ()), S, w) else flush_loop P S w)"

definition poll_close :: "'i sink \<Rightarrow> ('e + unit) poll_result" where
  "poll_close S = (if sk_buffer S = [] then PollReady (Inr ()) else PollPending)"

section \<open>The consumer of direct results\<close>

datatype consumer_error =
    ConsumerClient string
  | MissingMetadata string
  | InvalidMetadata string
  | Transaction string

record derived_job_result =
  dr_service_id :: u64
  dr_call_id :: u64
  dr_output :: bytes

text \<open>What is kept of a result: nothing of an error or of a result that is not of this chain.\<close>

fun derive_result :: "job_result \<Rightarrow> consumer_error + derived_job_result option" where
  "derive_result (JobErr e) = Inr None"
| "derive_result (JobOk metadata body) =
     (case (metadata_get call_id_key metadata, metadata_get service_id_key metadata) of
        (Some call_id_raw, Some service_id_raw) \<Rightarrow>
          (case number_from_metadata call_id_raw of
             None \<Rightarrow> Inl (InvalidMetadata ''call_id'')
           | Some call_id \<Rightarrow>
               (case number_from_metadata service_id_raw of
                  None \<Rightarrow> Inl (InvalidMetadata ''service_id'')
                | Some service_id \<Rightarrow>
                    Inr (Some \<lparr>dr_service_id = service_id, dr_call_id = call_id, dr_output = body\<rparr>)))
      | _ \<Rightarrow> Inr None)"

record transaction_result =
  tx_hash :: bytes
  tx_success :: bool

record 'w tangle_client =
  tc_dry_run :: bool
  tc_submit_result :: "u64 \<Rightarrow> u64 \<Rightarrow> bytes \<Rightarrow> 'w \<Rightarrow> (string + transaction_result) poll_result \<times> 'w"
  tc_show_hash :: "bytes \<Rightarrow> string"

definition reverted :: "'w tangle_client \<Rightarrow> u64 \<Rightarrow> u64 \<Rightarrow> bytes \<Rightarrow> string" where
  "reverted C service_id call_id hash =
     ''Transaction reverted for service '' @ show_u64 service_id @ '' call '' @ show_u64 call_id
       @ '': tx_hash='' @ tc_show_hash C hash"

definition submit_result :: "'w tangle_client \<Rightarrow> (derived_job_result, consumer_error, 'w) submission" where
  "submit_result C r w =
     (if tc_dry_run C then (PollReady (Inr ()), w)
      else case tc_submit_result C (dr_service_id r) (dr_call_id r) (dr_output r) w of
             (PollPending, w') \<Rightarrow> (PollPending, w')
           | (PollReady (Inl e), w') \<Rightarrow> (PollReady (Inl (Transaction (''Failed to submit result: '' @ e))), w')
           | (PollReady (Inr result), w') \<Rightarrow>
               (PollReady (if tx_success result then Inr ()
                  else Inl (Transaction (reverted C (dr_service_id r) (dr_call_id r) (tx_hash result)))), w'))"

section \<open>Runs\<close>

text \<open>A run of the sink: results are sent, and the sink is flushed and asked to close, in any order.
  The answers are those of the flushes. \<open>logged\<close> notes the submissions that ended.\<close>

datatype 'r sink_op = Send 'r | Flush | Close

fun run_sink ::
  "('r \<Rightarrow> 'e + 'i option) \<Rightarrow> ('i, 'e, 'w) submission \<Rightarrow> 'r sink_op list \<Rightarrow> 'i sink \<Rightarrow> 'w \<Rightarrow>
   ('e + unit) poll_result list \<times> 'i sink \<times> 'w" where
  "run_sink derive P [] S w = ([], S, w)"
| "run_sink derive P (Send r # ops) S w = run_sink derive P ops (snd (start_send derive r S)) w"
| "run_sink derive P (Flush # ops) S w =
     (let (a, S', w') = poll_flush P S w; (as, rest) = run_sink derive P ops S' w' in (a # as, rest))"
| "run_sink derive P (Close # ops) S w = run_sink derive P ops S w"

definition logged :: "('i, 'e, 'w) submission \<Rightarrow> ('i, 'e, 'w \<times> ('i \<times> ('e + unit)) list) submission" where
  "logged P x v =
     (case P x (fst v) of
        (PollReady r, w) \<Rightarrow> (PollReady r, w, snd v @ [(x, r)])
      | (PollPending, w) \<Rightarrow> (PollPending, w, snd v))"

definition accepted :: "('r \<Rightarrow> 'e + 'i option) \<Rightarrow> 'r sink_op list \<Rightarrow> 'i list" where
  "accepted derive ops =
     List.map_filter (\<lambda>op. case op of Send r \<Rightarrow> (case derive r of Inr x \<Rightarrow> x | Inl _ \<Rightarrow> None) | _ \<Rightarrow> None) ops"

fun failures :: "('e + unit) list \<Rightarrow> 'e list" where
  "failures [] = []"
| "failures (Inl e # rs) = e # failures rs"
| "failures (Inr _ # rs) = failures rs"

fun reported :: "('e + unit) poll_result list \<Rightarrow> 'e list" where
  "reported [] = []"
| "reported (PollReady (Inl e) # as) = e # reported as"
| "reported (_ # as) = reported as"

definition in_progress :: "'i sink \<Rightarrow> 'i list" where
  "in_progress S = (case sk_state S of None \<Rightarrow> [] | Some x \<Rightarrow> [x])"

lemma failures_append [simp]: "failures (xs @ ys) = failures xs @ failures ys"
  by (induction xs rule: failures.induct) auto

lemma flush_ok:
  assumes "flush_loop (logged P) S v = (a, S', v')"
  shows "\<exists>log. snd v' = snd v @ log \<and> map fst log @ in_progress S' @ sk_buffer S' = in_progress S @ sk_buffer S
    \<and> failures (map snd log) = reported [a] \<and> (a = PollReady (Inr ()) \<longrightarrow> S' = sink_new)"
  using assms
proof (induction "logged P" S v arbitrary: a S' v' rule: flush_loop.induct)
  case (1 S v)
  show ?case
  proof (cases "sk_state S")
    case None
    show ?thesis
    proof (cases "sk_buffer S")
      case Nil
      with None 1(3) have "a = PollReady (Inr ())" "S' = S" "v' = v" by (simp_all add: flush_loop.simps [of _ S])
      then show ?thesis using None Nil by (simp add: sink_new_def in_progress_def)
    next
      case (Cons x xs)
      have "flush_loop (logged P) (S\<lparr>sk_buffer := xs, sk_state := Some x\<rparr>) v = (a, S', v')"
        using 1(3) None Cons by (simp add: flush_loop.simps [of _ S])
      from 1(1) [OF None Cons this] show ?thesis using None Cons by (simp add: in_progress_def)
    qed
  next
    case (Some x)
    show ?thesis
    proof (cases "P x (fst v)")
      case (Pair r w)
      show ?thesis
      proof (cases r)
        case (PollReady r')
        show ?thesis
        proof (cases r')
          case (Inl e)
          have "a = PollReady (Inl e)" "S' = S\<lparr>sk_state := None\<rparr>" "v' = (w, snd v @ [(x, Inl e)])"
            using 1(3) Some Pair PollReady Inl by (simp_all add: flush_loop.simps [of _ S] logged_def)
          then show ?thesis using Some by (simp add: in_progress_def)
        next
          case (Inr u)
          have step: "logged P x v = (PollReady (Inr u), w, snd v @ [(x, Inr u)])"
            using Pair PollReady Inr by (simp add: logged_def)
          have "flush_loop (logged P) (S\<lparr>sk_state := None\<rparr>) (w, snd v @ [(x, Inr u)]) = (a, S', v')"
            using 1(3) Some step by (simp add: flush_loop.simps [of _ S])
          from 1(2) [OF Some step [symmetric] refl refl this] obtain log where
            "snd v' = snd v @ (x, Inr u) # log"
            "map fst log @ in_progress S' @ sk_buffer S' = in_progress (S\<lparr>sk_state := None\<rparr>) @ sk_buffer S"
            "failures (map snd log) = reported [a]" "a = PollReady (Inr ()) \<longrightarrow> S' = sink_new"
            by auto
          then show ?thesis using Some by (intro exI [of _ "(x, Inr u) # log"]) (simp add: in_progress_def)
        qed
      next
        case PollPending
        have "a = PollPending" "S' = S" "v' = (w, snd v)"
          using 1(3) Some Pair PollPending by (simp_all add: flush_loop.simps [of _ S] logged_def)
        then show ?thesis by simp
      qed
    qed
  qed
qed

lemma poll_flush_ok:
  assumes "poll_flush (logged P) S v = (a, S', v')"
  shows "\<exists>log. snd v' = snd v @ log \<and> map fst log @ in_progress S' @ sk_buffer S' = in_progress S @ sk_buffer S
    \<and> failures (map snd log) = reported [a] \<and> (a = PollReady (Inr ()) \<longrightarrow> S' = sink_new)"
proof (cases "sk_buffer S = [] \<and> is_waiting S")
  case True
  then show ?thesis using assms by (auto simp: poll_flush_def is_waiting_def sink_new_def)
next
  case False
  then have "flush_loop (logged P) S v = (a, S', v')"
    using assms unfolding poll_flush_def by (subst (asm) if_not_P)
  then show ?thesis by (rule flush_ok)
qed

lemma start_send_keeps:
  "sk_buffer (snd (start_send derive r S)) = sk_buffer S @ accepted derive [Send r]"
  "in_progress (snd (start_send derive r S)) = in_progress S"
  by (simp_all add: start_send_def accepted_def in_progress_def map_filter_simps split: sum.split option.split)

lemma accepted_Cons: "accepted derive (op # ops) = accepted derive [op] @ accepted derive ops"
  by (simp add: accepted_def map_filter_simps split: option.split)

lemma accepted_idle [simp]: "accepted derive [] = []" "accepted derive [Flush] = []" "accepted derive [Close] = []"
  by (simp_all add: accepted_def map_filter_simps)

lemma reported_Cons: "reported (a # as) = reported [a] @ reported as"
  by (cases "a # as" rule: reported.cases) simp_all

definition flushed :: "'r sink_op list \<Rightarrow> ('e + unit) poll_result list \<Rightarrow> bool" where
  "flushed ops as \<longleftrightarrow> ops \<noteq> [] \<and> last ops = Flush \<and> last as = PollReady (Inr ())"

lemma run_sink_answers: "Flush \<in> set ops \<Longrightarrow> run_sink derive P ops S w = (as, S', w') \<Longrightarrow> as \<noteq> []"
proof (induction ops arbitrary: S w)
  case (Cons op ops)
  then show ?case by (cases op) (auto split: prod.splits)
qed simp

lemma run_sink_ok:
  assumes "run_sink derive (logged P) ops S v = (as, S', v')"
  shows "\<exists>log. snd v' = snd v @ log
    \<and> map fst log @ in_progress S' @ sk_buffer S' = in_progress S @ sk_buffer S @ accepted derive ops
    \<and> failures (map snd log) = reported as \<and> (flushed ops as \<longrightarrow> S' = sink_new)"
  using assms
proof (induction ops arbitrary: S v as)
  case Nil
  then show ?case by (simp add: flushed_def)
next
  case (Cons op ops)
  show ?case
  proof (cases op)
    case (Send r)
    then have "run_sink derive (logged P) ops (snd (start_send derive r S)) v = (as, S', v')" using Cons.prems by simp
    from Cons.IH [OF this] show ?thesis
      using Send by (auto simp: start_send_keeps accepted_Cons [of _ _ ops] flushed_def)
  next
    case Flush
    obtain a S1 v1 where f: "poll_flush (logged P) S v = (a, S1, v1)" by (rule prod_cases3)
    obtain as' where r: "run_sink derive (logged P) ops S1 v1 = (as', S', v')" and as: "as = a # as'"
      using Cons.prems Flush f by (auto split: prod.splits)
    obtain l1 where l1: "snd v1 = snd v @ l1"
      "map fst l1 @ in_progress S1 @ sk_buffer S1 = in_progress S @ sk_buffer S"
      "failures (map snd l1) = reported [a]" "a = PollReady (Inr ()) \<longrightarrow> S1 = sink_new"
      using poll_flush_ok [OF f] by blast
    obtain l2 where l2: "snd v' = snd v1 @ l2"
      "map fst l2 @ in_progress S' @ sk_buffer S' = in_progress S1 @ sk_buffer S1 @ accepted derive ops"
      "failures (map snd l2) = reported as'" "flushed ops as' \<longrightarrow> S' = sink_new"
      using Cons.IH [OF r] by blast
    have "map fst (l1 @ l2) @ in_progress S' @ sk_buffer S'
        = map fst l1 @ in_progress S1 @ sk_buffer S1 @ accepted derive ops"
      using l2(2) by simp
    also have "\<dots> = in_progress S @ sk_buffer S @ accepted derive ops"
      using arg_cong [OF l1(2), of "\<lambda>xs. xs @ accepted derive ops"] by simp
    finally have run: "map fst (l1 @ l2) @ in_progress S' @ sk_buffer S' = in_progress S @ sk_buffer S @ accepted derive (op # ops)"
      using Flush by (simp add: accepted_Cons [of _ _ ops])
    have "S' = sink_new" if "flushed (op # ops) as"
    proof (cases ops)
      case Nil
      then show ?thesis using that r as l1(4) by (auto simp: flushed_def)
    next
      case (Cons x xs)
      then show ?thesis
      proof (cases as')
        case (Cons y ys)
        then show ?thesis using that l2(4) \<open>ops = x # xs\<close> as by (simp add: flushed_def)
      next
        case Nil
        have "last ops = Flush" using that \<open>ops = x # xs\<close> by (simp add: flushed_def)
        then have "Flush \<in> set ops" using \<open>ops = x # xs\<close> by (metis last_in_set list.discI)
        from run_sink_answers [OF this r] Nil show ?thesis by simp
      qed
    qed
    then show ?thesis using l1(1,3) l2(1,3) run as
      by (intro exI [of _ "l1 @ l2"]) (simp add: reported_Cons [of a as'])
  next
    case Close
    then have "run_sink derive (logged P) ops S v = (as, S', v')" using Cons.prems by simp
    from Cons.IH [OF this] show ?thesis
      using Close by (auto simp: accepted_Cons [of _ _ ops] flushed_def)
  qed
qed


text \<open>
  C0: a sink hands every result it accepts to the chain exactly once and in the order of arrival. After
  any sequence of sends, flushes and attempts to close, the submissions that have ended, the one in
  progress and the buffered ones are the accepted results in their order; every failed submission is
  reported by one flush, in order, and does not hold up those behind it; and a flush that answers
  \<open>Ok\<close> has left nothing to submit.
\<close>

theorem sink_submits_once_in_order:
  assumes "run_sink derive (logged P) ops sink_new (w, []) = (as, S, w', log)"
  shows "map fst log @ in_progress S @ sk_buffer S = accepted derive ops
    \<and> reported as = failures (map snd log)
    \<and> (flushed ops as \<longrightarrow> map fst log = accepted derive ops)"
proof -
  obtain log' where l: "log = log'" "map fst log' @ in_progress S @ sk_buffer S = accepted derive ops"
    "failures (map snd log') = reported as" "flushed ops as \<longrightarrow> S = sink_new"
    using run_sink_ok [OF assms] by (auto simp: sink_new_def in_progress_def)
  have "map fst log = accepted derive ops" if "flushed ops as"
  proof -
    have "S = sink_new" using l(4) that ..
    then show ?thesis using l(1,2) by (simp add: sink_new_def in_progress_def)
  qed
  then show ?thesis using l by simp
qed

text \<open>A client that refuses the first transaction and is slow with the second.\<close>

definition slow_client :: "nat tangle_client" where
  "slow_client = \<lparr>tc_dry_run = False,
     tc_submit_result = (\<lambda>s c out n. (if n = 0 then PollReady (Inl ''nonce'') else if n = 1 then PollPending
        else PollReady (Inr \<lparr>tx_hash = [], tx_success = True\<rparr>), n + 1)),
     tc_show_hash = (\<lambda>_. [])\<rparr>"

definition result_of :: "u64 \<Rightarrow> job_result" where
  "result_of c = JobOk [(call_id_key, metadata_from_number c), (service_id_key, metadata_from_number (9 :: u64))] [1]"

definition derived_of :: "u64 \<Rightarrow> derived_job_result" where
  "derived_of c = \<lparr>dr_service_id = 9, dr_call_id = c, dr_output = [1]\<rparr>"

lemma derive_result_of: "derive_result (result_of c) = Inr (Some (derived_of c))"
  by (simp add: result_of_def derived_of_def metadata_get_def metadata_keys)

lemma slow_client_run:
  "run_sink derive_result (logged (submit_result slow_client))
     [Send (result_of 1), Send (result_of 2), Flush, Send (JobErr ''e''), Flush, Close, Flush] sink_new (0, [])
   = ([PollReady (Inl (Transaction ''Failed to submit result: nonce'')), PollPending, PollReady (Inr ())], sink_new, 3,
      [(derived_of 1, Inl (Transaction ''Failed to submit result: nonce'')), (derived_of 2, Inr ())])"
  by (simp add: start_send_def derive_result_of sink_new_def poll_flush_def is_waiting_def flush_loop.simps
      logged_def submit_result_def slow_client_def)

theorem sink_submits_once_in_order_witness:
  "[derived_of 1, derived_of 2] = accepted derive_result
     [Send (result_of 1), Send (result_of 2), Flush, Send (JobErr ''e''), Flush, Close, Flush]"
  using sink_submits_once_in_order [OF slow_client_run] by (simp add: flushed_def)

text \<open>Closing looks at the buffer only: it answers \<open>Ok\<close> with a submission still in progress.\<close>

lemma close_abandons_submission:
  "\<exists>as S v. run_sink derive_result (logged (submit_result slow_client))
       [Send (result_of 1), Send (result_of 2), Flush, Flush] sink_new (0, []) = (as, S, v)
     \<and> poll_close S = (PollReady (Inr ()) :: (consumer_error + unit) poll_result) \<and> in_progress S = [derived_of 2]"
  by (simp add: start_send_def derive_result_of sink_new_def poll_flush_def is_waiting_def flush_loop.simps
      logged_def submit_result_def slow_client_def poll_close_def in_progress_def)

end
