(* ===== verification/Agg_Consumer.thy ===== *)
theory Agg_Consumer
  imports Http_Strategy Service_Cache Job_Sink
begin

unbundle bit_operations_syntax

text \<open>
  The consumer that aggregates signatures before it submits,
  \<open>crates/tangle-extra/src/aggregating_consumer.rs\<close>, with the points and bitmaps of
  \<open>crates/tangle-extra/src/aggregation.rs\<close>. The sink is that of \<open>Job_Sink\<close>; here are what it keeps of a
  result and the submission. The configured services are servers of \<open>Agg_Client\<close> over one world, the
  cache is that of \<open>Service_Cache\<close>, and the chain client, the clock and the code of \<open>alloy\<close> and \<open>ark\<close>
  are the record \<open>consumer_env\<close>. A submission that never ends is \<open>None\<close>.
\<close>

section \<open>Bitmaps and points\<close>

definition bitmap_new :: u256 where
  "bitmap_new = 0"

definition bitmap_add_signer :: "nat \<Rightarrow> u256 \<Rightarrow> u256" where
  "bitmap_add_signer index b = b OR push_bit index 1"

definition bitmap_from_indices :: "nat list \<Rightarrow> u256" where
  "bitmap_from_indices indices = fold (\<lambda>idx b. b OR push_bit idx 1) indices 0"

definition bitmap_is_signer :: "u256 \<Rightarrow> nat \<Rightarrow> bool" where
  "bitmap_is_signer b index \<longleftrightarrow> drop_bit index b AND 1 = 1"

definition bitmap_remove_signer :: "nat \<Rightarrow> u256 \<Rightarrow> u256" where
  "bitmap_remove_signer index b = b AND NOT (push_bit index 1)"

function count_loop :: "u256 \<Rightarrow> nat \<Rightarrow> nat" where
  "count_loop b n =
     (if b > 0 then count_loop (drop_bit 1 b) (if b AND 1 = 1 then n + 1 else n) else n)"
  by pat_completeness auto
termination
proof (relation "measure (\<lambda>(b, n). unat b)")
  fix b :: u256 and n :: nat
  assume "b > 0"
  then have "0 < unat b" by (simp add: word_less_nat_alt)
  then have "unat (drop_bit 1 b) < unat b" by (simp add: drop_bit_eq_div unat_div)
  then show "((drop_bit 1 b, if b AND 1 = 1 then n + 1 else n), b, n) \<in> measure (\<lambda>(b, n). unat b)"
    by simp
qed simp

declare count_loop.simps [simp del]

definition bitmap_count_signers :: "u256 \<Rightarrow> nat" where
  "bitmap_count_signers b = count_loop b 0"

record g1_point =
  g1_x :: u256
  g1_y :: u256

definition g1_from_bytes :: "bytes \<Rightarrow> g1_point option" where
  "g1_from_bytes bs =
     (if length bs \<noteq> 64 then None
      else Some \<lparr>g1_x = from_be_bytes (take 32 bs), g1_y = from_be_bytes (take 32 (drop 32 bs))\<rparr>)"

definition g1_to_array :: "g1_point \<Rightarrow> u256 list" where
  "g1_to_array p = [g1_x p, g1_y p]"

record g2_point =
  g2_x0 :: u256
  g2_x1 :: u256
  g2_y0 :: u256
  g2_y1 :: u256

definition g2_from_bytes :: "bytes \<Rightarrow> g2_point option" where
  "g2_from_bytes bs =
     (if length bs \<noteq> 128 then None
      else Some \<lparr>g2_x0 = from_be_bytes (take 32 bs), g2_x1 = from_be_bytes (take 32 (drop 32 bs)),
                 g2_y0 = from_be_bytes (take 32 (drop 64 bs)), g2_y1 = from_be_bytes (take 32 (drop 96 bs))\<rparr>)"

definition g2_to_array :: "g2_point \<Rightarrow> u256 list" where
  "g2_to_array p = [g2_x0 p, g2_x1 p, g2_y0 p, g2_y1 p]"

section \<open>Thresholds\<close>

definition div_ceil :: "'a :: len word \<Rightarrow> 'a word \<Rightarrow> 'a word" where
  "div_ceil a b = a div b + (if a mod b = 0 then 0 else 1)"

definition count_based :: "u64 \<Rightarrow> u16 \<Rightarrow> u64" where
  "count_based total_ops threshold_bps =
     (if total_ops = 0 then 1
      else let required = div_ceil (total_ops * ucast threshold_bps) 10000;
               required = (if required = 0 then 1 else required)
           in max (min required total_ops) 1)"

fun stake_signers :: "u128 \<Rightarrow> u128 \<Rightarrow> u64 list \<Rightarrow> u64" where
  "stake_signers required accumulated [] = 0"
| "stake_signers required accumulated (stake # rest) =
     (let accumulated' = accumulated + ucast stake
      in if accumulated' \<ge> required then 1 else 1 + stake_signers required accumulated' rest)"

definition calculate_required_signers ::
  "u64 \<Rightarrow> u16 \<Rightarrow> chain_threshold \<Rightarrow> u64 list option \<Rightarrow> u64" where
  "calculate_required_signers total_operators threshold_bps threshold_type operator_stakes =
     (case threshold_type of
        ChainCountBased \<Rightarrow> count_based total_operators threshold_bps
      | ChainStakeWeighted \<Rightarrow>
          (case operator_stakes of
             None \<Rightarrow> count_based total_operators threshold_bps
           | Some stakes \<Rightarrow>
               if stakes = [] \<or> (\<forall>s\<in>set stakes. s = 0) then count_based total_operators threshold_bps
               else let total_stake = sum_list (map ucast stakes) :: u128 in
                 if total_stake = 0 then count_based total_operators threshold_bps
                 else let required_stake = div_ceil (total_stake * ucast threshold_bps) 10000;
                          required_stake = (if required_stake = 0 then 1 else required_stake)
                      in max (min (stake_signers required_stake 0 (rev (sort stakes)))
                                  (max total_operators 1)) 1))"

section \<open>Errors and results\<close>

datatype aggregation_error =
    AggClientError string
  | AggThresholdNotMet nat nat
  | AggInvalidSignature
  | AggContractError string
  | AggMissingOperatorKey nat

datatype aggregating_error =
    AgClient string
  | AgMissingMetadata string
  | AgInvalidMetadata string
  | AgTransaction string
  | AgAggregation aggregation_error
  | AgAggregationService client_error
  | AgBls string
  | AgNotConfigured
  | AgPanicked

fun show_aggregation_error :: "aggregation_error \<Rightarrow> string" where
  "show_aggregation_error (AggClientError e) = ''Client error: '' @ e"
| "show_aggregation_error (AggThresholdNotMet got need) =
     ''Threshold not met: got '' @ show_nat got @ '' signers, need '' @ show_nat need"
| "show_aggregation_error AggInvalidSignature = ''Invalid BLS signature''"
| "show_aggregation_error (AggContractError e) = ''Contract call failed: '' @ e"
| "show_aggregation_error (AggMissingOperatorKey i) = ''Missing BLS key for operator at index '' @ show_nat i"

fun show_client_error :: "client_error \<Rightarrow> string" where
  "show_client_error (Http e) = ''HTTP error: '' @ e"
| "show_client_error (Server e) = ''Server error: '' @ e"
| "show_client_error (InvalidResponse e) = ''Invalid response: '' @ e"
| "show_client_error NotFound = ''Task not found''"
| "show_client_error (ThresholdNotMetC collected required) =
     ''Threshold not met: '' @ show_nat collected @ ''/'' @ show_nat required"
| "show_client_error AlreadySubmittedC = ''Aggregation task was already submitted to the chain''"

fun show_aggregating_error :: "aggregating_error \<Rightarrow> string" where
  "show_aggregating_error (AgClient e) = ''Client error: '' @ e"
| "show_aggregating_error (AgMissingMetadata e) = ''Missing metadata: '' @ e"
| "show_aggregating_error (AgInvalidMetadata e) = ''Invalid metadata: '' @ e"
| "show_aggregating_error (AgTransaction e) = ''Transaction error: '' @ e"
| "show_aggregating_error (AgAggregation e) = ''Aggregation error: '' @ show_aggregation_error e"
| "show_aggregating_error (AgAggregationService e) = ''Aggregation service error: '' @ show_client_error e"
| "show_aggregating_error (AgBls e) = ''BLS error: '' @ e"
| "show_aggregating_error AgNotConfigured =
     ''Aggregation required but not configured. Call with_aggregation_service() first.''"
| "show_aggregating_error AgPanicked = []"

fun show_config_error :: "config_error \<Rightarrow> string" where
  "show_config_error (FetchError e) = ''Failed to fetch from chain: '' @ e"
| "show_config_error LockPoisoned = ''Cache lock poisoned''"

definition to_ascii_lowercase :: "string \<Rightarrow> string" where
  "to_ascii_lowercase s =
     map (\<lambda>c. let n = of_char c :: nat in if 65 \<le> n \<and> n \<le> 90 then char_of (n + 32) else c) s"

fun contains :: "string \<Rightarrow> string \<Rightarrow> bool" where
  "contains pattern [] = (pattern = [])"
| "contains pattern (c # s) = (take (length pattern) (c # s) = pattern \<or> contains pattern s)"

definition is_job_already_completed :: "aggregating_error \<Rightarrow> bool" where
  "is_job_already_completed error =
     (let message = to_ascii_lowercase (show_aggregating_error error)
      in contains ''jobalreadycompleted'' message \<or> contains ''job already completed'' message
         \<or> contains ''0x0a55512f'' message)"

record pending_job_result =
  pj_service_id :: u64
  pj_call_id :: u64
  pj_job_index :: u8
  pj_output :: bytes

text \<open>The job index is read as a number of eight bytes, and is 0 where that fails.\<close>

definition read_job_index :: "metadata \<Rightarrow> u8" where
  "read_job_index metadata =
     (case metadata_get job_index_key metadata of
        None \<Rightarrow> 0
      | Some v \<Rightarrow>
          (case number_from_metadata v :: u64 option of
             None \<Rightarrow> 0
           | Some n \<Rightarrow> if unat n < 256 then ucast n else 0))"

fun derive_pending :: "job_result \<Rightarrow> aggregating_error + pending_job_result option" where
  "derive_pending (JobErr e) = Inr None"
| "derive_pending (JobOk metadata body) =
     (case (metadata_get call_id_key metadata, metadata_get service_id_key metadata) of
        (Some call_id_raw, Some service_id_raw) \<Rightarrow>
          (case number_from_metadata call_id_raw of
             None \<Rightarrow> Inl (AgInvalidMetadata ''call_id'')
           | Some call_id \<Rightarrow>
               (case number_from_metadata service_id_raw of
                  None \<Rightarrow> Inl (AgInvalidMetadata ''service_id'')
                | Some service_id \<Rightarrow>
                    Inr (Some \<lparr>pj_service_id = service_id, pj_call_id = call_id,
                               pj_job_index = read_job_index metadata, pj_output = body\<rparr>)))
      | _ \<Rightarrow> Inr None)"

section \<open>Configuration\<close>

record ('sk, 'p, 'w) agg_service_config =
  as_clients :: "'w server list"
  as_bls_secret :: 'sk
  as_bls_public :: 'p
  as_operator_index :: u32
  as_wait_for_threshold :: bool
  as_threshold_timeout :: duration
  as_poll_interval :: duration
  as_submit_to_chain :: bool

definition agg_config_with_services ::
  "('sk, 's, 'p) signer \<Rightarrow> 'w server list \<Rightarrow> 'sk \<Rightarrow> u32 \<Rightarrow> ('sk, 'p, 'w) agg_service_config" where
  "agg_config_with_services G clients bls_secret operator_index =
     \<lparr>as_clients = clients, as_bls_secret = bls_secret, as_bls_public = sg_public G bls_secret,
      as_operator_index = operator_index, as_wait_for_threshold = False, as_threshold_timeout = secs 60,
      as_poll_interval = secs 1, as_submit_to_chain = True\<rparr>"

definition agg_config_new ::
  "('sk, 's, 'p) signer \<Rightarrow> 'w server \<Rightarrow> 'sk \<Rightarrow> u32 \<Rightarrow> ('sk, 'p, 'w) agg_service_config" where
  "agg_config_new G client = agg_config_with_services G [client]"

definition agg_add_service ::
  "'w server \<Rightarrow> ('sk, 'p, 'w) agg_service_config \<Rightarrow> ('sk, 'p, 'w) agg_service_config" where
  "agg_add_service client config = config\<lparr>as_clients := as_clients config @ [client]\<rparr>"

definition agg_with_wait_for_threshold ::
  "bool \<Rightarrow> ('sk, 'p, 'w) agg_service_config \<Rightarrow> ('sk, 'p, 'w) agg_service_config" where
  "agg_with_wait_for_threshold wait config = config\<lparr>as_wait_for_threshold := wait\<rparr>"

definition agg_with_threshold_timeout ::
  "duration \<Rightarrow> ('sk, 'p, 'w) agg_service_config \<Rightarrow> ('sk, 'p, 'w) agg_service_config" where
  "agg_with_threshold_timeout timeout config = config\<lparr>as_threshold_timeout := timeout\<rparr>"

definition agg_with_submit_to_chain ::
  "bool \<Rightarrow> ('sk, 'p, 'w) agg_service_config \<Rightarrow> ('sk, 'p, 'w) agg_service_config" where
  "agg_with_submit_to_chain submit config = config\<lparr>as_submit_to_chain := submit\<rparr>"

text \<open>The address of an operator's aggregation service. The part before the last colon loses the
  port that is replaced.\<close>

definition before_last_colon :: "string \<Rightarrow> string option" where
  "before_last_colon s =
     (case dropWhile (\<lambda>c. c \<noteq> CHR '':'') (rev s) of [] \<Rightarrow> None | _ # before \<Rightarrow> Some (rev before))"

definition service_url :: "string \<Rightarrow> string \<Rightarrow> string option" where
  "service_url aggregation_path rpc =
     (if rpc = [] then None
      else if take 1 aggregation_path = '':''
      then (case before_last_colon rpc of
              Some before_port \<Rightarrow>
                if contains ''://'' before_port then Some (before_port @ aggregation_path)
                else Some (rpc @ aggregation_path)
            | None \<Rightarrow> Some (rpc @ aggregation_path))
      else Some (rev (dropWhile (\<lambda>c. c = CHR ''/'') (rev rpc)) @ aggregation_path))"

text \<open>\<open>w k\<close> is the state of the chain at the \<open>k\<close>-th call.\<close>

fun collect_endpoints ::
  "('c, 'm, 'l) chain \<Rightarrow> ('m \<Rightarrow> string) \<Rightarrow> (nat \<Rightarrow> 'c) \<Rightarrow> u64 \<Rightarrow> address list \<Rightarrow> aggregating_error + string list" where
  "collect_endpoints Ch endpoint w blueprint_id [] = Inr []"
| "collect_endpoints Ch endpoint w blueprint_id (operator # operators) =
     (case ch_operator_metadata Ch blueprint_id operator (w 0) of
        Inl e \<Rightarrow> Inl (AgClient e)
      | Inr metadata \<Rightarrow>
          (case collect_endpoints Ch endpoint (\<lambda>k. w (Suc k)) blueprint_id operators of
             Inl e \<Rightarrow> Inl e
           | Inr rest \<Rightarrow> Inr (if endpoint metadata \<noteq> [] then endpoint metadata # rest else rest)))"

definition discover_operator_services ::
  "('c, 'm, 'l) chain \<Rightarrow> ('m \<Rightarrow> string) \<Rightarrow> (nat \<Rightarrow> 'c) \<Rightarrow> u64 \<Rightarrow> u64 \<Rightarrow> string \<Rightarrow> aggregating_error + string list" where
  "discover_operator_services Ch endpoint w blueprint_id service_id aggregation_path =
     (case ch_service_operators Ch service_id (w 0) of
        Inl e \<Rightarrow> Inl (AgClient e)
      | Inr operators \<Rightarrow>
          (case collect_endpoints Ch endpoint (\<lambda>k. w (Suc k)) blueprint_id operators of
             Inl e \<Rightarrow> Inl e
           | Inr rpc_addresses \<Rightarrow> Inr (List.map_filter (service_url aggregation_path) rpc_addresses)))"

section \<open>The environment\<close>

text \<open>A getter of the cache takes its circumstances from the world: the states of the chain it sees,
  the readings of the clock and what other tasks do to the cache meanwhile.\<close>

record ('c, 'm) circumstance =
  ci_chain :: "nat \<Rightarrow> 'c"
  ci_lookup :: instant
  ci_others :: "'m service_cache \<Rightarrow> 'm service_cache"
  ci_store :: instant

record ('c, 'm, 'l, 'w) consumer_env =
  ce_chain :: "('c, 'm, 'l) chain"
  ce_circumstance :: "'w \<Rightarrow> ('c, 'm) circumstance \<times> 'w"
  ce_chain_id :: "'w \<Rightarrow> (string + u64) \<times> 'w"
  ce_tangle_address :: address
  ce_dry_run :: bool
  ce_submit_result :: "u64 \<Rightarrow> u64 \<Rightarrow> bytes \<Rightarrow> 'w \<Rightarrow> (string + transaction_result) \<times> 'w"
  ce_submit_aggregated_result ::
    "u64 \<Rightarrow> u64 \<Rightarrow> bytes \<Rightarrow> u256 \<Rightarrow> u256 list \<Rightarrow> u256 list \<Rightarrow> 'w \<Rightarrow> (string + transaction_result) \<times> 'w"
  ce_show_hash :: "bytes \<Rightarrow> string"
  ce_keccak256 :: "bytes \<Rightarrow> bytes"
  ce_abi_operators :: "address list \<Rightarrow> bytes"
  ce_abi_message :: "string \<times> u256 \<times> address \<times> u64 \<times> u64 \<times> bytes \<times> bytes \<Rightarrow> bytes"
  ce_g1 :: "bytes \<Rightarrow> (u256 \<times> u256) option"
  ce_g2 :: "bytes \<Rightarrow> ((u256 \<times> u256) \<times> (u256 \<times> u256)) option"
  ce_now :: "'w \<Rightarrow> instant \<times> 'w"
  ce_sleep :: "duration \<Rightarrow> 'w \<Rightarrow> 'w"

definition tangle_signing_message ::
  "('c, 'm, 'l, 'w) consumer_env \<Rightarrow> u64 \<Rightarrow> address \<Rightarrow> u64 \<Rightarrow> u64 \<Rightarrow> address list \<Rightarrow> bytes \<Rightarrow> bytes" where
  "tangle_signing_message E chain_id tangle_address service_id call_id operators output =
     ce_abi_message E (''TANGLE_BLS_AGG_v1'', ucast chain_id, tangle_address, service_id, call_id,
       ce_keccak256 E (ce_abi_operators E operators), ce_keccak256 E output)"

section \<open>Preparing the task\<close>

definition cached_config ::
  "('c, 'm, 'l, 'w) consumer_env \<Rightarrow> u64 \<Rightarrow> u8 \<Rightarrow> 'm service_cache \<times> 'w \<Rightarrow>
   (aggregating_error + aggregation_config) \<times> 'm service_cache \<times> 'w" where
  "cached_config E service_id job_index st =
     (let (ci, w) = ce_circumstance E (snd st);
          (r, C) = get_aggregation_config (ce_chain E) (ci_chain ci 0) (ci_lookup ci) (ci_others ci) (ci_store ci)
                     service_id job_index (fst st)
      in (res_map_err (\<lambda>e. AgClient (show_config_error e)) r, C, w))"

definition cached_operators ::
  "('c, 'm, 'l, 'w) consumer_env \<Rightarrow> u64 \<Rightarrow> 'm service_cache \<times> 'w \<Rightarrow>
   (aggregating_error + service_operators) \<times> 'm service_cache \<times> 'w" where
  "cached_operators E service_id st =
     (let (ci, w) = ce_circumstance E (snd st);
          (r, C) = get_service_operators (ce_chain E) (ci_chain ci 0) (ci_lookup ci) (ci_others ci) (ci_store ci)
                     service_id (fst st)
      in (res_map_err (\<lambda>e. AgClient (show_config_error e)) r, C, w))"

definition cached_weights ::
  "('c, 'm, 'l, 'w) consumer_env \<Rightarrow> u64 \<Rightarrow> 'm service_cache \<times> 'w \<Rightarrow>
   (aggregating_error + operator_weights) \<times> 'm service_cache \<times> 'w" where
  "cached_weights E service_id st =
     (let (ci, w) = ce_circumstance E (snd st);
          (r, C) = get_operator_weights (ce_chain E) (ci_chain ci) (ci_lookup ci) (ci_others ci) (ci_store ci)
                     service_id (fst st)
      in (res_map_err (\<lambda>e. AgClient (show_config_error e)) r, C, w))"

record task_init =
  ti_operator_count :: u32
  ti_threshold :: threshold_config
  ti_operators :: "address list"

definition operator_stakes :: "operator_weights \<Rightarrow> address list \<Rightarrow> (u32 \<times> u64) list" where
  "operator_stakes weights operators =
     map (\<lambda>(idx, operator). (of_nat idx, case weights_get weights operator of None \<Rightarrow> 0 | Some x \<Rightarrow> ucast x))
       (enumerate 0 operators)"

definition prepare_aggregation_task ::
  "('c, 'm, 'l, 'w) consumer_env \<Rightarrow> u64 \<Rightarrow> aggregation_config \<Rightarrow> 'm service_cache \<times> 'w \<Rightarrow>
   (aggregating_error + task_init) \<times> 'm service_cache \<times> 'w" where
  "prepare_aggregation_task E service_id config st =
     (case cached_operators E service_id st of
        (Inl e, st1) \<Rightarrow> (Inl e, st1)
      | (Inr so, st1) \<Rightarrow>
          if operators_len so = 0
          then (Inl (AgClient (''No operators registered for service '' @ show_u64 service_id)), st1)
          else
            (let by_count = CountConfig (ucast (calculate_required_signers (of_nat (operators_len so))
                   (ac_threshold_bps config) ChainCountBased None));
                 init = (\<lambda>threshold. Inr \<lparr>ti_operator_count = of_nat (operators_len so),
                   ti_threshold = threshold, ti_operators = so_operators so\<rparr>)
             in case ac_threshold_type config of
                  ChainCountBased \<Rightarrow> (init by_count, st1)
                | ChainStakeWeighted \<Rightarrow>
                    (case cached_weights E service_id st1 of
                       (Inl e, st2) \<Rightarrow> (Inl e, st2)
                     | (Inr weights, st2) \<Rightarrow>
                         (let stakes = operator_stakes weights (so_operators so)
                          in if weights_is_empty weights then (init by_count, st2)
                             else if list_all (\<lambda>(_, stake). stake = 0) stakes then (init by_count, st2)
                             else (init (StakeWeightedConfig (ucast (ac_threshold_bps config)) stakes), st2)))))"

section \<open>Submitting\<close>

text \<open>The task is announced to every service, and the signature given to those that took it. The
  answer is the last response.\<close>

fun offer_signature ::
  "('w server \<Rightarrow> 'w \<Rightarrow> (client_error + unit) \<times> 'w) \<Rightarrow> submit_request \<Rightarrow> 'w server list \<Rightarrow>
   submit_response option \<Rightarrow> 'w \<Rightarrow> submit_response option \<times> 'w" where
  "offer_signature init request [] last_response w = (last_response, w)"
| "offer_signature init request (S # Ss) last_response w =
     (case init S w of
        (Inl _, w1) \<Rightarrow> offer_signature init request Ss last_response w1
      | (Inr _, w1) \<Rightarrow>
          (case client_submit_signature S request w1 of
             (Inr response, w2) \<Rightarrow> offer_signature init request Ss (Some response) w2
           | (Inl _, w2) \<Rightarrow> offer_signature init request Ss last_response w2))"

fun poll_services ::
  "'w server list \<Rightarrow> u64 \<Rightarrow> u64 \<Rightarrow> 'w \<Rightarrow> threshold_wait_result option \<times> 'w" where
  "poll_services [] service_id call_id w = (None, w)"
| "poll_services (S # Ss) service_id call_id w =
     (case client_get_aggregated S service_id call_id w of
        (Inr (Some result), w1) \<Rightarrow> (Some (Aggregated result), w1)
      | (_, w1) \<Rightarrow>
          (case client_get_status S service_id call_id w1 of
             (Inr status, w2) \<Rightarrow>
               if sr_submitted status then (Some SubmittedC, w2) else poll_services Ss service_id call_id w2
           | (Inl _, w2) \<Rightarrow> poll_services Ss service_id call_id w2))"

fun any_submitted :: "'w server list \<Rightarrow> u64 \<Rightarrow> u64 \<Rightarrow> 'w \<Rightarrow> bool \<times> 'w" where
  "any_submitted [] service_id call_id w = (False, w)"
| "any_submitted (S # Ss) service_id call_id w =
     (case client_get_status S service_id call_id w of
        (Inr status, w1) \<Rightarrow>
          if sr_submitted status then (True, w1) else any_submitted Ss service_id call_id w1
      | (Inl _, w1) \<Rightarrow> any_submitted Ss service_id call_id w1)"

partial_function (option) wait_any_loop ::
  "('c, 'm, 'l, 'w) consumer_env \<Rightarrow> 'w server list \<Rightarrow> u64 \<Rightarrow> u64 \<Rightarrow> duration \<Rightarrow> duration \<Rightarrow> instant \<Rightarrow> 'w \<Rightarrow>
   ((aggregating_error + threshold_wait_result) \<times> 'w) option" where
  "wait_any_loop E Ss service_id call_id poll_interval timeout start w =
     (case ce_now E w of
        (now, w0) \<Rightarrow>
          if elapsed now start < timeout
          then (case poll_services Ss service_id call_id w0 of
                  (Some result, w1) \<Rightarrow> Some (Inr result, w1)
                | (None, w1) \<Rightarrow>
                    wait_any_loop E Ss service_id call_id poll_interval timeout start
                      (ce_sleep E poll_interval w1))
          else (case any_submitted Ss service_id call_id w0 of
                  (submitted, w1) \<Rightarrow>
                    Some (if submitted then Inr SubmittedC
                          else Inl (AgClient ''Timeout waiting for aggregation threshold''), w1)))"

definition wait_for_threshold_any_service ::
  "('c, 'm, 'l, 'w) consumer_env \<Rightarrow> ('sk, 'p, 'w) agg_service_config \<Rightarrow> u64 \<Rightarrow> u64 \<Rightarrow> 'w \<Rightarrow>
   ((aggregating_error + threshold_wait_result) \<times> 'w) option" where
  "wait_for_threshold_any_service E agg service_id call_id w =
     (case ce_now E w of
        (start, w') \<Rightarrow>
          wait_any_loop E (as_clients agg) service_id call_id (as_poll_interval agg)
            (as_threshold_timeout agg) start w')"

record chain_result =
  xr_service_id :: u64
  xr_call_id :: u64
  xr_output :: bytes
  xr_signer_bitmap :: u256
  xr_signature :: g1_point
  xr_pubkey :: g2_point

definition chain_result_submit ::
  "('c, 'm, 'l, 'w) consumer_env \<Rightarrow> chain_result \<Rightarrow> 'w \<Rightarrow> (aggregation_error + unit) \<times> 'w" where
  "chain_result_submit E r w =
     (case ce_submit_aggregated_result E (xr_service_id r) (xr_call_id r) (xr_output r) (xr_signer_bitmap r)
             (g1_to_array (xr_signature r)) (g2_to_array (xr_pubkey r)) w of
        (Inl e, w') \<Rightarrow> (Inl (AggContractError (''Failed to submit aggregated result: '' @ e)), w')
      | (Inr result, w') \<Rightarrow>
          (if tx_success result then Inr ()
           else Inl (AggContractError (''Transaction reverted for service '' @ show_u64 (xr_service_id r)
             @ '' call '' @ show_u64 (xr_call_id r) @ '': tx_hash='' @ ce_show_hash E (tx_hash result))), w'))"

fun mark_all :: "'w server list \<Rightarrow> u64 \<Rightarrow> u64 \<Rightarrow> 'w \<Rightarrow> 'w" where
  "mark_all [] service_id call_id w = w"
| "mark_all (S # Ss) service_id call_id w =
     mark_all Ss service_id call_id (snd (client_mark_submitted S service_id call_id w))"

text \<open>The coordinates of a key go to the contract with the second component first.\<close>

definition submit_aggregated_to_chain_with_result ::
  "('c, 'm, 'l, 'w) consumer_env \<Rightarrow> ('sk, 'p, 'w) agg_service_config \<Rightarrow> u64 \<Rightarrow> u64 \<Rightarrow> aggregated_result \<Rightarrow> 'w \<Rightarrow>
   (aggregating_error + unit) \<times> 'w" where
  "submit_aggregated_to_chain_with_result E agg service_id call_id result w =
     (if ce_dry_run E then (Inr (), w)
      else case ce_g1 E (ar_signature result) of
        None \<Rightarrow> (Inl (AgBls ''Invalid aggregated signature''), w)
      | Some (sx, sy) \<Rightarrow>
          (case ce_g2 E (ar_pubkey result) of
             None \<Rightarrow> (Inl (AgBls ''Invalid aggregated pubkey''), w)
           | Some ((x_c0, x_c1), (y_c0, y_c1)) \<Rightarrow>
               (case chain_result_submit E
                       \<lparr>xr_service_id = service_id, xr_call_id = call_id, xr_output = ar_output result,
                        xr_signer_bitmap = ar_signer_bitmap result,
                        xr_signature = \<lparr>g1_x = sx, g1_y = sy\<rparr>,
                        xr_pubkey = \<lparr>g2_x0 = x_c1, g2_x1 = x_c0, g2_y0 = y_c1, g2_y1 = y_c0\<rparr>\<rparr> w of
                  (Inl e, w') \<Rightarrow> (Inl (AgAggregation e), w')
                | (Inr _, w') \<Rightarrow> (Inr (), mark_all (as_clients agg) service_id call_id w'))))"

fun try_submit_from ::
  "('c, 'm, 'l, 'w) consumer_env \<Rightarrow> ('sk, 'p, 'w) agg_service_config \<Rightarrow> 'w server list \<Rightarrow> u64 \<Rightarrow> u64 \<Rightarrow> 'w \<Rightarrow>
   (aggregating_error + unit) \<times> 'w" where
  "try_submit_from E agg [] service_id call_id w =
     (Inl (AgClient ''Aggregated result not available from any service''), w)"
| "try_submit_from E agg (S # Ss) service_id call_id w =
     (case client_get_aggregated_or_submitted S service_id call_id w of
        (Inr SubmittedC, w1) \<Rightarrow> (Inr (), w1)
      | (Inr (Aggregated result), w1) \<Rightarrow>
          submit_aggregated_to_chain_with_result E agg service_id call_id result w1
      | (Inl _, w1) \<Rightarrow> try_submit_from E agg Ss service_id call_id w1)"

definition try_submit_aggregated_to_chain ::
  "('c, 'm, 'l, 'w) consumer_env \<Rightarrow> ('sk, 'p, 'w) agg_service_config \<Rightarrow> u64 \<Rightarrow> u64 \<Rightarrow> 'w \<Rightarrow>
   (aggregating_error + unit) \<times> 'w" where
  "try_submit_aggregated_to_chain E agg service_id call_id w =
     try_submit_from E agg (as_clients agg) service_id call_id w"

text \<open>Another operator's submission is a success.\<close>

definition tolerate_completed :: "(aggregating_error + unit) \<times> 'w \<Rightarrow> (aggregating_error + unit) \<times> 'w" where
  "tolerate_completed out =
     (case fst out of
        Inl error \<Rightarrow> if is_job_already_completed error then Inr () else Inl error
      | Inr _ \<Rightarrow> Inr (), snd out)"

definition finish_aggregation ::
  "('c, 'm, 'l, 'w) consumer_env \<Rightarrow> ('sk, 'p, 'w) agg_service_config \<Rightarrow> u64 \<Rightarrow> u64 \<Rightarrow> submit_response option \<Rightarrow> 'w \<Rightarrow>
   ((aggregating_error + unit) \<times> 'w) option" where
  "finish_aggregation E agg service_id call_id last_response w =
     (case last_response of
        None \<Rightarrow> Some (Inl (AgClient ''Failed to submit to any aggregation service''), w)
      | Some response \<Rightarrow>
          if \<not> as_submit_to_chain agg then Some (Inr (), w)
          else if rs_threshold_met response
          then Some (tolerate_completed (try_submit_aggregated_to_chain E agg service_id call_id w))
          else if as_wait_for_threshold agg
          then map_option (\<lambda>(r, w'). case r of
                   Inl e \<Rightarrow> (Inl e, w')
                 | Inr SubmittedC \<Rightarrow> (Inr (), w')
                 | Inr (Aggregated result) \<Rightarrow>
                     tolerate_completed
                       (submit_aggregated_to_chain_with_result E agg service_id call_id result w'))
                 (wait_for_threshold_any_service E agg service_id call_id w)
          else Some (Inr (), w))"

definition submit_aggregated_result ::
  "('c, 'm, 'l, 'w) consumer_env \<Rightarrow> ('s, 'p) point_codec \<Rightarrow> ('sk, 's, 'p) signer \<Rightarrow> u64 \<Rightarrow> u64 \<Rightarrow> bytes \<Rightarrow>
   aggregation_config \<Rightarrow> ('sk, 'p, 'w) agg_service_config \<Rightarrow> 'm service_cache \<times> 'w \<Rightarrow>
   ((aggregating_error + unit) \<times> 'm service_cache \<times> 'w) option" where
  "submit_aggregated_result E K G service_id call_id output config agg st =
     (case prepare_aggregation_task E service_id config st of
        (Inl e, st1) \<Rightarrow> Some (Inl e, st1)
      | (Inr task, C, w) \<Rightarrow>
          (case ce_chain_id E w of
             (Inl e, w1) \<Rightarrow> Some (Inl (AgClient e), C, w1)
           | (Inr chain_id, w1) \<Rightarrow>
               (let message = tangle_signing_message E chain_id (ce_tangle_address E) service_id call_id
                      (ti_operators task) output
                in case sg_sign G (as_bls_secret agg) message of
                     Inl e \<Rightarrow> Some (Inl (AgBls e), C, w1)
                   | Inr signature \<Rightarrow>
                       (case (pc_pk_ser K (as_bls_public agg), pc_sig_ser K signature) of
                          (Inr pubkey_bytes, Inr sig_bytes) \<Rightarrow>
                            (let request = \<lparr>rq_service_id = service_id, rq_call_id = call_id,
                                   rq_operator_index = as_operator_index agg, rq_output = output,
                                   rq_signature = sig_bytes, rq_public_key = pubkey_bytes\<rparr>;
                                 init = (\<lambda>S. client_init_task_with_message S service_id call_id output message
                                   TangleKeccak256 (ti_operator_count task) (ti_threshold task));
                                 (last_response, w2) = offer_signature init request (as_clients agg) None w1
                             in map_option (\<lambda>(r, w3). (r, C, w3))
                                  (finish_aggregation E agg service_id call_id last_response w2))
                        | _ \<Rightarrow> Some (Inl AgPanicked, C, w1)))))"

definition submit_direct_result ::
  "('c, 'm, 'l, 'w) consumer_env \<Rightarrow> u64 \<Rightarrow> u64 \<Rightarrow> bytes \<Rightarrow> 'w \<Rightarrow> (aggregating_error + unit) \<times> 'w" where
  "submit_direct_result E service_id call_id output w =
     (if ce_dry_run E then (Inr (), w)
      else case ce_submit_result E service_id call_id output w of
             (Inl e, w') \<Rightarrow> (Inl (AgTransaction (''Failed to submit result: '' @ e)), w')
           | (Inr result, w') \<Rightarrow>
               (if tx_success result then Inr ()
                else Inl (AgTransaction (''Transaction reverted for service '' @ show_u64 service_id @ '' call ''
                  @ show_u64 call_id @ '': tx_hash='' @ ce_show_hash E (tx_hash result))), w'))"

definition submit_job_result ::
  "('c, 'm, 'l, 'w) consumer_env \<Rightarrow> ('s, 'p) point_codec \<Rightarrow> ('sk, 's, 'p) signer \<Rightarrow>
   ('sk, 'p, 'w) agg_service_config option \<Rightarrow> pending_job_result \<Rightarrow> 'm service_cache \<times> 'w \<Rightarrow>
   ((aggregating_error + unit) \<times> 'm service_cache \<times> 'w) option" where
  "submit_job_result E K G agg_config pending st =
     (case cached_config E (pj_service_id pending) (pj_job_index pending) st of
        (Inl e, st1) \<Rightarrow> Some (Inl e, st1)
      | (Inr config, C, w) \<Rightarrow>
          if ac_required config
          then (case agg_config of
                  None \<Rightarrow> Some (Inl AgNotConfigured, C, w)
                | Some agg \<Rightarrow>
                    submit_aggregated_result E K G (pj_service_id pending) (pj_call_id pending)
                      (pj_output pending) config agg (C, w))
          else (case submit_direct_result E (pj_service_id pending) (pj_call_id pending) (pj_output pending) w of
                  (r, w') \<Rightarrow> Some (r, C, w')))"

end
