(* ===== verification/Spec2Isabelle.thy ===== *)
theory Spec2Isabelle
  imports Agg_Api Gossip_Locks Agg_Sig_Correct Blueprint_Correct P2p_Strategy Cache_Correct Job_Router Producer_Correct Agg_Consumer
begin

text \<open>
  Verification of the Blueprint SDK.
\<close>

end
